(* ===== verification/Prelude.thy ===== *)
theory Prelude
  imports Main "HOL-Library.AList" "HOL-Library.List_Lexorder" "HOL-Library.Char_ord"
    "HOL-Library.Product_Lexorder"
begin

text \<open>
  Shared vocabulary of the development: the exceptions the Python code can raise, the
  result type that carries them, Python dictionaries as association lists in insertion
  order, and the generic lemmas the component theories use.

  A Python function that may raise returns \<open>'e + 'a\<close>: \<open>Inl\<close> is the exception, \<open>Inr\<close>
  the value. \<open>rbind\<close> is sequencing, which stops at the first exception, and \<open>rfold\<close>
  is a \<open>for\<close> loop whose body may raise. A \<open>dict\<close> is an association list with distinct
  keys: \<open>map_of\<close> reads a key, \<open>AList.update\<close> writes one (in place when the key is
  there, at the end when it is new, which is Python's insertion order) and
  \<open>dict_drop\<close> removes a set of keys.
\<close>

named_theorems result_simps \<open>equations of the result type\<close>
named_theorems dict_simps \<open>lookups in updated dictionaries\<close>

section \<open>Exceptions and results\<close>

datatype py_error =
    ValueError
  | KeyError
  | IndexError
  | AttributeError
  | TypeError
  | AssertionError
  | ToolchainAssertion
  | UnboundLocalError
  | ZeroDivisionError

definition rbind :: "'e + 'a \<Rightarrow> ('a \<Rightarrow> 'e + 'b) \<Rightarrow> 'e + 'b" where
  "rbind m f = (case m of Inl e \<Rightarrow> Inl e | Inr x \<Rightarrow> f x)"

definition rmap :: "('a \<Rightarrow> 'b) \<Rightarrow> 'e + 'a \<Rightarrow> 'e + 'b" where
  "rmap f m = (case m of Inl e \<Rightarrow> Inl e | Inr x \<Rightarrow> Inr (f x))"

definition rlift :: "('d \<Rightarrow> 'e) \<Rightarrow> 'd + 'a \<Rightarrow> 'e + 'a" where
  "rlift f m = (case m of Inl e \<Rightarrow> Inl (f e) | Inr x \<Rightarrow> Inr x)"

primrec rfold :: "('a \<Rightarrow> 's \<Rightarrow> 'e + 's) \<Rightarrow> 'a list \<Rightarrow> 's \<Rightarrow> 'e + 's" where
  "rfold f [] s = Inr s"
| "rfold f (x # xs) s = rbind (f x s) (rfold f xs)"

primrec rmap_list :: "('a \<Rightarrow> 'e + 'b) \<Rightarrow> 'a list \<Rightarrow> 'e + 'b list" where
  "rmap_list f [] = Inr []"
| "rmap_list f (x # xs) = rbind (f x) (\<lambda>y. rmap (\<lambda>ys. y # ys) (rmap_list f xs))"

declare rbind_def [code_unfold] rmap_def [code_unfold] rlift_def [code_unfold]

lemma rbind_simps [simp, result_simps]:
  "rbind (Inl e) f = Inl e"
  "rbind (Inr x) f = f x"
  by (simp_all add: rbind_def)

lemma rmap_simps [simp, result_simps]:
  "rmap f (Inl e) = Inl e"
  "rmap f (Inr x) = Inr (f x)"
  by (simp_all add: rmap_def)

lemma rlift_simps [simp, result_simps]:
  "rlift f (Inl e) = Inl (f e)"
  "rlift f (Inr x) = Inr x"
  by (simp_all add: rlift_def)

lemma rbind_eq_Inr [simp]: "rbind m f = Inr y \<longleftrightarrow> (\<exists>x. m = Inr x \<and> f x = Inr y)"
  by (cases m) auto

lemma rbind_eq_Inl: "rbind m f = Inl e \<longleftrightarrow> m = Inl e \<or> (\<exists>x. m = Inr x \<and> f x = Inl e)"
  by (cases m) auto

lemma rmap_eq_Inr [simp]: "rmap f m = Inr y \<longleftrightarrow> (\<exists>x. m = Inr x \<and> y = f x)"
  by (cases m) auto

lemma rmap_eq_Inl [simp]: "rmap f m = Inl e \<longleftrightarrow> m = Inl e"
  by (cases m) auto

lemma rlift_eq_Inr [simp]: "rlift f m = Inr y \<longleftrightarrow> m = Inr y"
  by (cases m) auto

lemma rlift_eq_Inl: "rlift f m = Inl e \<longleftrightarrow> (\<exists>d. m = Inl d \<and> e = f d)"
  by (cases m) auto

lemma rfold_append: "rfold f (xs @ ys) s = rbind (rfold f xs s) (rfold f ys)"
  by (induction xs arbitrary: s) (auto simp: rbind_def split: sum.splits)

text \<open>A loop keeps whatever every run of its body keeps.\<close>

lemma rfold_invariant:
  assumes "rfold f xs s = Inr s'" and "P s"
    and "\<And>x t t'. x \<in> set xs \<Longrightarrow> P t \<Longrightarrow> f x t = Inr t' \<Longrightarrow> P t'"
  shows "P s'"
  using assms
proof (induction xs arbitrary: s)
  case Nil
  then show ?case by simp
next
  case (Cons x xs)
  from Cons.prems(1) obtain t where t: "f x s = Inr t" "rfold f xs t = Inr s'" by auto
  show ?case
  proof (rule Cons.IH [OF t(2)])
    show "P t" by (rule Cons.prems(3) [OF _ Cons.prems(2) t(1)]) simp
  next
    fix y u u'
    assume "y \<in> set xs" "P u" "f y u = Inr u'"
    then show "P u'" using Cons.prems(3) [of y u u'] by simp
  qed
qed

lemma rmap_list_Inr_length: "rmap_list f xs = Inr ys \<Longrightarrow> length ys = length xs"
  by (induction xs arbitrary: ys) auto

lemma rmap_list_Inr_iff:
  "rmap_list f xs = Inr ys \<longleftrightarrow> list_all2 (\<lambda>x y. f x = Inr y) xs ys"
  by (induction xs arbitrary: ys) (auto simp: list_all2_Cons1)

section \<open>Dictionaries\<close>

type_synonym ('k, 'v) dict = "('k \<times> 'v) list"

definition dict_drop :: "'k set \<Rightarrow> ('k, 'v) dict \<Rightarrow> ('k, 'v) dict" where
  "dict_drop K d = filter (\<lambda>(k, v). k \<notin> K) d"

abbreviation dict_keys :: "('k, 'v) dict \<Rightarrow> 'k list" where
  "dict_keys d \<equiv> map fst d"

abbreviation is_dict :: "('k, 'v) dict \<Rightarrow> bool" where
  "is_dict d \<equiv> distinct (map fst d)"

lemma map_of_dict_drop [simp, dict_simps]:
  "map_of (dict_drop K d) k = (if k \<in> K then None else map_of d k)"
  by (induction d) (auto simp: dict_drop_def)

lemma map_of_update [simp, dict_simps]:
  "map_of (AList.update k v d) k' = (if k' = k then Some v else map_of d k')"
  by (simp add: AList.update_conv')

lemma is_dict_update [simp]: "is_dict d \<Longrightarrow> is_dict (AList.update k v d)"
  by (rule AList.distinct_update)

lemma is_dict_drop [simp]: "is_dict d \<Longrightarrow> is_dict (dict_drop K d)"
  by (induction d) (auto simp: dict_drop_def)

lemma set_dict_drop: "set (dict_drop K d) = {(k, v) \<in> set d. k \<notin> K}"
  by (auto simp: dict_drop_def)

lemma keys_update: "fst ` set (AList.update k v d) = insert k (fst ` set d)"
  by (simp add: AList.dom_update)

lemma is_dict_mem_iff: "is_dict d \<Longrightarrow> (k, v) \<in> set d \<longleftrightarrow> map_of d k = Some v"
  by (simp add: map_of_eq_Some_iff)

lemma length_update:
  "length (AList.update k v d) = (if k \<in> fst ` set d then length d else Suc (length d))"
  by (induction d) auto

lemma length_keys_update_new: "map_of d k = None \<Longrightarrow> length (AList.update k v d) = Suc (length d)"
  by (simp add: length_update map_of_eq_None_iff)

section \<open>Sorting by a key\<close>

text \<open>
  Python's \<open>sorted(xs, key=f)\<close> is stable, as \<open>sort_key\<close> is. The last element of a
  sorted list is one with the largest key.
\<close>

lemma sort_key_Nil_iff [simp]: "sort_key f xs = [] \<longleftrightarrow> xs = []"
  using length_sort [of f xs] by (metis length_0_conv)

lemma last_sort_key_max:
  assumes "xs \<noteq> []" and "x \<in> set xs"
  shows "f x \<le> f (last (sort_key f xs))"
proof -
  let ?ys = "map f (sort_key f xs)"
  have ne: "?ys \<noteq> []" using assms(1) by (metis length_0_conv length_sort map_is_Nil_conv)
  have "f x \<in> set ?ys" using assms(2) by simp
  then obtain i where i: "i < length ?ys" "?ys ! i = f x" by (metis in_set_conv_nth)
  have "?ys ! i \<le> ?ys ! (length ?ys - 1)"
    by (rule sorted_nth_mono) (use i in auto)
  then have "f x \<le> last ?ys" using i(2) ne by (metis last_conv_nth)
  then show ?thesis using ne by (simp add: last_map)
qed

lemma distinct_map_sort_filter: "distinct (map f xs) \<Longrightarrow> distinct (map f (sort_key g (filter P xs)))"
  by (auto simp: distinct_map inj_on_def)

section \<open>Strings\<close>

text \<open>\<open>sep.join(xs)\<close>, and \<open>str\<close> of a natural number: its decimal digits.\<close>

fun str_join :: "string \<Rightarrow> string list \<Rightarrow> string" where
  "str_join sep [] = []"
| "str_join sep [x] = x"
| "str_join sep (x # y # xs) = x @ sep @ str_join sep (y # xs)"

definition digit_char :: "nat \<Rightarrow> char" where
  "digit_char d = char_of (48 + d)"

fun nat_str :: "nat \<Rightarrow> string" where
  "nat_str n = (if n < 10 then [digit_char n] else nat_str (n div 10) @ [digit_char (n mod 10)])"

declare nat_str.simps [simp del]

text \<open>\<open>str.lower\<close> on ASCII text.\<close>

definition lower_char :: "char \<Rightarrow> char" where
  "lower_char c = (if 65 \<le> (of_char c :: nat) \<and> (of_char c :: nat) \<le> 90 then char_of ((of_char c :: nat) + 32) else c)"

abbreviation str_lower :: "string \<Rightarrow> string" where
  "str_lower \<equiv> map lower_char"

abbreviation newline :: string where
  "newline \<equiv> [CHR 0x0A]"

text \<open>
  \<open>s.split(c)\<close> for a one-character separator, \<open>p in s\<close>, and the text after the first
  occurrence of \<open>p\<close>.
\<close>

fun split_on :: "char \<Rightarrow> string \<Rightarrow> string list" where
  "split_on c [] = [[]]"
| "split_on c (x # xs) =
     (if x = c then [] # split_on c xs
      else case split_on c xs of [] \<Rightarrow> [[x]] | y # ys \<Rightarrow> (x # y) # ys)"

fun starts_with :: "string \<Rightarrow> string \<Rightarrow> bool" where
  "starts_with [] s = True"
| "starts_with (x # xs) [] = False"
| "starts_with (x # xs) (y # ys) = (x = y \<and> starts_with xs ys)"

fun after_first :: "string \<Rightarrow> string \<Rightarrow> string option" where
  "after_first p [] = (if p = [] then Some [] else None)"
| "after_first p (x # xs) = (if starts_with p (x # xs) then Some (drop (length p) (x # xs)) else after_first p xs)"

definition contains :: "string \<Rightarrow> string \<Rightarrow> bool" where
  "contains p s = (after_first p s \<noteq> None)"

lemma split_on_ne [simp]: "split_on c s \<noteq> []"
  by (cases s) (auto split: list.splits)

lemma split_on_no_sep: "c \<notin> set s \<Longrightarrow> split_on c s = [s]"
  by (induction s) auto

lemma split_on_append: "c \<notin> set s \<Longrightarrow> split_on c (s @ c # t) = s # split_on c t"
  by (induction s) auto

lemma split_on_join:
  "xs \<noteq> [] \<Longrightarrow> \<forall>x \<in> set xs. c \<notin> set x \<Longrightarrow> split_on c (str_join [c] xs) = xs"
  by (induction "[c]" xs rule: str_join.induct) (auto simp: split_on_no_sep split_on_append)

lemma str_join_Cons_Cons [simp]: "str_join sep ((x # y) # ys) = x # str_join sep (y # ys)"
  by (cases ys) auto

lemma str_join_Nil_Cons [simp]: "ys \<noteq> [] \<Longrightarrow> str_join sep ([] # ys) = sep @ str_join sep ys"
  by (cases ys) auto

lemma join_split_on: "str_join [c] (split_on c s) = s"
  by (induction s) (auto split: list.splits)

lemma split_on_parts: "x \<in> set (split_on c s) \<Longrightarrow> c \<notin> set x"
  by (induction s arbitrary: x) (auto split: if_splits list.splits)

lemma starts_with_iff: "starts_with p s \<longleftrightarrow> (\<exists>t. s = p @ t)"
  by (induction p s rule: starts_with.induct) auto

lemma after_first_SomeD: "after_first p s = Some t \<Longrightarrow> \<exists>u. s = u @ p @ t"
proof (induction p s rule: after_first.induct)
  case (2 p x xs)
  show ?case
  proof (cases "starts_with p (x # xs)")
    case True
    then show ?thesis using "2.prems" by (auto simp: starts_with_iff simp del: starts_with.simps intro: exI [of _ "[]"])
  next
    case False
    then show ?thesis using 2 by (auto intro: exI [of _ "x # u" for u])
  qed
qed (auto split: if_splits)

lemma contains_set: "contains p s \<Longrightarrow> set p \<subseteq> set s"
  by (auto simp: contains_def dest!: after_first_SomeD)

section \<open>Invariants of step relations\<close>

text \<open>
  The interface a state machine offers its safety proofs: an invariant that holds at the
  start and that every step keeps holds in every reachable state.
\<close>

locale invariant_system =
  fixes start :: "'s \<Rightarrow> bool" and step :: "'s \<Rightarrow> 's \<Rightarrow> bool" and inv :: "'s \<Rightarrow> bool"
  assumes start_inv: "start s \<Longrightarrow> inv s"
    and step_inv: "inv s \<Longrightarrow> step s t \<Longrightarrow> inv t"
begin

lemma steps_inv: "step\<^sup>*\<^sup>* s t \<Longrightarrow> inv s \<Longrightarrow> inv t"
  by (induction rule: rtranclp_induct) (auto intro: step_inv)

lemma reachable_inv: "start s \<Longrightarrow> step\<^sup>*\<^sup>* s t \<Longrightarrow> inv t"
  using steps_inv start_inv by blast

end

end
