(* ===== verification/Access_Claims.thy ===== *)
theory Access_Claims
  imports Prelude
begin

text \<open>
  Audiences and claims of access tokens: \<open>django/auth/constants.py\<close> and
  \<open>django/auth/claims.py\<close>. A flag value is the set of the members it combines: \<open>|\<close> is union
  and \<open>in\<close> is inclusion. A JSON dictionary is a dictionary of dynamic values, and a field of a
  claims object that the code passes through without looking at it keeps its dynamic value.
\<close>

section \<open>Audiences\<close>

datatype token_type = REFRESH_TOKEN | ACCESS_TOKEN

fun token_type_value :: "token_type \<Rightarrow> string" where
  "token_type_value REFRESH_TOKEN = ''refresh''"
| "token_type_value ACCESS_TOKEN = ''access''"

datatype flag =
    BUILDSENSE_API | DEPENDENCY_API | CACHE_RW | CACHE_RO | FRONTEND_API | IMPERSONATE | INTERNAL_TOOLCHAIN | REMOTE_EXECUTION

definition all_flags :: "flag list" where
  "all_flags = [BUILDSENSE_API, DEPENDENCY_API, CACHE_RW, CACHE_RO, FRONTEND_API, IMPERSONATE, INTERNAL_TOOLCHAIN, REMOTE_EXECUTION]"

type_synonym audience = "flag set"

fun flag_name :: "flag \<Rightarrow> string" where
  "flag_name BUILDSENSE_API = ''BUILDSENSE_API''"
| "flag_name DEPENDENCY_API = ''DEPENDENCY_API''"
| "flag_name CACHE_RW = ''CACHE_RW''"
| "flag_name CACHE_RO = ''CACHE_RO''"
| "flag_name FRONTEND_API = ''FRONTEND_API''"
| "flag_name IMPERSONATE = ''IMPERSONATE''"
| "flag_name INTERNAL_TOOLCHAIN = ''INTERNAL_TOOLCHAIN''"
| "flag_name REMOTE_EXECUTION = ''REMOTE_EXECUTION''"

definition for_pants_client :: "bool \<Rightarrow> bool \<Rightarrow> bool \<Rightarrow> py_error + audience" where
  "for_pants_client with_impersonation internal_toolchain with_remote_execution =
     (if with_impersonation \<and> internal_toolchain then Inl ToolchainAssertion
      else Inr ({BUILDSENSE_API, CACHE_RO, CACHE_RW}
        \<union> (if with_impersonation then {IMPERSONATE} else {})
        \<union> (if internal_toolchain then {INTERNAL_TOOLCHAIN} else {})
        \<union> (if with_remote_execution then {REMOTE_EXECUTION} else {})))"

text \<open>\<open>s.replace("_api", "")\<close>.\<close>

fun remove_api :: "string \<Rightarrow> string" where
  "remove_api [] = []"
| "remove_api (c # s) = (if starts_with ''_api'' (c # s) then remove_api (drop 3 s) else c # remove_api s)"

definition api_name :: "flag \<Rightarrow> string" where
  "api_name f = (if f = REMOTE_EXECUTION then ''exec'' else remove_api (str_lower (flag_name f)))"

definition api_names_map :: "(string, flag) dict" where
  "api_names_map = map (\<lambda>f. (api_name f, f)) all_flags"

definition from_api_names :: "string list \<Rightarrow> py_error + audience" where
  "from_api_names names =
     (if names = [] then Inl ToolchainAssertion
      else rfold (\<lambda>n aud. case map_of api_names_map n of None \<Rightarrow> Inl KeyError | Some f \<Rightarrow> Inr (insert f aud)) names {})"

definition merge :: "audience \<Rightarrow> audience \<Rightarrow> audience option" where
  "merge allowed requested =
     (let merged = filter (\<lambda>f. f \<in> allowed \<and> f \<in> requested) all_flags in if merged = [] then None else Some (set merged))"

definition check_audiences :: "audience \<Rightarrow> audience list \<Rightarrow> py_error + bool list" where
  "check_audiences self audiences = (if audiences = [] then Inl ToolchainAssertion else Inr (map (\<lambda>a. a \<subseteq> self) audiences))"

definition has_all_audiences :: "audience \<Rightarrow> audience list \<Rightarrow> py_error + bool" where
  "has_all_audiences self audiences = rmap (\<lambda>bs. \<forall>b \<in> set bs. b) (check_audiences self audiences)"

definition can_impersonate :: "audience \<Rightarrow> py_error + bool" where
  "can_impersonate self = has_all_audiences self [{IMPERSONATE}]"

definition has_caching :: "audience \<Rightarrow> py_error + bool" where
  "has_caching self = rmap (\<lambda>bs. \<exists>b \<in> set bs. b) (check_audiences self [{CACHE_RW}, {CACHE_RO}])"

definition has_remote_execution :: "audience \<Rightarrow> py_error + bool" where
  "has_remote_execution self = has_all_audiences self [{REMOTE_EXECUTION}]"

definition has_frontend_api :: "audience \<Rightarrow> py_error + bool" where
  "has_frontend_api self = has_all_audiences self [{FRONTEND_API}]"

text \<open>A single flag has a name; any other value is broken up in the order of the members.\<close>

definition current_values :: "audience \<Rightarrow> flag list" where
  "current_values self = (if card self = 1 then [the_elem self] else filter (\<lambda>f. f \<in> self) all_flags)"

definition to_claim :: "audience \<Rightarrow> string list" where
  "to_claim self = sort (map api_name (current_values self))"

definition to_display :: "audience \<Rightarrow> string" where
  "to_display self = (if self = {} then ''N/A'' else str_join '', '' (sort (map flag_name (current_values self))))"

section \<open>Claims\<close>

datatype json_value = JNull | JBool bool | JNum int | JStr string | JList "string list"

type_synonym json_dict = "(string, json_value) dict"

definition item :: "json_dict \<Rightarrow> string \<Rightarrow> py_error + json_value" where
  "item d k = (case map_of d k of None \<Rightarrow> Inl KeyError | Some v \<Rightarrow> Inr v)"

definition item_or_none :: "json_dict \<Rightarrow> string \<Rightarrow> json_value" where
  "item_or_none d k = (case map_of d k of None \<Rightarrow> JNull | Some v \<Rightarrow> v)"

text \<open>\<open>from_api_names\<close> of a dynamic value: iterating over a string gives its characters, none of which is a name.\<close>

fun json_audience :: "json_value \<Rightarrow> py_error + audience" where
  "json_audience (JList names) = from_api_names names"
| "json_audience (JStr s) = (if s = [] then Inl ToolchainAssertion else Inl KeyError)"
| "json_audience (JBool b) = (if b then Inl TypeError else Inl ToolchainAssertion)"
| "json_audience (JNum n) = (if n = 0 then Inl ToolchainAssertion else Inl TypeError)"
| "json_audience JNull = Inl ToolchainAssertion"

definition access_token_type :: "json_value \<Rightarrow> py_error + token_type" where
  "access_token_type v =
     (if v = JStr ''refresh'' then Inr REFRESH_TOKEN else if v = JStr ''access'' then Inr ACCESS_TOKEN else Inl ValueError)"

record base_claims =
  cl_user_api_id :: json_value
  cl_username :: json_value
  cl_audience :: audience
  cl_token_type :: token_type
  cl_token_id :: json_value

record user_claims = base_claims +
  cl_impersonation_session_id :: json_value

record repo_claims = base_claims +
  cl_customer_pk :: json_value
  cl_repo_pk :: json_value
  cl_restricted :: json_value
  cl_impersonated_user_api_id :: json_value

datatype claims = User user_claims | Repo repo_claims

definition is_access_token :: "'a base_claims_scheme \<Rightarrow> bool" where
  "is_access_token c = (cl_token_type c = ACCESS_TOKEN)"

definition has_audience :: "'a base_claims_scheme \<Rightarrow> audience \<Rightarrow> py_error + bool" where
  "has_audience c aud = has_all_audiences (cl_audience c) [aud]"

definition base_json_dict :: "'a base_claims_scheme \<Rightarrow> json_dict" where
  "base_json_dict c = [(''user_api_id'', cl_user_api_id c), (''username'', cl_username c), (''audience'', JList (to_claim (cl_audience c))),
     (''token_type'', JStr (token_type_value (cl_token_type c))), (''token_id'', cl_token_id c)]"

definition user_json_dict :: "user_claims \<Rightarrow> json_dict" where
  "user_json_dict c = AList.update ''impersonation_session_id'' (cl_impersonation_session_id c) (base_json_dict c)"

definition repo_json_dict :: "repo_claims \<Rightarrow> json_dict" where
  "repo_json_dict c = fold (\<lambda>(k, v). AList.update k v)
     [(''customer_pk'', cl_customer_pk c), (''repo_pk'', cl_repo_pk c), (''restricted'', cl_restricted c),
      (''impersonated_user_api_id'', cl_impersonated_user_api_id c)] (base_json_dict c)"

fun as_json_dict :: "claims \<Rightarrow> json_dict" where
  "as_json_dict (User c) = user_json_dict c"
| "as_json_dict (Repo c) = repo_json_dict c"

definition user_from_json_dict :: "json_dict \<Rightarrow> py_error + user_claims" where
  "user_from_json_dict d =
     rbind (rbind (item d ''audience'') json_audience) (\<lambda>aud.
     rbind (item d ''user_api_id'') (\<lambda>user.
     rbind (item d ''username'') (\<lambda>name.
     rmap (\<lambda>ty. \<lparr>cl_user_api_id = user, cl_username = name, cl_audience = aud, cl_token_type = ty,
       cl_token_id = item_or_none d ''token_id'', cl_impersonation_session_id = item_or_none d ''impersonation_session_id''\<rparr>)
       (rbind (item d ''token_type'') access_token_type))))"

definition repo_from_json_dict :: "json_dict \<Rightarrow> py_error + repo_claims" where
  "repo_from_json_dict d =
     rbind (rbind (item d ''audience'') json_audience) (\<lambda>aud.
     rbind (item d ''user_api_id'') (\<lambda>user.
     rbind (item d ''username'') (\<lambda>name.
     rbind (rbind (item d ''token_type'') access_token_type) (\<lambda>ty.
     rbind (item d ''token_id'') (\<lambda>tid.
     rbind (item d ''customer_pk'') (\<lambda>cust.
     rbind (item d ''repo_pk'') (\<lambda>repo.
     rbind (item d ''restricted'') (\<lambda>restr.
     rmap (\<lambda>imp. \<lparr>cl_user_api_id = user, cl_username = name, cl_audience = aud, cl_token_type = ty, cl_token_id = tid,
       cl_customer_pk = cust, cl_repo_pk = repo, cl_restricted = restr, cl_impersonated_user_api_id = imp\<rparr>)
       (item d ''impersonated_user_api_id'')))))))))"

definition load_claims :: "json_dict \<Rightarrow> py_error + claims" where
  "load_claims d = (if map_of d ''repo_pk'' \<noteq> None then rmap Repo (repo_from_json_dict d) else rmap User (user_from_json_dict d))"

definition create_user_claims :: "json_dict \<Rightarrow> audience \<Rightarrow> py_error + user_claims" where
  "create_user_claims d aud =
     rbind (rbind (item d ''type'') access_token_type) (\<lambda>ty.
     if aud \<noteq> {FRONTEND_API} then Inl ToolchainAssertion
     else rbind (item d ''toolchain_user'') (\<lambda>user.
       rbind (item d ''username'') (\<lambda>name.
       rmap (\<lambda>tid. \<lparr>cl_user_api_id = user, cl_username = name, cl_audience = aud, cl_token_type = ty, cl_token_id = tid,
           cl_impersonation_session_id = item_or_none d ''toolchain_impersonation_session''\<rparr>)
         (if ty = REFRESH_TOKEN then item d ''jid'' else Inr JNull))))"

definition create_repo_claims :: "json_dict \<Rightarrow> audience \<Rightarrow> string option \<Rightarrow> py_error + repo_claims" where
  "create_repo_claims d aud impersonated =
     rbind (item d ''toolchain_claims_ver'') (\<lambda>ver.
     rbind (if ver = JNum 1 then Inr REFRESH_TOKEN else rbind (item d ''type'') access_token_type) (\<lambda>ty.
     rbind (if impersonated \<noteq> None \<and> impersonated \<noteq> Some [] then can_impersonate aud else Inr True) (\<lambda>ok.
     if \<not> ok then Inl ToolchainAssertion
     else rbind (item d ''toolchain_user'') (\<lambda>user.
       rbind (item d ''toolchain_repo'') (\<lambda>repo.
       rbind (item d ''toolchain_customer'') (\<lambda>cust.
       rbind (item d ''username'') (\<lambda>name.
       rmap (\<lambda>tid. \<lparr>cl_user_api_id = user, cl_username = name, cl_audience = aud, cl_token_type = ty, cl_token_id = tid,
           cl_customer_pk = cust, cl_repo_pk = repo, cl_restricted = JBool (item_or_none d ''sub'' = JStr ''restricted''),
           cl_impersonated_user_api_id = (case impersonated of None \<Rightarrow> JNull | Some s \<Rightarrow> JStr s)\<rparr>)
         (if ty = REFRESH_TOKEN then item d ''jid'' else Inr JNull))))))))"

section \<open>Round trip\<close>

lemma set_all_flags: "set all_flags = UNIV"
proof -
  have "f \<in> set all_flags" for f by (cases f) (simp_all add: all_flags_def)
  then show ?thesis by blast
qed

lemma set_current_values: "set (current_values a) = a"
proof (cases "card a = 1")
  case True
  then show ?thesis by (auto simp: current_values_def card_1_singleton_iff)
qed (simp add: current_values_def set_all_flags)

lemma map_of_api_name: "map_of api_names_map (api_name f) = Some f"
proof -
  have "\<forall>f \<in> set all_flags. map_of api_names_map (api_name f) = Some f" by code_simp
  then show ?thesis using set_all_flags by blast
qed

lemma from_names_fold:
  "\<forall>n \<in> set ns. \<exists>f. n = api_name f \<Longrightarrow>
   rfold (\<lambda>n aud. case map_of api_names_map n of None \<Rightarrow> Inl KeyError | Some f \<Rightarrow> Inr (insert f aud)) ns a = Inr (a \<union> {f. api_name f \<in> set ns})"
proof (induction ns arbitrary: a)
  case (Cons n ns)
  then obtain f where "n = api_name f" by auto
  moreover have "api_name g = api_name f \<longleftrightarrow> g = f" for g using map_of_api_name by (metis option.inject)
  ultimately show ?case using Cons by (auto simp: map_of_api_name)
qed simp

lemma from_to_claim:
  assumes "a \<noteq> {}"
  shows "from_api_names (to_claim a) = Inr a"
proof -
  have inj: "api_name g = api_name f \<longleftrightarrow> g = f" for f g using map_of_api_name by (metis option.inject)
  have s: "set (to_claim a) = api_name ` a" by (simp add: to_claim_def set_current_values)
  then have "to_claim a \<noteq> []" using assms by fastforce
  moreover have "{f. api_name f \<in> api_name ` a} = a" using inj by auto
  moreover have "\<forall>n \<in> set (to_claim a). \<exists>f. n = api_name f" using s by blast
  ultimately show ?thesis using from_names_fold [of "to_claim a" "{}"] s by (simp add: from_api_names_def)
qed

lemma token_type_roundtrip: "access_token_type (JStr (token_type_value t)) = Inr t"
  by (cases t) (simp_all add: access_token_type_def)

fun claims_audience :: "claims \<Rightarrow> audience" where
  "claims_audience (User c) = cl_audience c"
| "claims_audience (Repo c) = cl_audience c"

text \<open>
  C33. Claims survive their JSON form: loading what a claims object writes gives it back, of the
  same kind and with the same audience, unless the audience is empty.
\<close>

theorem claims_roundtrip:
  assumes "claims_audience c \<noteq> {}"
  shows "load_claims (as_json_dict c) = Inr c"
proof (cases c)
  case (User u)
  then have a: "from_api_names (to_claim (cl_audience u)) = Inr (cl_audience u)" using assms from_to_claim by simp
  have "user_from_json_dict (user_json_dict u) = Inr u"
    using a token_type_roundtrip [of "cl_token_type u"]
    by (simp add: user_from_json_dict_def user_json_dict_def base_json_dict_def item_def item_or_none_def)
  then show ?thesis using User by (simp add: load_claims_def user_json_dict_def base_json_dict_def)
next
  case (Repo r)
  then have a: "from_api_names (to_claim (cl_audience r)) = Inr (cl_audience r)" using assms from_to_claim by simp
  have "repo_from_json_dict (repo_json_dict r) = Inr r"
    using a token_type_roundtrip [of "cl_token_type r"]
    by (simp add: repo_from_json_dict_def repo_json_dict_def base_json_dict_def item_def)
  then show ?thesis using Repo by (simp add: load_claims_def repo_json_dict_def base_json_dict_def)
qed

definition ci_claims :: repo_claims where
  "ci_claims = \<lparr>cl_user_api_id = JStr ''u1'', cl_username = JStr ''ci'', cl_audience = {CACHE_RW, IMPERSONATE}, cl_token_type = ACCESS_TOKEN,
     cl_token_id = JNull, cl_customer_pk = JStr ''c1'', cl_repo_pk = JStr ''r1'', cl_restricted = JBool False,
     cl_impersonated_user_api_id = JStr ''u2''\<rparr>"

theorem claims_roundtrip_witness: "load_claims (as_json_dict (Repo ci_claims)) = Inr (Repo ci_claims)"
  by (rule claims_roundtrip) (simp add: ci_claims_def)

section \<open>Impersonation\<close>

text \<open>
  C34. Impersonation is granted only to tokens that may impersonate: repository claims that
  name an impersonated user have the impersonation audience. When the audience is the merge of
  what a token allows and what a request asks for, both contain it.
\<close>

theorem impersonation_guarded:
  assumes "merge allowed requested = Some aud" "create_repo_claims d aud impersonated = Inr c"
    and "impersonated = Some user" "user \<noteq> []"
  shows "IMPERSONATE \<in> allowed \<and> IMPERSONATE \<in> requested \<and> cl_audience c = allowed \<inter> requested
    \<and> cl_impersonated_user_api_id c = JStr user"
proof -
  have m: "aud = allowed \<inter> requested" using assms(1) by (auto simp: merge_def Let_def set_all_flags split: if_splits)
  have g: "can_impersonate aud = Inr True" using assms(2-4) by (auto simp: create_repo_claims_def split: if_splits)
  have c: "cl_audience c = aud" "cl_impersonated_user_api_id c = JStr user" using assms(2,3) by (auto simp: create_repo_claims_def split: if_splits)
  have "IMPERSONATE \<in> aud" using g by (simp add: can_impersonate_def has_all_audiences_def check_audiences_def)
  then show ?thesis using m c by blast
qed

definition ci_token :: json_dict where
  "ci_token = [(''toolchain_claims_ver'', JNum 2), (''type'', JStr ''access''), (''toolchain_user'', JStr ''u1''),
     (''toolchain_repo'', JStr ''r1''), (''toolchain_customer'', JStr ''c1''), (''username'', JStr ''ci'')]"

theorem impersonation_guarded_witness:
  "create_repo_claims ci_token {CACHE_RW, IMPERSONATE} (Some ''u2'') = Inr ci_claims \<and> cl_impersonated_user_api_id ci_claims = JStr ''u2''"
proof -
  have m: "merge {CACHE_RW, IMPERSONATE} {CACHE_RW, IMPERSONATE, FRONTEND_API} = Some {CACHE_RW, IMPERSONATE}" by code_simp
  have c: "create_repo_claims ci_token {CACHE_RW, IMPERSONATE} (Some ''u2'') = Inr ci_claims"
    by (simp add: create_repo_claims_def ci_token_def ci_claims_def item_def item_or_none_def access_token_type_def can_impersonate_def
        has_all_audiences_def check_audiences_def)
  show ?thesis using impersonation_guarded [OF m c] c by simp
qed

end
