(* ===== verification/Artifact_Sorter.thy ===== *)
theory Artifact_Sorter
  imports Prelude
begin

text \<open>
  The sorter of Maven artifacts, \<open>toposort_maven_artifacts.py\<close>: a depth-first search that
  abandons a path when it meets a cycle. The sets the code iterates over are lists without
  duplicates in the order of the iteration, which Python leaves open. The readers of the two CSV
  files are not modelled: they open the files in binary mode, on which \<open>csv.reader\<close> raises, so a
  sorter starts here with its coordinates, targets and white nodes given. A visit returns, raises \<open>ContainsCycle\<close> with the state it leaves, or
  runs out of the fuel that bounds the recursion, which the theorem excludes.
\<close>

section \<open>Model\<close>

record sorter =
  so_coords :: "(string, string) dict"
  so_targets :: "(string, string list) dict"
  so_white :: "string list"
  so_grey :: "string set"
  so_black :: "string set"
  so_sorted :: "string list"
  so_num_cycles :: nat

definition new_sorter :: sorter where
  "new_sorter = \<lparr>so_coords = [], so_targets = [], so_white = [], so_grey = {}, so_black = {}, so_sorted = [], so_num_cycles = 0\<rparr>"

definition targets :: "sorter \<Rightarrow> string \<Rightarrow> string list" where
  "targets st n = (case map_of (so_targets st) n of None \<Rightarrow> [] | Some ts \<Rightarrow> ts)"

datatype visit_result = Visited sorter | ContainsCycle "string list" sorter | NoFuel

definition cycle_append :: "string \<Rightarrow> string list \<Rightarrow> string list" where
  "cycle_append n cycle = (if length cycle < 2 \<or> hd cycle \<noteq> last cycle then cycle @ [n] else cycle)"

definition cycle_str :: "string list \<Rightarrow> string" where
  "cycle_str cycle = str_join ''->'' (rev cycle)"

text \<open>\<open>_visit\<close> adds the node to the cycle of an exception that passes through it.\<close>

fun visit_with :: "string \<Rightarrow> visit_result \<Rightarrow> visit_result" where
  "visit_with n (ContainsCycle c st) = ContainsCycle (cycle_append n c) st"
| "visit_with n r = r"

fun for_targets :: "(string \<Rightarrow> sorter \<Rightarrow> visit_result) \<Rightarrow> string list \<Rightarrow> sorter \<Rightarrow> visit_result" where
  "for_targets f [] st = Visited st"
| "for_targets f (m # ms) st = (case f m st of Visited st' \<Rightarrow> for_targets f ms st' | r \<Rightarrow> r)"

definition finish_visit :: "string \<Rightarrow> sorter \<Rightarrow> sorter" where
  "finish_visit n st = st\<lparr>so_grey := so_grey st - {n}, so_black := insert n (so_black st), so_sorted := so_sorted st @ [n]\<rparr>"

fun visit_node :: "nat \<Rightarrow> string \<Rightarrow> sorter \<Rightarrow> visit_result" where
  "visit_node 0 n st = NoFuel"
| "visit_node (Suc k) n st =
     visit_with n
       (if n \<in> so_black st then Visited st
        else (let st1 = st\<lparr>so_white := removeAll n (so_white st)\<rparr>
              in if n \<in> so_grey st1 then ContainsCycle [] st1
                 else (case for_targets (visit_node k) (targets st1 n) (st1\<lparr>so_grey := insert n (so_grey st1)\<rparr>) of
                         Visited st2 \<Rightarrow> Visited (finish_visit n st2)
                       | r \<Rightarrow> r)))"

text \<open>Every node the search can meet, which bounds its depth.\<close>

definition all_nodes :: "sorter \<Rightarrow> string set" where
  "all_nodes st = set (so_white st) \<union> (\<Union>(i, ts) \<in> set (so_targets st). insert i (set ts))"

definition visit_fuel :: "sorter \<Rightarrow> nat" where
  "visit_fuel st = Suc (Suc (card (all_nodes st)))"

fun sort_loop :: "nat \<Rightarrow> nat \<Rightarrow> sorter \<Rightarrow> sorter option" where
  "sort_loop fuel n st =
     (case so_white st of
        [] \<Rightarrow> Some st
      | w # _ \<Rightarrow>
          (case n of
             0 \<Rightarrow> None
           | Suc m \<Rightarrow>
               (case visit_node fuel w st of
                  Visited st' \<Rightarrow> sort_loop fuel m st'
                | ContainsCycle c st' \<Rightarrow> sort_loop fuel m (st'\<lparr>so_num_cycles := so_num_cycles st' + 1\<rparr>)
                | NoFuel \<Rightarrow> None)))"

definition sort_artifacts :: "sorter \<Rightarrow> sorter option" where
  "sort_artifacts st = sort_loop (visit_fuel st) (length (so_white st)) st"

definition head_coords :: "sorter \<Rightarrow> py_error + string list" where
  "head_coords st = rmap_list (\<lambda>i. case map_of (so_coords st) i of None \<Rightarrow> Inl KeyError | Some c \<Rightarrow> Inr c) (take 100 (so_sorted st))"

section \<open>The search\<close>

text \<open>A list in which the targets of each node come before it.\<close>

definition deps_first :: "(string \<Rightarrow> string list) \<Rightarrow> string list \<Rightarrow> bool" where
  "deps_first ts xs \<longleftrightarrow> (\<forall>i < length xs. set (ts (xs ! i)) \<subseteq> set (take i xs))"

lemma deps_first_snoc: "deps_first ts (xs @ [n]) \<longleftrightarrow> deps_first ts xs \<and> set (ts n) \<subseteq> set xs"
  by (auto simp: deps_first_def nth_append less_Suc_eq)

definition sorter_ok :: "sorter \<Rightarrow> bool" where
  "sorter_ok st \<longleftrightarrow> set (so_white st) \<inter> so_black st = {} \<and> so_black st = set (so_sorted st) \<and> distinct (so_sorted st)
     \<and> deps_first (targets st) (so_sorted st) \<and> so_grey st \<inter> so_black st = {}"

text \<open>
  What a visit does, from \<open>st\<close> to \<open>st'\<close>: no node turns white again, and one that stops being
  white is black or grey.
\<close>

definition search_step :: "sorter \<Rightarrow> sorter \<Rightarrow> bool" where
  "search_step st st' \<longleftrightarrow> sorter_ok st' \<and> so_targets st' = so_targets st \<and> so_num_cycles st' = so_num_cycles st
     \<and> set (so_white st') \<subseteq> set (so_white st) \<and> length (so_white st') \<le> length (so_white st)
     \<and> so_black st \<subseteq> so_black st' \<and> so_grey st \<subseteq> so_grey st'
     \<and> set (so_white st) \<subseteq> set (so_white st') \<union> so_black st' \<union> so_grey st'"

definition visit_ok :: "string \<Rightarrow> sorter \<Rightarrow> visit_result \<Rightarrow> bool" where
  "visit_ok n st r \<longleftrightarrow>
     (case r of
        NoFuel \<Rightarrow> False
      | Visited st' \<Rightarrow> search_step st st' \<and> so_grey st' = so_grey st \<and> n \<in> so_black st'
      | ContainsCycle c st' \<Rightarrow> search_step st st' \<and> n \<notin> set (so_white st'))"

lemma search_step_refl: "sorter_ok st \<Longrightarrow> search_step st st"
  by (auto simp: search_step_def)

lemma search_step_trans: "search_step st st' \<Longrightarrow> search_step st' st'' \<Longrightarrow> search_step st st''"
  unfolding search_step_def by (elim conjE) (intro conjI; (simp; fail | blast | rule order_trans, assumption+))

lemma visit_with_ok [simp]: "visit_ok n st (visit_with m r) \<longleftrightarrow> visit_ok n st r"
  by (cases r) (simp_all add: visit_ok_def)

lemma for_targets_ok:
  assumes "\<And>m st. m \<in> set ms \<Longrightarrow> sorter_ok st \<Longrightarrow> so_targets st = so_targets st0 \<Longrightarrow> so_grey st = so_grey st0 \<Longrightarrow> visit_ok m st (f m st)"
    and "sorter_ok st" "so_targets st = so_targets st0" "so_grey st = so_grey st0"
  shows "(\<exists>st'. for_targets f ms st = Visited st' \<and> search_step st st' \<and> so_grey st' = so_grey st \<and> set ms \<subseteq> so_black st')
    \<or> (\<exists>c st'. for_targets f ms st = ContainsCycle c st' \<and> search_step st st')"
  using assms
proof (induction ms arbitrary: st)
  case Nil
  then show ?case using search_step_refl by simp
next
  case (Cons m ms)
  have v: "visit_ok m st (f m st)" using Cons.prems by simp
  show ?case
  proof (cases "f m st")
    case (Visited st1)
    then have s1: "search_step st st1" "so_grey st1 = so_grey st" "m \<in> so_black st1" using v by (simp_all add: visit_ok_def)
    then have "sorter_ok st1" "so_targets st1 = so_targets st0" "so_grey st1 = so_grey st0"
      using Cons.prems(3,4) by (simp_all add: search_step_def)
    from Cons.IH [OF _ this] Cons.prems(1)
    consider st' where "for_targets f ms st1 = Visited st'" "search_step st1 st'" "so_grey st' = so_grey st1" "set ms \<subseteq> so_black st'"
      | c st' where "for_targets f ms st1 = ContainsCycle c st'" "search_step st1 st'" by fastforce
    then show ?thesis
    proof cases
      case 1
      then have "m \<in> so_black st'" using s1(3) by (auto simp: search_step_def)
      then show ?thesis using 1 Visited s1 search_step_trans by auto
    next
      case 2
      then show ?thesis using Visited s1(1) search_step_trans by auto
    qed
  qed (use v in \<open>simp_all add: visit_ok_def\<close>)
qed

lemma enter_ok:
  assumes "sorter_ok st" "n \<notin> so_black st"
  shows "sorter_ok (st\<lparr>so_white := removeAll n (so_white st), so_grey := insert n (so_grey st)\<rparr>)"
proof -
  have "targets (st\<lparr>so_white := removeAll n (so_white st), so_grey := insert n (so_grey st)\<rparr>) = targets st"
    by (simp add: fun_eq_iff targets_def)
  then show ?thesis using assms by (auto simp: sorter_ok_def)
qed

lemma finish_ok:
  assumes "sorter_ok st" "n \<notin> so_black st" "n \<notin> set (so_white st)" "set (targets st n) \<subseteq> so_black st"
  shows "sorter_ok (finish_visit n st)"
proof -
  have "targets (finish_visit n st) = targets st" by (simp add: fun_eq_iff targets_def finish_visit_def)
  then show ?thesis using assms by (auto simp: sorter_ok_def finish_visit_def deps_first_snoc)
qed

lemma search_enter:
  assumes "search_step (st\<lparr>so_white := removeAll n (so_white st), so_grey := insert n (so_grey st)\<rparr>) st'"
  shows "search_step st st'" "n \<notin> set (so_white st')"
proof -
  have "length (removeAll n (so_white st)) \<le> length (so_white st)" by (simp add: length_removeAll_less_eq)
  then show "search_step st st'" using assms unfolding search_step_def by (auto intro: order_trans)
  show "n \<notin> set (so_white st')" using assms by (auto simp: search_step_def)
qed

lemma visit_node_ok:
  assumes "finite U" "\<And>i. set (targets st0 i) \<subseteq> U"
  shows "sorter_ok st \<Longrightarrow> so_targets st = so_targets st0 \<Longrightarrow> n \<in> U \<Longrightarrow> card (U - so_grey st) < k \<Longrightarrow> visit_ok n st (visit_node k n st)"
proof (induction k arbitrary: n st)
  case (Suc k)
  let ?st1 = "st\<lparr>so_white := removeAll n (so_white st)\<rparr>"
  let ?st2 = "st\<lparr>so_white := removeAll n (so_white st), so_grey := insert n (so_grey st)\<rparr>"
  consider (black) "n \<in> so_black st" | (grey) "n \<notin> so_black st" "n \<in> so_grey st" | (new) "n \<notin> so_black st" "n \<notin> so_grey st" by blast
  then show ?case
  proof cases
    case black
    then show ?thesis using Suc.prems(1) search_step_refl by (simp add: visit_ok_def)
  next
    case grey
    have "?st2 = ?st1" using grey by (simp add: insert_absorb)
    then have "search_step ?st2 ?st1" using search_step_refl [OF enter_ok [OF Suc.prems(1) grey(1)]] by simp
    from search_enter [OF this] show ?thesis using grey by (simp add: visit_ok_def)
  next
    case new
    have ok2: "sorter_ok ?st2" by (rule enter_ok [OF Suc.prems(1) new(1)])
    have "U - so_grey ?st2 = (U - so_grey st) - {n}" by auto
    then have "card (U - so_grey ?st2) < card (U - so_grey st)" using assms(1) Suc.prems(3) new(2) by (metis DiffI card_Diff1_less finite_Diff)
    then have less: "card (U - so_grey ?st2) < k" using Suc.prems(4) by simp
    have step: "visit_ok m s (visit_node k m s)"
      if "m \<in> set (targets st n)" "sorter_ok s" "so_targets s = so_targets ?st2" "so_grey s = so_grey ?st2" for m s
    proof (rule Suc.IH [OF that(2)])
      show "so_targets s = so_targets st0" using that(3) Suc.prems(2) by simp
      have "targets st n = targets st0 n" using Suc.prems(2) by (simp add: targets_def)
      then show "m \<in> U" using that(1) assms(2) by auto
      show "card (U - so_grey s) < k" using that(4) less by simp
    qed
    have t1: "targets ?st1 n = targets st n" by (simp add: targets_def)
    from for_targets_ok [of "targets st n" ?st2 "visit_node k" ?st2, OF step ok2]
    consider st' where "for_targets (visit_node k) (targets st n) ?st2 = Visited st'" "search_step ?st2 st'" "so_grey st' = so_grey ?st2"
        "set (targets st n) \<subseteq> so_black st'"
      | c st' where "for_targets (visit_node k) (targets st n) ?st2 = ContainsCycle c st'" "search_step ?st2 st'" by blast
    then show ?thesis
    proof cases
      case 1
      note e = search_enter [OF 1(2)]
      have nb: "n \<notin> so_black st'" and ok': "sorter_ok st'" using 1(2,3) by (auto simp: search_step_def sorter_ok_def)
      have "targets st' n = targets st n" using e(1) by (simp add: search_step_def targets_def)
      then have "sorter_ok (finish_visit n st')" using finish_ok [OF ok' nb e(2)] 1(4) by simp
      then have "search_step st (finish_visit n st')" using e(1) 1(3) new(2) by (auto simp: search_step_def finish_visit_def)
      then show ?thesis using 1(1,3) new t1 by (simp add: visit_ok_def finish_visit_def)
    next
      case 2
      then show ?thesis using new t1 search_enter [OF 2(2)] by (simp add: visit_ok_def)
    qed
  qed
qed simp

section \<open>The loop\<close>

lemma sort_loop_ok:
  assumes "finite U" "\<And>i. set (targets st0 i) \<subseteq> U" "card U < fuel"
  shows "sorter_ok st \<Longrightarrow> so_targets st = so_targets st0 \<Longrightarrow> set (so_white st) \<subseteq> U \<Longrightarrow> card (set (so_white st)) \<le> n \<Longrightarrow>
    (so_num_cycles st = 0 \<Longrightarrow> so_grey st = {}) \<Longrightarrow>
    \<exists>st'. sort_loop fuel n st = Some st' \<and> sorter_ok st' \<and> so_targets st' = so_targets st \<and> so_white st' = []
      \<and> so_num_cycles st \<le> so_num_cycles st'
      \<and> (so_num_cycles st' = 0 \<longrightarrow> set (so_white st) \<union> so_black st \<subseteq> so_black st')"
proof (induction n arbitrary: st)
  case 0
  then show ?case by simp
next
  case (Suc n)
  show ?case
  proof (cases "so_white st")
    case Nil
    then show ?thesis using Suc.prems by simp
  next
    case (Cons w ws)
    have "card (U - so_grey st) \<le> card U" by (rule card_mono) (use assms(1) in auto)
    then have "card (U - so_grey st) < fuel" using assms(3) by simp
    with visit_node_ok [OF assms(1,2) Suc.prems(1,2)] have v: "visit_ok w st (visit_node fuel w st)" using Suc.prems(3) Cons by simp
    have fewer: "card (set (so_white s)) \<le> n" "set (so_white s) \<subseteq> U" if "search_step st s" "w \<notin> set (so_white s)" for s
    proof -
      have "set (so_white s) \<subset> set (so_white st)" using that Cons by (auto simp: search_step_def)
      then have "card (set (so_white s)) < card (set (so_white st))" by (simp add: psubset_card_mono)
      then show "card (set (so_white s)) \<le> n" using Suc.prems(4) by simp
      show "set (so_white s) \<subseteq> U" using that(1) Suc.prems(3) by (auto simp: search_step_def)
    qed
    show ?thesis
    proof (cases "visit_node fuel w st")
      case (Visited s)
      then have s: "search_step st s" "so_grey s = so_grey st" "w \<in> so_black s" using v by (simp_all add: visit_ok_def)
      then have "w \<notin> set (so_white s)" by (auto simp: search_step_def sorter_ok_def)
      from Suc.IH [OF _ _ fewer(2) fewer(1), OF _ _ s(1) this s(1) this] s Suc.prems(2,5)
      obtain st' where st': "sort_loop fuel n s = Some st'" "sorter_ok st'" "so_targets st' = so_targets s" "so_white st' = []"
          "so_num_cycles s \<le> so_num_cycles st'" "so_num_cycles st' = 0 \<longrightarrow> set (so_white s) \<union> so_black s \<subseteq> so_black st'"
        by (auto simp: search_step_def)
      have "set (so_white st) \<union> so_black st \<subseteq> so_black st'" if z: "so_num_cycles st' = 0"
      proof -
        have "so_grey s = {}" using z st'(5) s(1,2) Suc.prems(5) by (simp add: search_step_def)
        then show ?thesis using z st'(6) s(1) by (auto simp: search_step_def)
      qed
      then show ?thesis using st' Visited Cons s(1) by (simp add: search_step_def)
    next
      case (ContainsCycle c s)
      let ?s = "s\<lparr>so_num_cycles := so_num_cycles s + 1\<rparr>"
      have s: "search_step st s" "w \<notin> set (so_white s)" using v ContainsCycle by (simp_all add: visit_ok_def)
      have "targets ?s = targets s" by (simp add: fun_eq_iff targets_def)
      then have "sorter_ok ?s" using s(1) by (auto simp: search_step_def sorter_ok_def)
      from Suc.IH [OF this] fewer [OF s] s(1) Suc.prems(2)
      obtain st' where "sort_loop fuel n ?s = Some st'" "sorter_ok st'" "so_targets st' = so_targets s" "so_white st' = []"
          "so_num_cycles s + 1 \<le> so_num_cycles st'"
        by (auto simp: search_step_def)
      then show ?thesis using ContainsCycle Cons s(1) by (simp add: search_step_def)
    qed (use v in \<open>simp add: visit_ok_def\<close>)
  qed
qed

declare sort_loop.simps [simp del]

lemma targets_nodes: "set (targets st i) \<subseteq> all_nodes st"
proof (cases "map_of (so_targets st) i")
  case (Some ts)
  then have "(i, ts) \<in> set (so_targets st)" by (rule map_of_SomeD)
  then show ?thesis using Some by (force simp: targets_def all_nodes_def)
qed (simp add: targets_def)

text \<open>
  C29. Sorting the artifacts always ends, with no node left to visit; the result has no
  duplicates, and every artifact in it comes after all of the artifacts it depends on. When no
  cycle is counted, every artifact that was loaded is in the result.
\<close>

theorem sort_artifacts_correct:
  assumes "st = new_sorter\<lparr>so_coords := coords, so_targets := deps, so_white := ids\<rparr>"
  shows "\<exists>st'. sort_artifacts st = Some st' \<and> so_white st' = [] \<and> distinct (so_sorted st')
    \<and> (\<forall>i < length (so_sorted st'). set (targets st (so_sorted st' ! i)) \<subseteq> set (take i (so_sorted st')))
    \<and> (so_num_cycles st' = 0 \<longrightarrow> set ids \<subseteq> set (so_sorted st'))"
proof -
  have ok: "sorter_ok st" "so_grey st = {}" "so_white st = ids" using assms by (simp_all add: sorter_ok_def new_sorter_def deps_first_def)
  have "finite (all_nodes st)" by (auto simp: all_nodes_def)
  from sort_loop_ok [OF this targets_nodes, of "visit_fuel st" st "length (so_white st)"] ok
  obtain st' where st': "sort_artifacts st = Some st'" "sorter_ok st'" "so_targets st' = so_targets st" "so_white st' = []"
      "so_num_cycles st' = 0 \<longrightarrow> set ids \<union> so_black st \<subseteq> so_black st'"
    by (auto simp: sort_artifacts_def visit_fuel_def all_nodes_def card_length)
  have "targets st' = targets st" using st'(3) by (simp add: fun_eq_iff targets_def)
  then show ?thesis using st' by (auto simp: sorter_ok_def deps_first_def)
qed

definition diamond_sorter :: sorter where
  "diamond_sorter = new_sorter\<lparr>so_targets := [(''a'', [''b'', ''c'']), (''b'', [''d'']), (''c'', [''d''])], so_white := [''a'', ''b'', ''c'', ''d'']\<rparr>"

theorem sort_artifacts_correct_witness:
  "\<exists>st'. sort_artifacts diamond_sorter = Some st' \<and> so_white st' = [] \<and> distinct (so_sorted st')
    \<and> (so_num_cycles st' = 0 \<longrightarrow> {''a'', ''b'', ''c'', ''d''} \<subseteq> set (so_sorted st'))"
proof -
  have "diamond_sorter = new_sorter\<lparr>so_coords := [],
      so_targets := [(''a'', [''b'', ''c'']), (''b'', [''d'']), (''c'', [''d''])], so_white := [''a'', ''b'', ''c'', ''d'']\<rparr>"
    by (simp add: diamond_sorter_def new_sorter_def)
  from sort_artifacts_correct [OF this] show ?thesis by auto
qed

text \<open>
  The grey nodes of an abandoned path are never cleared, so an artifact that is on no cycle and
  depends on one of them is counted as a cycle of its own and left out of the result.
\<close>

theorem cycle_drops_dependents:
  "map_option (\<lambda>st. (so_sorted st, so_num_cycles st))
     (sort_artifacts (new_sorter\<lparr>so_targets := [(''a'', [''a'']), (''b'', [''a''])], so_white := [''a'', ''b'']\<rparr>)) = Some ([], 2)"
proof -
  have "all_nodes (new_sorter\<lparr>so_targets := [(''a'', [''a'']), (''b'', [''a''])], so_white := [''a'', ''b'']\<rparr>) = {''a'', ''b''}"
    by (auto simp: all_nodes_def new_sorter_def)
  then have "visit_fuel (new_sorter\<lparr>so_targets := [(''a'', [''a'']), (''b'', [''a''])], so_white := [''a'', ''b'']\<rparr>) = 4"
    by (simp add: visit_fuel_def)
  then show ?thesis
    by (simp add: sort_artifacts_def sort_loop.simps new_sorter_def eval_nat_numeral Let_def targets_def)
qed

end
