(* ===== verification/Packages.thy ===== *)
theory Packages
  imports Prelude
begin

text \<open>
  Package versions (\<open>satresolver/package.py\<close>) and the errors a dependency graph raises
  (\<open>satresolver/graph.py\<close>). The version component is a type parameter: the code stores a
  string or a \<open>MavenSemver\<close> there and uses only its equality and its order. \<open>ROOT\<close> is the
  fictional root package, equal to every \<open>Root\<close>. The linear order puts it below every package
  version; it is the order of the code on package versions other than the root, and the order
  in which the model lists a set. The code's own \<open><\<close> is \<open>pv_lt\<close>, which can raise at the root.
\<close>

datatype 'v package_version =
    ROOT
  | PackageVersion (pv_name: string) (pv_version: 'v)

text \<open>Package versions numbered by a natural number, for concrete inputs.\<close>

abbreviation pv :: "string \<Rightarrow> nat \<Rightarrow> nat package_version" where
  "pv n v \<equiv> PackageVersion n v"

definition root_name :: string where
  "root_name = ''__ROOT__''"

fun pv_subject :: "'v package_version \<Rightarrow> string" where
  "pv_subject ROOT = root_name"
| "pv_subject (PackageVersion n v) = n"

fun pv_str :: "('v \<Rightarrow> string) \<Rightarrow> 'v package_version \<Rightarrow> string" where
  "pv_str ver_str ROOT = root_name"
| "pv_str ver_str (PackageVersion n v) = n @ '':'' @ ver_str v"

instantiation package_version :: (linorder) linorder
begin

fun less_eq_package_version :: "'a package_version \<Rightarrow> 'a package_version \<Rightarrow> bool" where
  "less_eq_package_version ROOT q = True"
| "less_eq_package_version (PackageVersion n v) ROOT = False"
| "less_eq_package_version (PackageVersion n v) (PackageVersion m w) = ((n, v) \<le> (m, w))"

definition less_package_version :: "'a package_version \<Rightarrow> 'a package_version \<Rightarrow> bool" where
  "less_package_version p q = (p \<le> q \<and> \<not> q \<le> p)"

instance
proof
  fix x y z :: "'a package_version"
  show "x < y \<longleftrightarrow> x \<le> y \<and> \<not> y \<le> x" by (rule less_package_version_def)
  show "x \<le> x" by (cases x) auto
  show "x \<le> y \<Longrightarrow> y \<le> z \<Longrightarrow> x \<le> z" by (cases x; cases y; cases z) auto
  show "x \<le> y \<Longrightarrow> y \<le> x \<Longrightarrow> x = y" by (cases x; cases y) auto
  show "x \<le> y \<or> y \<le> x" by (cases x; cases y) auto
qed

end

text \<open>
  The operator \<open><\<close> of the code. \<open>Root.__lt__\<close> is true for every package version, the root
  included. \<open>total_ordering\<close> adds nothing to \<open>Root\<close>, which inherits the other comparisons of
  the dataclass, and those accept only two objects of the same class: with the root on the
  right neither \<open>PackageVersion.__lt__\<close> nor the reflected \<open>Root.__gt__\<close> answers.
\<close>

fun pv_lt :: "'v::linorder package_version \<Rightarrow> 'v package_version \<Rightarrow> py_error + bool" where
  "pv_lt ROOT q = Inr True"
| "pv_lt (PackageVersion n v) ROOT = Inl TypeError"
| "pv_lt (PackageVersion n v) (PackageVersion m w) = Inr ((n, v) < (m, w))"

lemma pv_lt_less: "q \<noteq> ROOT \<Longrightarrow> pv_lt p q = Inr (p < q)"
  by (cases p; cases q) (auto simp: less_package_version_def)

section \<open>Errors of the dependency graph\<close>

text \<open>
  The exception classes of \<open>graph.py\<close>. \<open>VersionNotFoundError\<close> is a subclass of
  \<open>PackageNotFoundError\<close>, so a handler for the latter catches both; \<open>PackageError\<close>
  itself and \<open>InvalidRequirementsError\<close> escape such a handler.
\<close>

datatype package_error =
    PackageError string string
  | PackageNotFoundError string string
  | VersionNotFoundError string string "string list"
  | InvalidRequirementsError string string

fun is_not_found :: "package_error \<Rightarrow> bool" where
  "is_not_found (PackageNotFoundError m n) = True"
| "is_not_found (VersionNotFoundError m n vs) = True"
| "is_not_found (PackageError m n) = False"
| "is_not_found (InvalidRequirementsError r e) = False"

lemma pv_subject_root_iff: "pv_subject p = n \<longleftrightarrow> (p = ROOT \<and> n = root_name) \<or> (\<exists>v. p = PackageVersion n v)"
  by (cases p) auto

end
