(* ===== verification/Terms.thy ===== *)
theory Terms
  imports Packages
begin

text \<open>
  The terms of the resolver (\<open>satresolver/term.py\<close>): \<open>VersionConstraint\<close> and
  \<open>RootConstraint\<close>, with the operations \<open>satisfies\<close>, \<open>intersect\<close>, \<open>inverse\<close> and
  \<open>difference\<close>. The second half gives terms a meaning, the selections of package versions
  they allow, and shows what each operation computes on that meaning. Operations raise
  \<open>ValueError\<close> on two subjects and \<open>AttributeError\<close> where the code reads
  \<open>allowed_versions\<close> of a \<open>RootConstraint\<close>, which has none.
\<close>

section \<open>Terms and their operations\<close>

datatype 'v tm =
    VersionConstraint string "'v package_version set" bool "'v package_version set"
  | RootConstraint bool

fun is_positive :: "'v tm \<Rightarrow> bool" where
  "is_positive (VersionConstraint p V b A) = b"
| "is_positive (RootConstraint b) = b"

fun subject :: "'v tm \<Rightarrow> string" where
  "subject (VersionConstraint p V b A) = p"
| "subject (RootConstraint b) = root_name"

fun versions :: "'v tm \<Rightarrow> 'v package_version set" where
  "versions (VersionConstraint p V b A) = V"
| "versions (RootConstraint b) = {ROOT}"

definition require :: "string \<Rightarrow> 'v package_version set \<Rightarrow> 'v package_version set \<Rightarrow> 'v tm" where
  "require p V A = VersionConstraint p V True A"

definition exclude :: "string \<Rightarrow> 'v package_version set \<Rightarrow> 'v package_version set \<Rightarrow> 'v tm" where
  "exclude p V A = VersionConstraint p V False A"

text \<open>
  \<open>==\<close> on terms. A \<open>VersionConstraint\<close> compares all its fields with those of another
  one; a \<open>RootConstraint\<close> keeps the comparison of \<open>Term\<close>, on subject and polarity.
\<close>

fun tm_eq :: "'v tm \<Rightarrow> 'v tm \<Rightarrow> bool" where
  "tm_eq (VersionConstraint p V b A) (VersionConstraint q W c B) =
     (p = q \<and> V = W \<and> b = c \<and> A = B)"
| "tm_eq (VersionConstraint p V b A) (RootConstraint c) = False"
| "tm_eq (RootConstraint b) t = (root_name = subject t \<and> b = is_positive t)"

fun tm_less :: "'v tm \<Rightarrow> 'v tm \<Rightarrow> bool" where
  "tm_less s t = ((subject s, is_positive s) < (subject t, is_positive t))"

fun allowed_versions :: "'v tm \<Rightarrow> py_error + 'v package_version set" where
  "allowed_versions (VersionConstraint p V b A) = Inr (if b then A \<inter> V else A - V)"
| "allowed_versions (RootConstraint b) = Inl AttributeError"

fun do_satisfies :: "'v tm \<Rightarrow> 'v tm \<Rightarrow> py_error + bool" where
  "do_satisfies (VersionConstraint p V b A) t =
     (if \<not> b \<and> is_positive t then Inr False
      else rbind (allowed_versions (VersionConstraint p V b A))
             (\<lambda>x. rmap (\<lambda>y. x \<subseteq> y) (allowed_versions t)))"
| "do_satisfies (RootConstraint b) t = Inr (tm_eq (RootConstraint b) t)"

definition satisfies :: "'v tm \<Rightarrow> 'v tm \<Rightarrow> py_error + bool" where
  "satisfies s t = (if subject s \<noteq> subject t then Inl ValueError else do_satisfies s t)"

fun inverse :: "'v tm \<Rightarrow> 'v tm" where
  "inverse (VersionConstraint p V b A) = VersionConstraint p V (\<not> b) A"
| "inverse (RootConstraint b) = RootConstraint (\<not> b)"

fun do_intersect :: "'v tm \<Rightarrow> 'v tm \<Rightarrow> py_error + 'v tm option" where
  "do_intersect (VersionConstraint p V b A) t =
     (if \<not> b \<and> \<not> is_positive t then
        (let W = V \<union> versions t in
         Inr (if W = {} then None else Some (VersionConstraint p W False A)))
      else rbind (allowed_versions (VersionConstraint p V b A))
             (\<lambda>x. rmap (\<lambda>y. let W = x \<inter> y in
                   if W = {} then None else Some (VersionConstraint p W True A))
                (allowed_versions t)))"
| "do_intersect (RootConstraint b) t =
     Inr (if tm_eq (RootConstraint b) t then Some (RootConstraint b) else None)"

definition intersect :: "'v tm \<Rightarrow> 'v tm \<Rightarrow> py_error + 'v tm option" where
  "intersect s t = (if subject s \<noteq> subject t then Inl ValueError else do_intersect s t)"

fun do_difference :: "'v tm \<Rightarrow> 'v tm \<Rightarrow> py_error + 'v tm option" where
  "do_difference (VersionConstraint p V b A) t =
     rbind (allowed_versions (VersionConstraint p V b A))
       (\<lambda>x. rmap (\<lambda>y. let W = x - y in
             if W = {} then None else Some (VersionConstraint p W True A))
          (allowed_versions t))"
| "do_difference (RootConstraint b) t =
     Inr (if tm_eq (RootConstraint b) t then None else Some (RootConstraint b))"

definition difference :: "'v tm \<Rightarrow> 'v tm \<Rightarrow> py_error + 'v tm option" where
  "difference s t = (if subject s \<noteq> subject t then Inl ValueError else do_difference s t)"

text \<open>
  \<open>_version_string\<close> and \<open>__str__\<close>. \<open>ver_str\<close> is \<open>str\<close> on the version component, and
  \<open>join_comma\<close> is \<open>", ".join\<close>.
\<close>

fun join_comma :: "string list \<Rightarrow> string" where
  "join_comma [] = ''''"
| "join_comma [x] = x"
| "join_comma (x # xs) = x @ '', '' @ join_comma xs"

definition version_string ::
  "('v \<Rightarrow> string) \<Rightarrow> string \<Rightarrow> 'v::linorder package_version set \<Rightarrow> 'v package_version set \<Rightarrow> string" where
  "version_string ver_str p V A =
     (if V = {} then p
      else if V = A then p @ '':Any''
      else (let s = join_comma (map (pv_str ver_str) (sorted_list_of_set V))
            in if card V = 1 then s else ''('' @ s @ '')''))"

fun tm_str :: "('v \<Rightarrow> string) \<Rightarrow> 'v::linorder tm \<Rightarrow> string" where
  "tm_str ver_str (VersionConstraint p V b A) =
     (if b then '''' else ''not '') @ version_string ver_str p V A"
| "tm_str ver_str (RootConstraint b) = (if b then '''' else ''not '') @ root_name"

section \<open>The meaning of a term\<close>

text \<open>
  A package is absent from a solution (\<open>None\<close>) or present at one version; a term is
  the set of those outcomes it allows. A selection chooses an outcome for every package,
  out of the versions that exist (\<open>av\<close>), and always selects the root. A term is well
  formed for \<open>av\<close> when it carries the versions of its package, mentions at least one
  version, and is not a \<open>VersionConstraint\<close> on the root's name.
\<close>

fun outcomes :: "'v tm \<Rightarrow> 'v package_version option set" where
  "outcomes (VersionConstraint p V b A) =
     (if b then Some ` (A \<inter> V) else insert None (Some ` (A - V)))"
| "outcomes (RootConstraint b) = (if b then {Some ROOT} else {None})"

type_synonym 'v selection = "string \<Rightarrow> 'v package_version option"

definition selection :: "(string \<Rightarrow> 'v package_version set) \<Rightarrow> 'v selection \<Rightarrow> bool" where
  "selection av \<sigma> \<longleftrightarrow>
     \<sigma> root_name = Some ROOT \<and> (\<forall>p v. p \<noteq> root_name \<longrightarrow> \<sigma> p = Some v \<longrightarrow> v \<in> av p)"

definition holds :: "'v selection \<Rightarrow> 'v tm \<Rightarrow> bool" where
  "holds \<sigma> t \<longleftrightarrow> \<sigma> (subject t) \<in> outcomes t"

fun wf_tm :: "(string \<Rightarrow> 'v package_version set) \<Rightarrow> 'v tm \<Rightarrow> bool" where
  "wf_tm av (VersionConstraint p V b A) = (A = av p \<and> V \<noteq> {} \<and> p \<noteq> root_name)"
| "wf_tm av (RootConstraint b) = True"

lemma subject_inverse [simp]: "subject (inverse t) = subject t"
  by (cases t) auto

lemma is_positive_inverse [simp]: "is_positive (inverse t) = (\<not> is_positive t)"
  by (cases t) auto

lemma wf_tm_inverse [simp]: "wf_tm av (inverse t) = wf_tm av t"
  by (cases t) auto

lemma inverse_inverse [simp]: "inverse (inverse t) = t"
  by (cases t) auto

lemma tm_eq_iff: "wf_tm av s \<Longrightarrow> wf_tm av t \<Longrightarrow> tm_eq s t = (s = t)"
  by (cases s; cases t) auto

lemma None_outcomes [simp]: "None \<in> outcomes t \<longleftrightarrow> \<not> is_positive t"
  by (cases t) auto

text \<open>
  Well-formed terms on one subject are either both constraints on versions of that
  package or both about the root, so the operations never raise on them.
\<close>

lemma wf_same_subject_cases:
  assumes "wf_tm av s" "wf_tm av t" "subject s = subject t"
  obtains (Root) b c where "s = RootConstraint b" "t = RootConstraint c"
  | (Version) p V b W c where "s = VersionConstraint p V b (av p)" "t = VersionConstraint p W c (av p)"
      "V \<noteq> {}" "W \<noteq> {}" "p \<noteq> root_name"
proof (cases s)
  case (VersionConstraint p V b A)
  with assms obtain W c where t: "t = VersionConstraint p W c (av p)" "W \<noteq> {}"
    by (cases t) auto
  from VersionConstraint assms(1) have s: "s = VersionConstraint p V b (av p)" "V \<noteq> {}" "p \<noteq> root_name"
    by auto
  show thesis by (rule Version [OF s(1) t(1) s(2) t(2) s(3)])
next
  case (RootConstraint b)
  with assms obtain c where "t = RootConstraint c" by (cases t) auto
  with RootConstraint show thesis by (rule Root)
qed

lemma satisfies_wf:
  assumes "wf_tm av s" "wf_tm av t" "subject s = subject t"
  shows "satisfies s t = Inr (outcomes s \<subseteq> outcomes t)"
  using assms by (cases rule: wf_same_subject_cases) (auto simp: satisfies_def)

lemma intersect_wf:
  assumes "wf_tm av s" "wf_tm av t" "subject s = subject t"
  obtains r where "intersect s t = Inr r"
    and "r = None \<longleftrightarrow> outcomes s \<inter> outcomes t = {}"
    and "\<And>u. r = Some u \<Longrightarrow> wf_tm av u \<and> subject u = subject s \<and> outcomes u = outcomes s \<inter> outcomes t"
proof (cases rule: wf_same_subject_cases [OF assms])
  case (1 b c)
  then show thesis by (intro that [of "if b = c then Some (RootConstraint b) else None"]) (auto simp: intersect_def)
next
  case (2 p V b W c)
  show thesis
    by (rule that [of "case do_intersect s t of Inr r \<Rightarrow> r"])
      (use 2 in \<open>auto simp: intersect_def Let_def split: if_splits\<close>)
qed

lemma difference_wf:
  assumes "wf_tm av s" "wf_tm av t" "subject s = subject t"
  obtains r where "difference s t = Inr r"
    and "r = None \<longleftrightarrow> outcomes s - outcomes t \<subseteq> {None} \<and> (\<forall>b. s = RootConstraint b \<longrightarrow> s = t)"
    and "\<And>u. r = Some u \<Longrightarrow> wf_tm av u \<and> subject u = subject s"
    and "\<And>u. r = Some u \<Longrightarrow> s \<noteq> RootConstraint False \<Longrightarrow> outcomes u = outcomes s - outcomes t - {None}"
proof (cases rule: wf_same_subject_cases [OF assms])
  case (1 b c)
  then show thesis
    by (intro that [of "if b = c then None else Some (RootConstraint b)"])
      (auto simp: difference_def split: if_splits)
next
  case (2 p V b W c)
  show thesis
    by (rule that [of "case do_difference s t of Inr r \<Rightarrow> r"])
      (use 2 in \<open>auto simp: difference_def Let_def split: if_splits\<close>)
qed

lemma holds_inverse:
  assumes "selection av \<sigma>" "wf_tm av t"
  shows "holds \<sigma> (inverse t) \<longleftrightarrow> \<not> holds \<sigma> t"
  using assms by (cases t; cases "\<sigma> (subject t)") (auto simp: holds_def selection_def)

lemma selection_exists:
  assumes "p \<noteq> root_name" "x \<in> insert None (Some ` av p)"
  obtains \<sigma> where "selection av \<sigma>" "\<sigma> p = x"
proof
  let ?s = "\<lambda>q. if q = root_name then Some ROOT else if q = p then x else None"
  show "selection av ?s" "?s p = x" using assms by (auto simp: selection_def)
qed

lemma outcomes_bound: "wf_tm av t \<Longrightarrow> subject t \<noteq> root_name \<Longrightarrow> outcomes t \<subseteq> insert None (Some ` av (subject t))"
  by (cases t) auto

section \<open>Terms as an algebra\<close>

text \<open>
  What the partial solution needs of a kind of term: on well-formed terms of one subject,
  the two comparisons never raise and decide inclusion and disjointness of the outcomes,
  and the intersection, where there is one, allows exactly the common outcomes.
\<close>

locale term_algebra =
  fixes wf :: "'t \<Rightarrow> bool"
    and subj :: "'t \<Rightarrow> 's"
    and outc :: "'t \<Rightarrow> 'o set"
    and sat :: "'t \<Rightarrow> 't \<Rightarrow> py_error + bool"
    and inter :: "'t \<Rightarrow> 't \<Rightarrow> py_error + 't option"
  assumes sat_iff: "wf s \<Longrightarrow> wf t \<Longrightarrow> subj s = subj t \<Longrightarrow> sat s t = Inr (outc s \<subseteq> outc t)"
    and inter_None: "wf s \<Longrightarrow> wf t \<Longrightarrow> subj s = subj t \<Longrightarrow>
      inter s t = Inr None \<longleftrightarrow> outc s \<inter> outc t = {}"
    and inter_Some: "wf s \<Longrightarrow> wf t \<Longrightarrow> subj s = subj t \<Longrightarrow> outc s \<inter> outc t \<noteq> {} \<Longrightarrow>
      \<exists>u. inter s t = Inr (Some u) \<and> wf u \<and> subj u = subj s \<and> outc u = outc s \<inter> outc t"
begin

lemma sat_refl: "wf t \<Longrightarrow> sat t t = Inr True"
  by (simp add: sat_iff)

lemma sat_trans:
  assumes "wf s" "wf t" "wf u" "subj s = subj t" "subj t = subj u"
    and "sat s t = Inr True" "sat t u = Inr True"
  shows "sat s u = Inr True"
  using assms by (auto simp: sat_iff)

lemma inter_satisfies:
  assumes "wf s" "wf t" "subj s = subj t" "inter s t = Inr (Some u)"
  shows "wf u \<and> subj u = subj s \<and> outc u = outc s \<inter> outc t \<and> sat u s = Inr True \<and> sat u t = Inr True"
proof -
  have "outc s \<inter> outc t \<noteq> {}" using assms inter_None by fastforce
  then obtain u' where "inter s t = Inr (Some u')" "wf u'" "subj u' = subj s" "outc u' = outc s \<inter> outc t"
    using inter_Some assms(1-3) by blast
  with assms show ?thesis by (simp add: sat_iff)
qed

text \<open>A satisfied term leaves the current one as it is, up to its outcomes.\<close>

lemma inter_absorb:
  assumes "wf s" "wf t" "subj s = subj t" "sat s t = Inr True" "outc s \<noteq> {}"
  obtains u where "inter s t = Inr (Some u)" "outc u = outc s"
proof -
  have "outc s \<inter> outc t = outc s" using assms by (auto simp: sat_iff)
  then show thesis using inter_Some [of s t] assms that by auto
qed

end

lemma term_algebra_tm: "term_algebra (wf_tm av) subject outcomes satisfies intersect"
proof
  fix s t :: "'a tm"
  assume wf: "wf_tm av s" "wf_tm av t" "subject s = subject t"
  show "satisfies s t = Inr (outcomes s \<subseteq> outcomes t)" by (rule satisfies_wf [OF wf])
  obtain r where r: "intersect s t = Inr r" "r = None \<longleftrightarrow> outcomes s \<inter> outcomes t = {}"
    "\<And>u. r = Some u \<Longrightarrow> wf_tm av u \<and> subject u = subject s \<and> outcomes u = outcomes s \<inter> outcomes t"
    using intersect_wf [OF wf] by blast
  show "intersect s t = Inr None \<longleftrightarrow> outcomes s \<inter> outcomes t = {}" using r by simp
  assume "outcomes s \<inter> outcomes t \<noteq> {}"
  with r show "\<exists>u. intersect s t = Inr (Some u) \<and> wf_tm av u \<and> subject u = subject s
      \<and> outcomes u = outcomes s \<inter> outcomes t"
    by (cases r) auto
qed

interpretation tm: term_algebra "wf_tm av" subject outcomes satisfies intersect for av
  by (rule term_algebra_tm)

section \<open>Properties\<close>

text \<open>
  C10. On well-formed constraints of one package, \<open>satisfies\<close> never raises and decides
  semantic entailment: it answers true exactly when every selection that makes the first
  term true makes the second one true.
\<close>

theorem satisfies_entails:
  assumes "wf_tm av s" "wf_tm av t" "subject s = subject t" "subject s \<noteq> root_name"
  shows "satisfies s t = Inr (\<forall>\<sigma>. selection av \<sigma> \<longrightarrow> holds \<sigma> s \<longrightarrow> holds \<sigma> t)"
proof -
  have "outcomes s \<subseteq> outcomes t" if "\<forall>\<sigma>. selection av \<sigma> \<longrightarrow> holds \<sigma> s \<longrightarrow> holds \<sigma> t"
  proof
    fix x
    assume x: "x \<in> outcomes s"
    with outcomes_bound [OF assms(1,4)] obtain \<sigma> where "selection av \<sigma>" "\<sigma> (subject s) = x"
      using selection_exists [OF assms(4), of x av] by blast
    with that x assms(3) show "x \<in> outcomes t" by (auto simp: holds_def)
  qed
  then show ?thesis using assms by (auto simp: satisfies_wf holds_def)
qed

theorem satisfies_entails_witness:
  "satisfies (require ''a'' {pv ''a'' 1} {pv ''a'' 1, pv ''a'' 2})
     (exclude ''a'' {pv ''a'' 2} {pv ''a'' 1, pv ''a'' 2}) =
   Inr (\<forall>\<sigma>. selection (\<lambda>_. {pv ''a'' 1, pv ''a'' 2}) \<sigma> \<longrightarrow>
     holds \<sigma> (require ''a'' {pv ''a'' 1} {pv ''a'' 1, pv ''a'' 2}) \<longrightarrow>
     holds \<sigma> (exclude ''a'' {pv ''a'' 2} {pv ''a'' 1, pv ''a'' 2}))"
  by (rule satisfies_entails) (simp_all add: require_def exclude_def root_name_def)

text \<open>
  C11. The intersection of two well-formed terms of one subject is their conjunction: it is
  \<open>None\<close> exactly when they have no outcome in common, and otherwise it is a well-formed
  term of that subject that holds of a selection exactly when both do.
\<close>

theorem intersect_conjunction:
  assumes "wf_tm av s" "wf_tm av t" "subject s = subject t"
  shows "\<exists>r. intersect s t = Inr r \<and> (r = None \<longleftrightarrow> outcomes s \<inter> outcomes t = {})
    \<and> (\<forall>u. r = Some u \<longrightarrow> wf_tm av u \<and> subject u = subject s
          \<and> (\<forall>\<sigma>. holds \<sigma> u \<longleftrightarrow> holds \<sigma> s \<and> holds \<sigma> t))"
proof -
  obtain r where r: "intersect s t = Inr r" "r = None \<longleftrightarrow> outcomes s \<inter> outcomes t = {}"
    "\<And>u. r = Some u \<Longrightarrow> wf_tm av u \<and> subject u = subject s \<and> outcomes u = outcomes s \<inter> outcomes t"
    using intersect_wf [OF assms] by blast
  moreover have "\<forall>\<sigma>. holds \<sigma> u \<longleftrightarrow> holds \<sigma> s \<and> holds \<sigma> t" if "r = Some u" for u
    using r(3) [OF that] assms(3) by (auto simp: holds_def)
  ultimately show ?thesis by blast
qed

theorem intersect_conjunction_witness:
  "\<exists>r. intersect (exclude ''a'' {pv ''a'' 1} {pv ''a'' 1, pv ''a'' 2})
      (exclude ''a'' {pv ''a'' 2} {pv ''a'' 1, pv ''a'' 2}) = Inr r
    \<and> (r = None \<longleftrightarrow> outcomes (exclude ''a'' {pv ''a'' 1} {pv ''a'' 1, pv ''a'' 2})
          \<inter> outcomes (exclude ''a'' {pv ''a'' 2} {pv ''a'' 1, pv ''a'' 2}) = {})
    \<and> (\<forall>u. r = Some u \<longrightarrow> wf_tm (\<lambda>_. {pv ''a'' 1, pv ''a'' 2}) u
          \<and> subject u = subject (exclude ''a'' {pv ''a'' 1} {pv ''a'' 1, pv ''a'' 2})
          \<and> (\<forall>\<sigma>. holds \<sigma> u \<longleftrightarrow>
               holds \<sigma> (exclude ''a'' {pv ''a'' 1} {pv ''a'' 1, pv ''a'' 2}) \<and>
               holds \<sigma> (exclude ''a'' {pv ''a'' 2} {pv ''a'' 1, pv ''a'' 2})))"
  by (rule intersect_conjunction) (simp_all add: exclude_def root_name_def)

end
