(* ===== verification/Incompatibilities.thy ===== *)
theory Incompatibilities
  imports Terms
begin

text \<open>
  Incompatibilities, their causes and assignments (\<open>satresolver/incompatibility.py\<close>,
  \<open>satresolver/cause.py\<close>, \<open>satresolver/assignment.py\<close>). An incompatibility is a list of
  terms that must not all hold, with the reason it is known. A cause names the incompatibilities
  it stems from (\<open>'i\<close>), and the type of incompatibilities recurses through it. An
  assignment is a term of a partial solution with the decision level and the position it was
  made at; a decision has no cause.
\<close>

datatype 'i cause =
    RootCause
  | DependencyCause
  | UseLatestCause
  | UseLockedCause
  | NoVersionsCause
  | PackageNotFoundCause "package_error option"
  | ConflictCause (conflict: 'i) (other: 'i)
  | IncompatibilityCause (cause_incompatibility: 'i)
  | OverrideCause

datatype 'v incompatibility = Incompatibility (terms: "'v tm list") (cause: "'v incompatibility cause")

definition is_failure :: "'v incompatibility \<Rightarrow> bool" where
  "is_failure i = (terms i = [] \<or> (\<exists>b. terms i = [RootConstraint b]))"

record 'v assignment =
  a_term :: "'v tm"
  a_level :: nat
  a_index :: nat
  a_cause :: "'v incompatibility cause option"

definition is_decision :: "'v assignment \<Rightarrow> bool" where
  "is_decision a = (a_cause a = None)"

definition a_subject :: "'v assignment \<Rightarrow> string" where
  "a_subject a = subject (a_term a)"

text \<open>
  \<open>__str__\<close> of an incompatibility. A list index out of range raises; \<open>repr\<close> stands for
  the text of \<open>__repr__\<close>, which prints Python sets in an unspecified order.
\<close>

fun names_all_versions :: "'v tm \<Rightarrow> bool" where
  "names_all_versions (VersionConstraint p V b A) = (V = A)"
| "names_all_versions (RootConstraint b) = False"

definition dependency_string ::
  "('v \<Rightarrow> string) \<Rightarrow> 'v::linorder incompatibility \<Rightarrow> py_error + string" where
  "dependency_string ver_str i =
     (case terms i of
        t0 # t1 # _ \<Rightarrow>
          Inr ((if names_all_versions t0 then ''all versions of '' @ subject t0 @ '' depend on''
                else tm_str ver_str t0 @ '' depends on'') @ '' '' @
               (if names_all_versions t1 then subject t1 else tm_str ver_str (inverse t1)))
      | _ \<Rightarrow> Inl IndexError)"

definition incompatibility_str ::
  "('v \<Rightarrow> string) \<Rightarrow> ('v incompatibility \<Rightarrow> string) \<Rightarrow> 'v::linorder incompatibility \<Rightarrow> py_error + string" where
  "incompatibility_str ver_str repr i =
     (case cause i of
        DependencyCause \<Rightarrow> dependency_string ver_str i
      | ConflictCause c d \<Rightarrow>
          (case terms i of
             [] \<Rightarrow> Inl IndexError
           | [t0] \<Rightarrow> Inr (tm_str ver_str t0 @ '' is incompatible'')
           | t0 # t1 # _ \<Rightarrow>
               Inr (tm_str ver_str t0 @ '' is incompatible with '' @ tm_str ver_str t1))
      | RootCause \<Rightarrow>
          (case terms i of
             [] \<Rightarrow> Inl IndexError
           | [t0] \<Rightarrow> Inr (tm_str ver_str t0 @ '' is incompatible'')
           | t0 # t1 # _ \<Rightarrow>
               Inr (tm_str ver_str t0 @ '' is incompatible with '' @ tm_str ver_str t1))
      | _ \<Rightarrow> Inr (repr i))"

section \<open>The meaning of an incompatibility\<close>

text \<open>A selection violates an incompatibility when it makes every term of it true.\<close>

definition violates :: "'v selection \<Rightarrow> 'v incompatibility \<Rightarrow> bool" where
  "violates \<sigma> i \<longleftrightarrow> (\<forall>t \<in> set (terms i). holds \<sigma> t)"

definition wf_incompatibility :: "(string \<Rightarrow> 'v package_version set) \<Rightarrow> 'v incompatibility \<Rightarrow> bool" where
  "wf_incompatibility av i \<longleftrightarrow> (\<forall>t \<in> set (terms i). wf_tm av t)"

lemma is_failure_violated:
  assumes "is_failure i" "selection av \<sigma>" "\<forall>t \<in> set (terms i). t \<noteq> RootConstraint False"
  shows "violates \<sigma> i"
  using assms by (auto simp: is_failure_def violates_def holds_def selection_def)

end
