(* ===== verification/Partial_Solution.thy ===== *)
theory Partial_Solution
  imports Incompatibilities
begin

text \<open>
  The partial solution of the resolver (\<open>satresolver/partial_solution.py\<close>): the trail of
  assignments in the order they were made, the decided term of each package, and for each
  package the intersection of all its assignments. The dictionary \<open>_terms\<close> may hold
  \<open>None\<close> (an empty intersection), which the code's \<open>get\<close> does not tell from a missing key.
\<close>

section \<open>State and operations\<close>

record 'v partial_solution =
  ps_assignments :: "'v assignment list"
  ps_decisions :: "(string, 'v tm) dict"
  ps_terms :: "(string, 'v tm option) dict"
  ps_attempted :: nat
  ps_backtracking :: bool

definition empty_solution :: "'v partial_solution" where
  "empty_solution = \<lparr>ps_assignments = [], ps_decisions = [], ps_terms = [],
     ps_attempted = 1, ps_backtracking = False\<rparr>"

definition current_term :: "'v partial_solution \<Rightarrow> string \<Rightarrow> 'v tm option" where
  "current_term S p = (case map_of (ps_terms S) p of None \<Rightarrow> None | Some x \<Rightarrow> x)"

fun is_version_constraint :: "'v tm \<Rightarrow> bool" where
  "is_version_constraint (VersionConstraint p V b A) = True"
| "is_version_constraint (RootConstraint b) = False"

definition decisions :: "'v::linorder partial_solution \<Rightarrow> 'v package_version list" where
  "decisions S =
     sorted_list_of_set (\<Union>t \<in> set (filter is_version_constraint (map snd (ps_decisions S))). versions t)"

definition ps_positive :: "'v partial_solution \<Rightarrow> py_error + (string, 'v tm) dict" where
  "ps_positive S =
     (if \<exists>(p, x) \<in> set (ps_terms S). x = None then Inl AttributeError
      else Inr [(p, t). (p, Some t) \<leftarrow> ps_terms S, is_positive t])"

definition unsatisfied :: "'v partial_solution \<Rightarrow> py_error + (string, 'v tm) dict" where
  "unsatisfied S = rmap (filter (\<lambda>(p, t). map_of (ps_decisions S) p = None)) (ps_positive S)"

definition decision_level :: "'v partial_solution \<Rightarrow> nat" where
  "decision_level S = length (ps_decisions S)"

definition register :: "'v assignment \<Rightarrow> 'v partial_solution \<Rightarrow> py_error + 'v partial_solution" where
  "register a S =
     (case current_term S (a_subject a) of
        None \<Rightarrow> Inr (S\<lparr>ps_terms := AList.update (a_subject a) (Some (a_term a)) (ps_terms S)\<rparr>)
      | Some old \<Rightarrow>
          rmap (\<lambda>x. S\<lparr>ps_terms := AList.update (a_subject a) x (ps_terms S)\<rparr>)
            (intersect old (a_term a)))"

definition decide :: "'v tm \<Rightarrow> 'v partial_solution \<Rightarrow> py_error + 'v partial_solution" where
  "decide t S =
     (let S1 = (if ps_backtracking S
                then S\<lparr>ps_attempted := Suc (ps_attempted S), ps_backtracking := False\<rparr> else S);
          S2 = S1\<lparr>ps_decisions := AList.update (subject t) t (ps_decisions S1)\<rparr>;
          a = \<lparr>a_term = t, a_level = decision_level S2, a_index = length (ps_assignments S2),
               a_cause = None\<rparr>
      in register a (S2\<lparr>ps_assignments := ps_assignments S2 @ [a]\<rparr>))"

definition derive :: "'v tm \<Rightarrow> 'v incompatibility cause \<Rightarrow> 'v partial_solution \<Rightarrow> py_error + 'v partial_solution" where
  "derive t c S =
     (let a = \<lparr>a_term = t, a_level = decision_level S, a_index = length (ps_assignments S),
               a_cause = Some c\<rparr>
      in register a (S\<lparr>ps_assignments := ps_assignments S @ [a]\<rparr>))"

text \<open>
  The first loop of \<open>backtrack\<close> pops assignments off the end, so it is written on the
  reversed trail: it returns what is left and the subjects removed. Popping the last
  assignment makes the loop's test read \<open>[-1]\<close> of an empty list, which raises.
\<close>

fun pop_assignments :: "nat \<Rightarrow> 'v assignment list \<Rightarrow> string set \<Rightarrow> py_error + ('v assignment list \<times> string set)" where
  "pop_assignments l [] removed = Inl IndexError"
| "pop_assignments l (a # as) removed =
     (if l < a_level a then pop_assignments l as (insert (a_subject a) removed)
      else Inr (a # as, removed))"

definition backtrack :: "nat \<Rightarrow> 'v partial_solution \<Rightarrow> py_error + 'v partial_solution" where
  "backtrack l S =
     rbind (pop_assignments l (rev (ps_assignments S)) {})
       (\<lambda>(as, removed).
          let kept = rev as;
              S1 = S\<lparr>ps_backtracking := True, ps_assignments := kept,
                     ps_terms := dict_drop removed (ps_terms S),
                     ps_decisions := dict_drop removed (ps_decisions S)\<rparr>
          in rfold register (filter (\<lambda>a. a_subject a \<in> removed) kept) S1)"

text \<open>
  \<open>satisfier\<close> scans the assignments of the term's package. \<open>acc\<close> is \<open>current_term\<close> of
  the code; an empty intersection makes it \<open>None\<close>, on which \<open>satisfies\<close> is then called.
\<close>

fun satisfier_loop :: "'v tm \<Rightarrow> 'v tm option \<Rightarrow> 'v assignment list \<Rightarrow> py_error + 'v assignment option" where
  "satisfier_loop t acc [] = Inr None"
| "satisfier_loop t acc (a # as) =
     rbind (case acc of None \<Rightarrow> Inr (Some (a_term a)) | Some u \<Rightarrow> intersect u (a_term a))
       (\<lambda>acc'. case acc' of
           None \<Rightarrow> Inl AttributeError
         | Some u \<Rightarrow> rbind (satisfies u t)
             (\<lambda>b. if b then Inr (Some a) else satisfier_loop t (Some u) as))"

definition satisfier :: "'v tm \<Rightarrow> 'v partial_solution \<Rightarrow> py_error + 'v assignment option" where
  "satisfier t S =
     satisfier_loop t None (filter (\<lambda>a. a_subject a = subject t) (ps_assignments S))"

definition ps_satisfies :: "'v tm \<Rightarrow> 'v partial_solution \<Rightarrow> py_error + bool" where
  "ps_satisfies t S =
     (case current_term S (subject t) of None \<Rightarrow> Inr False | Some u \<Rightarrow> satisfies u t)"

definition ps_is_incompatible :: "'v tm \<Rightarrow> 'v partial_solution \<Rightarrow> py_error + bool" where
  "ps_is_incompatible t S =
     (case current_term S (subject t) of
        None \<Rightarrow> Inr False
      | Some u \<Rightarrow> rmap (\<lambda>r. r = None) (intersect u t))"

end
