(* ===== verification/Dependency_Graph.thy ===== *)
theory Dependency_Graph
  imports Packages
begin

text \<open>
  The dependency graph the resolver reads (\<open>satresolver/graph.py\<close>) and its
  dictionary-backed subclass (\<open>satresolver/dict_graph.py\<close>). The two methods a subclass
  implements, \<open>fetch_all_versions_for\<close> and \<open>fetch_dependencies_for\<close>, and
  \<open>dependencies_for_root\<close> are the fields of \<open>graph_ops\<close>; the state is the caches of the
  base class. Python iterates over a set in an unspecified order; where the code does, the
  model takes the elements in increasing order.
\<close>

type_synonym 'v dependencies = "(string, 'v package_version set) dict"

datatype 'v exception_key = KName string | KVersion "'v package_version"

record 'v graph_ops =
  fetch_all_versions_for :: "string \<Rightarrow> package_error + 'v package_version set"
  fetch_dependencies_for :: "'v package_version \<Rightarrow> package_error + 'v dependencies"
  dependencies_for_root :: "'v dependencies \<Rightarrow> package_error + 'v dependencies"

record 'v graph =
  dependency_map :: "('v package_version, 'v dependencies) dict"
  known_invalid_versions :: "(string, 'v package_version set) dict"
  packages :: "(string, 'v package_version set) dict"
  exceptions :: "('v exception_key, package_error) dict"

definition empty_graph :: "'v graph" where
  "empty_graph = \<lparr>dependency_map = [], known_invalid_versions = [], packages = [], exceptions = []\<rparr>"

text \<open>
  \<open>all_versions\<close> is cached per package in the code; fetching is a function of the package,
  so a second call returns the same value and writes the same entry.
\<close>

definition all_versions ::
  "'v graph_ops \<Rightarrow> string \<Rightarrow> 'v graph \<Rightarrow> package_error + ('v package_version set \<times> 'v graph)" where
  "all_versions ops name g =
     (case fetch_all_versions_for ops name of
        Inr vs \<Rightarrow> Inr (vs, g\<lparr>packages := AList.update name vs (packages g)\<rparr>)
      | Inl e \<Rightarrow>
          if is_not_found e
          then Inr ({}, g\<lparr>exceptions := AList.update (KName name) e (exceptions g)\<rparr>)
          else Inl e)"

definition invalid_versions :: "'v graph \<Rightarrow> string \<Rightarrow> 'v package_version set" where
  "invalid_versions g name = (case map_of (known_invalid_versions g) name of None \<Rightarrow> {} | Some s \<Rightarrow> s)"

definition dependencies_for ::
  "'v graph_ops \<Rightarrow> 'v package_version \<Rightarrow> 'v graph \<Rightarrow> package_error + ('v dependencies \<times> 'v graph)" where
  "dependencies_for ops v g =
     (case map_of (dependency_map g) v of
        Some deps \<Rightarrow> Inr (deps, g)
      | None \<Rightarrow>
          (case fetch_dependencies_for ops v of
             Inr deps \<Rightarrow> Inr (deps, g\<lparr>dependency_map := AList.update v deps (dependency_map g)\<rparr>)
           | Inl e \<Rightarrow>
               if is_not_found e
               then Inr ([], g\<lparr>known_invalid_versions :=
                                 AList.update (pv_subject v) (insert v (invalid_versions g (pv_subject v)))
                                   (known_invalid_versions g),
                               exceptions := AList.update (KVersion v) e (exceptions g),
                               dependency_map := AList.update v [] (dependency_map g)\<rparr>)
               else Inl e))"

definition exceptions_for :: "'v exception_key \<Rightarrow> 'v graph \<Rightarrow> package_error option" where
  "exceptions_for k g = map_of (exceptions g) k"

text \<open>
  \<open>build_transitive_dependency_map\<close>: a depth-first walk over package names. The body of
  the loop handles one package; the loop itself is bounded by fuel, and \<open>None\<close> is running
  out of it.
\<close>

definition visit_version ::
  "'v graph_ops \<Rightarrow> string set \<Rightarrow> 'v package_version \<Rightarrow> string list \<times> 'v graph
   \<Rightarrow> package_error + (string list \<times> 'v graph)" where
  "visit_version ops visited v = (\<lambda>(to_visit, g).
     rmap (\<lambda>(deps, g'). (to_visit @ filter (\<lambda>p. p \<notin> visited) (dict_keys deps), g'))
       (dependencies_for ops v g))"

definition visit_package ::
  "'v::linorder graph_ops \<Rightarrow> string set \<Rightarrow> string \<Rightarrow> string list \<Rightarrow> 'v graph
   \<Rightarrow> package_error + (string list \<times> 'v graph)" where
  "visit_package ops visited name to_visit g =
     rbind (all_versions ops name g)
       (\<lambda>(vs, g1). rfold (visit_version ops visited) (sorted_list_of_set vs) (to_visit, g1))"

fun visit_loop ::
  "nat \<Rightarrow> 'v::linorder graph_ops \<Rightarrow> string set \<Rightarrow> string list \<Rightarrow> 'v graph
   \<Rightarrow> (package_error + 'v graph) option" where
  "visit_loop 0 ops visited to_visit g = None"
| "visit_loop (Suc n) ops visited to_visit g =
     (if to_visit = [] then Some (Inr g)
      else (let name = last to_visit in
            case visit_package ops visited name (butlast to_visit) g of
              Inl e \<Rightarrow> Some (Inl e)
            | Inr (to_visit', g') \<Rightarrow> visit_loop n ops (insert name visited) to_visit' g'))"

definition build_transitive_dependency_map ::
  "nat \<Rightarrow> 'v::linorder graph_ops \<Rightarrow> 'v dependencies \<Rightarrow> 'v graph \<Rightarrow> (package_error + 'v graph) option" where
  "build_transitive_dependency_map n ops reqs g =
     (case dependencies_for_root ops reqs of
        Inl e \<Rightarrow> Some (Inl e)
      | Inr direct \<Rightarrow>
          map_option (rmap (\<lambda>g'. g'\<lparr>dependency_map := AList.update ROOT direct (dependency_map g')\<rparr>))
            (visit_loop n ops {} (dict_keys direct) g))"

section \<open>The dictionary-backed graph\<close>

type_synonym 'v transitive_map =
  "(string, ('v package_version, 'v package_version list) dict) dict"

fun add_dependency :: "'v package_version \<Rightarrow> 'v dependencies \<Rightarrow> 'v dependencies" where
  "add_dependency dep deps =
     AList.update (pv_name dep)
       (insert dep (case map_of deps (pv_name dep) of None \<Rightarrow> {} | Some s \<Rightarrow> s)) deps"

definition group_dependencies :: "'v package_version list \<Rightarrow> 'v dependencies" where
  "group_dependencies deps = fold add_dependency deps []"

definition dict_fetch_all_versions_for ::
  "'v transitive_map \<Rightarrow> string \<Rightarrow> package_error + 'v package_version set" where
  "dict_fetch_all_versions_for m name =
     (case map_of m name of
        None \<Rightarrow> Inl (PackageNotFoundError (''Package '' @ name @ '' not found'') name)
      | Some vs \<Rightarrow> Inr (set (dict_keys vs)))"

definition dict_fetch_dependencies_for ::
  "('v \<Rightarrow> string) \<Rightarrow> 'v transitive_map \<Rightarrow> 'v package_version \<Rightarrow> package_error + 'v dependencies" where
  "dict_fetch_dependencies_for ver_str m v =
     (case map_of m (pv_subject v) of
        None \<Rightarrow> Inl (PackageNotFoundError (''Package '' @ pv_subject v @ '' not found'') (pv_subject v))
      | Some package \<Rightarrow>
          (case map_of package v of
             None \<Rightarrow> Inl (PackageNotFoundError
                         (''Package version '' @ pv_str ver_str v @ '' not found'') (pv_subject v))
           | Some deps \<Rightarrow> Inr (group_dependencies deps)))"

definition dict_graph :: "('v \<Rightarrow> string) \<Rightarrow> 'v transitive_map \<Rightarrow> 'v graph_ops" where
  "dict_graph ver_str m = \<lparr>fetch_all_versions_for = dict_fetch_all_versions_for m,
     fetch_dependencies_for = dict_fetch_dependencies_for ver_str m,
     dependencies_for_root = (\<lambda>reqs. Inr reqs)\<rparr>"

end
