(* ===== verification/Resolver_Config.thy ===== *)
theory Resolver_Config
  imports Dependency_Graph Incompatibilities
begin

text \<open>
  The resolver's configuration (\<open>satresolver/config.py\<close>): the root requirements, the
  packages to take at their latest or at a locked version, downgrades and overrides, with
  the bookkeeping of what was already listed or used. It hands the resolver the
  incompatibilities of a package version and chooses the next package and its version.
\<close>

datatype 'v resolver_error =
    PyErr py_error
  | GraphErr package_error
  | ResolutionError "'v incompatibility"
  | OutOfFuel

record 'v config =
  cfg_dependencies :: "'v dependencies"
  use_latest :: "string set"
  locked :: "(string, 'v package_version) dict"
  downgrades :: "string set"
  overrides :: "(string, 'v package_version list) dict"
  cfg_graph :: "'v graph"
  have_listed :: "'v package_version set"
  have_used_latest :: "string set"
  have_used_locked :: "string set"

definition new_config ::
  "nat \<Rightarrow> 'v::linorder graph_ops \<Rightarrow> 'v dependencies \<Rightarrow> string set \<Rightarrow> (string, 'v package_version) dict
   \<Rightarrow> string set \<Rightarrow> (string, 'v package_version list) dict \<Rightarrow> 'v resolver_error + 'v config" where
  "new_config fuel ops deps latest lock down over =
     (case build_transitive_dependency_map fuel ops deps empty_graph of
        None \<Rightarrow> Inl OutOfFuel
      | Some r \<Rightarrow> rlift GraphErr (rmap (\<lambda>g.
          \<lparr>cfg_dependencies = deps, use_latest = latest, locked = lock, downgrades = down,
           overrides = over, cfg_graph = g, have_listed = {}, have_used_latest = {},
           have_used_locked = {}\<rparr>) r))"

definition should_use_latest :: "'v config \<Rightarrow> string set" where
  "should_use_latest c = use_latest c - have_used_latest c"

definition should_use_locked :: "'v config \<Rightarrow> string set" where
  "should_use_locked c = set (dict_keys (locked c)) - have_used_locked c"

definition cfg_all_versions ::
  "'v graph_ops \<Rightarrow> string \<Rightarrow> 'v config \<Rightarrow> 'v resolver_error + ('v package_version set \<times> 'v config)" where
  "cfg_all_versions ops name c =
     rlift GraphErr (rmap (\<lambda>(vs, g). (vs, c\<lparr>cfg_graph := g\<rparr>)) (all_versions ops name (cfg_graph c)))"

definition cfg_dependencies_for ::
  "'v graph_ops \<Rightarrow> 'v package_version \<Rightarrow> 'v config \<Rightarrow> 'v resolver_error + ('v dependencies \<times> 'v config)" where
  "cfg_dependencies_for ops v c =
     rlift GraphErr (rmap (\<lambda>(d, g). (d, c\<lparr>cfg_graph := g\<rparr>)) (dependencies_for ops v (cfg_graph c)))"

text \<open>\<open>max\<close> of an empty set raises \<open>ValueError\<close>.\<close>

definition latest_version ::
  "'v::linorder graph_ops \<Rightarrow> string \<Rightarrow> 'v config \<Rightarrow> 'v resolver_error + ('v package_version \<times> 'v config)" where
  "latest_version ops name c =
     rbind (cfg_all_versions ops name c)
       (\<lambda>(vs, c'). if vs = {} then Inl (PyErr ValueError) else Inr (Max vs, c'))"

definition dependency_incompatibility ::
  "'v graph_ops \<Rightarrow> 'v tm \<Rightarrow> string \<times> 'v package_version set
   \<Rightarrow> 'v incompatibility list \<times> 'v config \<Rightarrow> 'v resolver_error + ('v incompatibility list \<times> 'v config)" where
  "dependency_incompatibility ops dependee = (\<lambda>(name, vs) (is, c).
     let over = map_of (overrides c) name;
         vs' = (case over of None \<Rightarrow> vs | Some pinned \<Rightarrow> set pinned)
     in rmap (\<lambda>(av, c').
          (is @ [Incompatibility [dependee, exclude name vs' av]
                   (if over \<noteq> None then OverrideCause else DependencyCause)], c'))
        (cfg_all_versions ops name c))"

definition dependency_incompatibilities ::
  "'v graph_ops \<Rightarrow> 'v package_version \<Rightarrow> 'v tm \<Rightarrow> 'v config
   \<Rightarrow> 'v resolver_error + ('v incompatibility list \<times> 'v config)" where
  "dependency_incompatibilities ops v dependee c =
     rbind (cfg_dependencies_for ops v c)
       (\<lambda>(deps, c1). rfold (dependency_incompatibility ops dependee) deps ([], c1))"

definition incompatibilities_for ::
  "'v graph_ops \<Rightarrow> 'v package_version \<Rightarrow> 'v config
   \<Rightarrow> 'v resolver_error + ('v incompatibility list \<times> 'v config)" where
  "incompatibilities_for ops v c =
     (if v \<in> have_listed c then Inr ([], c)
      else rbind
        (if v = ROOT then Inr (RootConstraint True, c)
         else rmap (\<lambda>(av, c1). (require (pv_subject v) {v} av, c1)) (cfg_all_versions ops (pv_subject v) c))
        (\<lambda>(dependee, c1).
           dependency_incompatibilities ops v dependee (c1\<lparr>have_listed := insert v (have_listed c1)\<rparr>)))"

definition incompatibilities_for_package ::
  "'v::linorder graph_ops \<Rightarrow> string \<Rightarrow> 'v config
   \<Rightarrow> 'v resolver_error + ('v incompatibility option \<times> 'v config)" where
  "incompatibilities_for_package ops name c =
     rbind (cfg_all_versions ops name c)
       (\<lambda>(av, c1).
          if name \<in> should_use_latest c1 then
            rmap (\<lambda>(latest, c3). (Some (Incompatibility [require name {latest} av] UseLatestCause), c3))
              (latest_version ops name (c1\<lparr>have_used_latest := insert name (have_used_latest c1)\<rparr>))
          else if name \<in> should_use_locked c1 then
            (case map_of (locked c1) name of
               None \<Rightarrow> Inl (PyErr KeyError)
             | Some v \<Rightarrow>
                 Inr (Some (Incompatibility [require name {v} av] UseLockedCause),
                      c1\<lparr>have_used_locked := insert name (have_used_locked c1)\<rparr>))
          else Inr (None, c1))"

text \<open>
  \<open>_valid_versions_for_package\<close>. The dependencies of the versions are fetched only while
  the package has no entry in \<open>_known_invalid_versions\<close>; reading that \<open>defaultdict\<close>
  afterwards creates the entry.
\<close>

definition fetch_dependencies :: "'v graph_ops \<Rightarrow> 'v package_version \<Rightarrow> 'v config \<Rightarrow> 'v resolver_error + 'v config" where
  "fetch_dependencies ops v c = rmap snd (cfg_dependencies_for ops v c)"

definition touch_invalid :: "string \<Rightarrow> 'v graph \<Rightarrow> 'v graph" where
  "touch_invalid name g =
     g\<lparr>known_invalid_versions := AList.update name (invalid_versions g name) (known_invalid_versions g)\<rparr>"

definition valid_versions_for_package ::
  "'v::linorder graph_ops \<Rightarrow> string \<Rightarrow> 'v tm \<Rightarrow> 'v config
   \<Rightarrow> 'v resolver_error + ('v package_version set \<times> 'v config)" where
  "valid_versions_for_package ops name t c =
     (case t of
        RootConstraint b \<Rightarrow> Inl (PyErr ToolchainAssertion)
      | VersionConstraint p V b A \<Rightarrow>
          rbind (if map_of (known_invalid_versions (cfg_graph c)) name = None
                 then rfold (fetch_dependencies ops) (sorted_list_of_set V) c else Inr c)
            (\<lambda>c1. rmap (\<lambda>(av, c2).
                ((av - invalid_versions (cfg_graph c2) name) \<inter> V,
                 c2\<lparr>cfg_graph := touch_invalid name (cfg_graph c2)\<rparr>))
              (cfg_all_versions ops name c1)))"

definition valid_versions_entry ::
  "'v::linorder graph_ops \<Rightarrow> string \<times> 'v tm \<Rightarrow> (string, 'v package_version set) dict \<times> 'v config
   \<Rightarrow> 'v resolver_error + ((string, 'v package_version set) dict \<times> 'v config)" where
  "valid_versions_entry ops = (\<lambda>(name, t) (acc, c).
     rmap (\<lambda>(vs, c'). (AList.update name vs acc, c')) (valid_versions_for_package ops name t c))"

definition best_package ::
  "'v::linorder graph_ops \<Rightarrow> (string, 'v tm) dict \<Rightarrow> 'v config
   \<Rightarrow> 'v resolver_error + (string \<times> 'v package_version set \<times> 'v config)" where
  "best_package ops unsat c =
     rbind (rfold (valid_versions_entry ops) unsat ([], c))
       (\<lambda>(valid, c1).
          let extra = should_use_locked c1 \<union> should_use_latest c1;
              num = (\<lambda>(name, vs). (if name \<in> extra then 1 else card vs, name))
          in case sort (map num valid) of
               [] \<Rightarrow> Inl (PyErr IndexError)
             | (n, best) # _ \<Rightarrow>
                 (case map_of valid best of
                    None \<Rightarrow> Inl (PyErr KeyError)
                  | Some vs \<Rightarrow> Inr (best, vs, c1)))"

definition best_version_for_package ::
  "string \<Rightarrow> 'v::linorder package_version set \<Rightarrow> 'v config \<Rightarrow> 'v resolver_error + 'v package_version" where
  "best_version_for_package name valid c =
     (if valid = {} then Inl (PyErr ToolchainAssertion)
      else case map_of (locked c) name of
        Some l \<Rightarrow> if l \<in> valid then Inr l
                  else if name \<in> downgrades c then Inr (Min valid) else Inr (Max valid)
      | None \<Rightarrow> if name \<in> downgrades c then Inr (Min valid) else Inr (Max valid))"

end
