(* ===== verification/Resolver.thy ===== *)
theory Resolver
  imports Partial_Solution Resolver_Config
begin

text \<open>
  The version solver (\<open>satresolver/core.py\<close>), method by method: unit propagation, conflict
  resolution with backjumping, and the choice of the next package version. The loops of
  \<open>_solve\<close>, \<open>_propagate\<close> and \<open>_resolve_conflict\<close> take fuel; running out of it is the
  error \<open>OutOfFuel\<close>, which the code does not have. \<open>incompatibilities\<close> is the
  \<open>defaultdict(list)\<close> of the code, a function that is \<open>[]\<close> on an absent key.
\<close>

section \<open>State\<close>

record 'v resolver =
  r_incompatibilities :: "string \<Rightarrow> 'v incompatibility list"
  r_solution :: "'v partial_solution"
  r_config :: "'v config"
  r_has_run_flag :: bool
  r_loop_iterations :: nat

text \<open>
  What \<open>_propagate_incompatibility\<close> returns, and so what the queue \<open>changed\<close> holds: the
  code appends that value to the queue after a conflict, whatever it is.
\<close>

datatype 'v propagation = PNone | PSubject string | PConflict "'v incompatibility"

definition new_resolver :: "'v config \<Rightarrow> 'v resolver" where
  "new_resolver c = \<lparr>r_incompatibilities = (\<lambda>_. []), r_solution = empty_solution, r_config = c,
     r_has_run_flag = False, r_loop_iterations = 0\<rparr>"

definition lift_solution ::
  "('v partial_solution \<Rightarrow> py_error + 'v partial_solution) \<Rightarrow> 'v resolver \<Rightarrow> 'v resolver_error + 'v resolver" where
  "lift_solution f R = rlift PyErr (rmap (\<lambda>S. R\<lparr>r_solution := S\<rparr>) (f (r_solution R)))"

definition lift_config ::
  "('v config \<Rightarrow> 'v resolver_error + ('a \<times> 'v config)) \<Rightarrow> 'v resolver \<Rightarrow> 'v resolver_error + ('a \<times> 'v resolver)" where
  "lift_config f R = rmap (\<lambda>(x, c). (x, R\<lparr>r_config := c\<rparr>)) (f (r_config R))"

section \<open>Incompatibilities and propagation\<close>

definition add_incompatibility :: "'v incompatibility \<Rightarrow> 'v resolver \<Rightarrow> 'v resolver" where
  "add_incompatibility i R =
     R\<lparr>r_incompatibilities :=
        fold (\<lambda>t f. f(subject t := f (subject t) @ [i])) (terms i) (r_incompatibilities R)\<rparr>"

definition setup_root :: "'v graph_ops \<Rightarrow> 'v resolver \<Rightarrow> 'v resolver_error + 'v resolver" where
  "setup_root ops R =
     rbind (lift_config (incompatibilities_for ops ROOT) R)
       (\<lambda>(is, R1). lift_solution (decide (RootConstraint True)) (fold add_incompatibility is R1))"

text \<open>
  The scan of an incompatibility's terms: \<open>None\<close> is the early \<open>return None\<close> (a contradicted
  term, or a second inconclusive one); \<open>Some u\<close> is the loop run to its end with
  \<open>unsatisfied_term = u\<close>.
\<close>

fun scan_terms :: "'v tm list \<Rightarrow> 'v tm option \<Rightarrow> 'v partial_solution \<Rightarrow> py_error + 'v tm option option" where
  "scan_terms [] u S = Inr (Some u)"
| "scan_terms (t # ts) u S =
     rbind (ps_satisfies t S) (\<lambda>sat.
       if sat then scan_terms ts u S
       else rbind (ps_is_incompatible t S) (\<lambda>inc.
         if inc then Inr None
         else if u \<noteq> None then Inr None
         else scan_terms ts (Some t) S))"

definition propagate_incompatibility ::
  "'v incompatibility \<Rightarrow> 'v resolver \<Rightarrow> 'v resolver_error + ('v propagation \<times> 'v resolver)" where
  "propagate_incompatibility i R =
     rbind (rlift PyErr (scan_terms (terms i) None (r_solution R)))
       (\<lambda>r. case r of
          None \<Rightarrow> Inr (PNone, R)
        | Some None \<Rightarrow> Inr (PConflict i, R)
        | Some (Some t) \<Rightarrow>
            rmap (\<lambda>R'. (PSubject (subject t), R'))
              (lift_solution (derive (inverse t) (IncompatibilityCause i)) R))"

section \<open>Conflict resolution\<close>

text \<open>
  Sorting compares the satisfiers by index; with two or more terms every element takes part
  in a comparison, so a missing satisfier (\<open>None\<close>) raises \<open>TypeError\<close>.
\<close>

definition satisfier_key :: "'v tm \<times> 'v assignment option \<Rightarrow> nat" where
  "satisfier_key x = (case snd x of None \<Rightarrow> 0 | Some a \<Rightarrow> a_index a)"

definition sort_by_satisfier ::
  "'v incompatibility \<Rightarrow> 'v partial_solution \<Rightarrow> py_error + ('v tm \<times> 'v assignment option) list" where
  "sort_by_satisfier i S =
     rbind (rmap_list (\<lambda>t. rmap (Pair t) (satisfier t S)) (terms i))
       (\<lambda>xs. if 1 < length xs \<and> None \<in> snd ` set xs then Inl TypeError
             else Inr (sort_key satisfier_key xs))"

definition previous_decision_level ::
  "('v tm \<times> 'v assignment option) list \<Rightarrow> 'v partial_solution \<Rightarrow> py_error + nat" where
  "previous_decision_level sorted_terms S =
     (case rev sorted_terms of
        [] \<Rightarrow> Inl IndexError
      | (mrt, mrs) # rest \<Rightarrow>
          rbind (case rest of
                   [] \<Rightarrow> Inr 1
                 | (_, None) # _ \<Rightarrow> Inl AttributeError
                 | (_, Some prev) # _ \<Rightarrow> Inr (a_level prev))
            (\<lambda>prev_level.
               case mrs of
                 None \<Rightarrow> Inl AttributeError
               | Some s \<Rightarrow>
                   rbind (difference (a_term s) mrt)
                     (\<lambda>d. case d of
                        None \<Rightarrow> Inr prev_level
                      | Some u \<Rightarrow>
                          rbind (satisfier (inverse u) S)
                            (\<lambda>p. case p of
                               None \<Rightarrow> Inl AttributeError
                             | Some a \<Rightarrow> Inr (max prev_level (a_level a))))))"

definition merge_term :: "'v tm \<Rightarrow> (string, 'v tm) dict \<Rightarrow> py_error + (string, 'v tm) dict" where
  "merge_term t d =
     (case map_of d (subject t) of
        None \<Rightarrow> Inr (AList.update (subject t) t d)
      | Some old \<Rightarrow>
          rbind (intersect old t)
            (\<lambda>r. case r of
               None \<Rightarrow> Inl ValueError
             | Some new \<Rightarrow> Inr (AList.update (subject t) new d)))"

definition merge_terms :: "'v tm list \<Rightarrow> py_error + 'v tm list" where
  "merge_terms ts = rmap (map snd) (rfold merge_term ts [])"

definition create_incompatibility_from_conflict ::
  "'v incompatibility \<Rightarrow> 'v tm \<Rightarrow> 'v assignment \<Rightarrow> py_error + 'v incompatibility" where
  "create_incompatibility_from_conflict i mrt mrs =
     (case a_cause mrs of
        Some (IncompatibilityCause j) \<Rightarrow>
          rbind (difference (a_term mrs) mrt)
            (\<lambda>d. rmap (\<lambda>ts. Incompatibility ts (ConflictCause i j))
               (merge_terms
                 (filter (\<lambda>t. \<not> tm_eq t mrt) (terms i)
                  @ filter (\<lambda>t. subject t \<noteq> a_subject mrs) (terms j)
                  @ (case d of None \<Rightarrow> [] | Some u \<Rightarrow> [inverse u]))))
      | _ \<Rightarrow> Inl AttributeError)"

text \<open>
  One round of the loop of \<open>_resolve_conflict\<close>: \<open>Inl l\<close> says to backtrack to level \<open>l\<close>
  and return the current incompatibility, \<open>Inr j\<close> to go on with \<open>j\<close>.
\<close>

definition resolve_round ::
  "'v incompatibility \<Rightarrow> 'v partial_solution \<Rightarrow> py_error + (nat + 'v incompatibility)" where
  "resolve_round i S =
     rbind (sort_by_satisfier i S)
       (\<lambda>sorted_terms.
          if sorted_terms = [] then Inl IndexError
          else let (mrt, mrs) = last sorted_terms in
            rbind (previous_decision_level sorted_terms S)
              (\<lambda>level.
                 case mrs of
                   None \<Rightarrow> Inl AttributeError
                 | Some s \<Rightarrow>
                     if is_decision s \<or> level < a_level s then Inr (Inl level)
                     else rmap Inr (create_incompatibility_from_conflict i mrt s)))"

fun resolve_loop ::
  "nat \<Rightarrow> 'v incompatibility \<Rightarrow> 'v incompatibility \<Rightarrow> 'v resolver
   \<Rightarrow> 'v resolver_error + ('v incompatibility \<times> 'v resolver)" where
  "resolve_loop 0 orig cur R = Inl OutOfFuel"
| "resolve_loop (Suc n) orig cur R =
     (if is_failure cur then Inl (ResolutionError cur)
      else rbind (rlift PyErr (resolve_round cur (r_solution R)))
        (\<lambda>r. case r of
           Inl level \<Rightarrow>
             rmap (\<lambda>R'. (cur, if cur \<noteq> orig then add_incompatibility cur R' else R'))
               (lift_solution (backtrack level) R)
         | Inr next \<Rightarrow> resolve_loop n orig next R))"

definition resolve_conflict ::
  "nat \<Rightarrow> 'v incompatibility \<Rightarrow> 'v resolver \<Rightarrow> 'v resolver_error + ('v incompatibility \<times> 'v resolver)" where
  "resolve_conflict n i R = resolve_loop n i i R"

section \<open>The propagation loop\<close>

fun incompatibilities_of :: "'v propagation \<Rightarrow> 'v resolver \<Rightarrow> 'v incompatibility list" where
  "incompatibilities_of (PSubject p) R = r_incompatibilities R p"
| "incompatibilities_of PNone R = []"
| "incompatibilities_of (PConflict i) R = []"

text \<open>
  The inner \<open>for\<close> loop reads a list that conflict resolution may append to, so it is an
  index into the list as it is at each step.
\<close>

definition propagate_one ::
  "nat \<Rightarrow> 'v incompatibility \<Rightarrow> 'v resolver \<Rightarrow> 'v resolver_error + ('v propagation list \<times> 'v resolver)" where
  "propagate_one n i R =
     rbind (propagate_incompatibility i R)
       (\<lambda>(r, R1). case r of
          PConflict c \<Rightarrow>
            rbind (resolve_conflict n i R1)
              (\<lambda>(root, R2). rmap (\<lambda>(r2, R3). ([r2], R3)) (propagate_incompatibility root R2))
        | PSubject p \<Rightarrow> Inr ([PSubject p], R1)
        | PNone \<Rightarrow> Inr ([], R1))"

fun propagate_for ::
  "nat \<Rightarrow> 'v propagation \<Rightarrow> nat \<Rightarrow> 'v propagation list \<Rightarrow> 'v resolver
   \<Rightarrow> 'v resolver_error + ('v propagation list \<times> 'v resolver)" where
  "propagate_for 0 s k changed R = Inl OutOfFuel"
| "propagate_for (Suc n) s k changed R =
     (if length (incompatibilities_of s R) \<le> k then Inr (changed, R)
      else rbind (propagate_one n (incompatibilities_of s R ! k) R)
        (\<lambda>(new, R'). propagate_for n s (Suc k) (changed @ new) R'))"

fun propagate_loop ::
  "nat \<Rightarrow> 'v propagation list \<Rightarrow> 'v resolver \<Rightarrow> 'v resolver_error + 'v resolver" where
  "propagate_loop 0 changed R = Inl OutOfFuel"
| "propagate_loop (Suc n) [] R = Inr R"
| "propagate_loop (Suc n) (s # changed) R =
     rbind (propagate_for n s 0 changed R) (\<lambda>(changed', R'). propagate_loop n changed' R')"

definition propagate :: "nat \<Rightarrow> string \<Rightarrow> 'v resolver \<Rightarrow> 'v resolver_error + 'v resolver" where
  "propagate n p R = propagate_loop n [PSubject p] R"

section \<open>Choosing a package version\<close>

definition is_conflict :: "'v incompatibility \<Rightarrow> 'v partial_solution \<Rightarrow> py_error + bool" where
  "is_conflict i S =
     rmap (\<lambda>sats. (\<forall>b \<in> set sats. b) \<or> (\<forall>t \<in> set (terms i). subject t = subject (hd (terms i))))
       (rmap_list (\<lambda>t. ps_satisfies t S) (terms i))"

text \<open>
  The loop over the new incompatibilities of a version: each is added, and \<open>_is_conflict\<close>
  is called only while no conflict was found.
\<close>

definition add_and_check ::
  "'v incompatibility \<Rightarrow> bool \<times> 'v resolver \<Rightarrow> 'v resolver_error + (bool \<times> 'v resolver)" where
  "add_and_check i = (\<lambda>(conflict, R).
     let R' = add_incompatibility i R in
     if conflict then Inr (True, R')
     else rmap (\<lambda>b. (b, R')) (rlift PyErr (is_conflict i (r_solution R'))))"

definition decide_version ::
  "'v graph_ops \<Rightarrow> string \<Rightarrow> 'v package_version \<Rightarrow> 'v resolver \<Rightarrow> 'v resolver_error + 'v resolver" where
  "decide_version ops name v R =
     rbind (lift_config (incompatibilities_for ops v) R)
       (\<lambda>(is, R1). rbind (rfold add_and_check is (False, R1))
          (\<lambda>(conflict, R2).
             if conflict then Inr R2
             else rbind (lift_config (cfg_all_versions ops name) R2)
               (\<lambda>(av, R3). lift_solution (decide (VersionConstraint name {v} True av)) R3)))"

definition add_no_versions ::
  "'v graph_ops \<Rightarrow> string \<Rightarrow> 'v tm \<Rightarrow> 'v resolver \<Rightarrow> 'v resolver_error + 'v resolver" where
  "add_no_versions ops name t R =
     rmap (\<lambda>(av, R1).
         add_incompatibility
           (Incompatibility [require name (versions t) av]
              (if av \<noteq> {} then NoVersionsCause
               else PackageNotFoundCause (exceptions_for (KName name) (cfg_graph (r_config R1))))) R1)
       (lift_config (cfg_all_versions ops name) R)"

definition choose_package_version ::
  "'v::linorder graph_ops \<Rightarrow> 'v resolver \<Rightarrow> 'v resolver_error + (string option \<times> 'v resolver)" where
  "choose_package_version ops R =
     rbind (rlift PyErr (unsatisfied (r_solution R)))
       (\<lambda>unsat.
          if unsat = [] then Inr (None, R)
          else rbind (lift_config (\<lambda>c. rmap (\<lambda>(p, vs, c'). ((p, vs), c')) (best_package ops unsat c)) R)
            (\<lambda>((name, valid), R1).
               rbind (lift_config (incompatibilities_for_package ops name) R1)
                 (\<lambda>(inc, R2).
                    case inc of
                      Some i \<Rightarrow> Inr (Some name, add_incompatibility i R2)
                    | None \<Rightarrow>
                        if valid = {} then
                          (case map_of unsat name of
                             None \<Rightarrow> Inl (PyErr KeyError)
                           | Some t \<Rightarrow> rmap (\<lambda>R3. (Some name, R3)) (add_no_versions ops name t R2))
                        else rbind (best_version_for_package name valid (r_config R2))
                          (\<lambda>v. rmap (\<lambda>R3. (Some name, R3)) (decide_version ops name v R2)))))"

section \<open>The solver\<close>

fun solve_loop ::
  "nat \<Rightarrow> 'v::linorder graph_ops \<Rightarrow> string option \<Rightarrow> 'v resolver \<Rightarrow> 'v resolver_error + 'v resolver" where
  "solve_loop 0 ops cur R = Inl OutOfFuel"
| "solve_loop (Suc n) ops None R = Inr R"
| "solve_loop (Suc n) ops (Some p) R =
     rbind (propagate n p (R\<lparr>r_loop_iterations := Suc (r_loop_iterations R)\<rparr>))
       (\<lambda>R1. rbind (choose_package_version ops R1) (\<lambda>(cur, R2). solve_loop n ops cur R2))"

definition solve :: "nat \<Rightarrow> 'v::linorder graph_ops \<Rightarrow> 'v resolver \<Rightarrow> 'v resolver_error + 'v resolver" where
  "solve n ops R = rbind (setup_root ops R) (solve_loop n ops (Some root_name))"

definition result :: "'v::linorder resolver \<Rightarrow> 'v package_version list" where
  "result R = decisions (r_solution R)"

text \<open>
  \<open>run\<close> tests \<open>self._has_run\<close> but sets \<open>self.has_run\<close>, another attribute, so the flag it
  tests stays false.
\<close>

definition run ::
  "nat \<Rightarrow> 'v::linorder graph_ops \<Rightarrow> 'v resolver \<Rightarrow> 'v resolver_error + ('v package_version list \<times> 'v resolver)" where
  "run n ops R = rmap (\<lambda>R'. (result R', R')) (if r_has_run_flag R then Inr R else solve n ops R)"

section \<open>Reading the result\<close>

definition dependency_edges_of ::
  "'v graph_ops \<Rightarrow> 'v package_version \<Rightarrow> (string \<times> string) list \<times> 'v config
   \<Rightarrow> 'v resolver_error + ((string \<times> string) list \<times> 'v config)" where
  "dependency_edges_of ops v = (\<lambda>(edges, c).
     rmap (\<lambda>(deps, c'). (edges @ map (Pair (pv_subject v)) (dict_keys deps), c'))
       (cfg_dependencies_for ops v c))"

definition get_dependency_edges_for_result ::
  "'v::linorder graph_ops \<Rightarrow> 'v resolver \<Rightarrow> 'v resolver_error + (string \<times> string) list" where
  "get_dependency_edges_for_result ops R =
     rmap fst (rfold (dependency_edges_of ops) (decisions (r_solution R)) ([], r_config R))"

end
