(* ===== verification/Trail.thy ===== *)
theory Trail
  imports Partial_Solution
begin

text \<open>
  The trail of a partial solution, seen as a list of assignments: which outcomes of a
  package it leaves possible, when it satisfies a term, and what the resolver keeps true of
  it (\<open>trail_ok\<close>). Every fact here is about lists of assignments; the theory of the
  partial solution's operations relates them to the dictionaries the code keeps.
\<close>

section \<open>Possible outcomes\<close>

definition univ :: "(string \<Rightarrow> 'v package_version set) \<Rightarrow> string \<Rightarrow> 'v package_version option set" where
  "univ av p = (if p = root_name then {None, Some ROOT} else insert None (Some ` av p))"

definition has :: "string \<Rightarrow> 'v assignment list \<Rightarrow> bool" where
  "has p as \<longleftrightarrow> (\<exists>a \<in> set as. a_subject a = p)"

definition poss ::
  "(string \<Rightarrow> 'v package_version set) \<Rightarrow> 'v assignment list \<Rightarrow> string \<Rightarrow> 'v package_version option set" where
  "poss av as p = {x \<in> univ av p. \<forall>a \<in> set as. a_subject a = p \<longrightarrow> x \<in> outcomes (a_term a)}"

definition sat_by :: "(string \<Rightarrow> 'v package_version set) \<Rightarrow> 'v assignment list \<Rightarrow> 'v tm \<Rightarrow> bool" where
  "sat_by av as t \<longleftrightarrow> has (subject t) as \<and> poss av as (subject t) \<subseteq> outcomes t"

definition num_decisions :: "'v assignment list \<Rightarrow> nat" where
  "num_decisions as = length (filter is_decision as)"

lemma outcomes_univ: "wf_tm av t \<Longrightarrow> outcomes t \<subseteq> univ av (subject t)"
  by (cases t) (auto simp: univ_def)

lemma outcomes_inverse: "wf_tm av t \<Longrightarrow> outcomes (inverse t) = univ av (subject t) - outcomes t"
  by (cases t) (auto simp: univ_def)

lemma has_simps [simp]:
  "\<not> has p []"
  "has p (as @ bs) \<longleftrightarrow> has p as \<or> has p bs"
  "has p (a # as) \<longleftrightarrow> a_subject a = p \<or> has p as"
  by (auto simp: has_def)

lemma poss_Nil [simp]: "poss av [] p = univ av p"
  by (auto simp: poss_def)

lemma poss_append: "poss av (as @ bs) p = poss av as p \<inter> poss av bs p"
  by (auto simp: poss_def)

lemma poss_snoc:
  "poss av (as @ [a]) p = (if a_subject a = p then poss av as p \<inter> outcomes (a_term a) else poss av as p)"
  by (auto simp: poss_def)

lemma poss_univ: "poss av as p \<subseteq> univ av p"
  by (auto simp: poss_def)

lemma poss_mono: "set as \<subseteq> set bs \<Longrightarrow> poss av bs p \<subseteq> poss av as p"
  by (auto simp: poss_def)

lemma has_mono: "set as \<subseteq> set bs \<Longrightarrow> has p as \<Longrightarrow> has p bs"
  by (auto simp: has_def)

lemma sat_by_mono: "set as \<subseteq> set bs \<Longrightarrow> sat_by av as t \<Longrightarrow> sat_by av bs t"
  using poss_mono has_mono unfolding sat_by_def by blast

lemma not_has_poss: "\<not> has p as \<Longrightarrow> poss av as p = univ av p"
  by (auto simp: poss_def has_def)

lemma sat_by_Nil [simp]: "\<not> sat_by av [] t"
  by (simp add: sat_by_def)

lemma num_decisions_simps [simp]:
  "num_decisions [] = 0"
  "num_decisions (as @ bs) = num_decisions as + num_decisions bs"
  "num_decisions [a] = (if is_decision a then 1 else 0)"
  by (auto simp: num_decisions_def)

section \<open>Well-formed trails\<close>

text \<open>
  An incompatibility the resolver works with: well-formed terms about known packages, one
  term per package, and the negative ones exclude some version that exists.
\<close>

definition ok_tm :: "(string \<Rightarrow> 'v package_version set) \<Rightarrow> string set \<Rightarrow> 'v tm \<Rightarrow> bool" where
  "ok_tm av N t \<longleftrightarrow> wf_tm av t \<and> subject t \<in> insert root_name N
     \<and> (is_positive t \<or> outcomes (inverse t) \<noteq> {})"

definition ok_inc :: "(string \<Rightarrow> 'v package_version set) \<Rightarrow> string set \<Rightarrow> 'v incompatibility \<Rightarrow> bool" where
  "ok_inc av N i \<longleftrightarrow> (\<forall>t \<in> set (terms i). ok_tm av N t) \<and> distinct (map subject (terms i))"

text \<open>
  What holds of an assignment \<open>a\<close> made after the trail \<open>as\<close>. A decision opens a new
  level and picks one version of an undecided package; a derivation stays on the level, is
  the inverse of a term of an incompatibility whose other terms the trail satisfies, and
  removes an outcome (or is the first assignment of its package).
\<close>

definition decision_ok :: "(string \<Rightarrow> 'v package_version set) \<Rightarrow> 'v assignment list \<Rightarrow> 'v assignment \<Rightarrow> bool" where
  "decision_ok av as a \<longleftrightarrow>
     a_level a = Suc (num_decisions as)
     \<and> (\<forall>b \<in> set as. is_decision b \<longrightarrow> a_subject b \<noteq> a_subject a)
     \<and> (if as = [] then a_term a = RootConstraint True
        else \<exists>v \<in> av (a_subject a). a_term a = VersionConstraint (a_subject a) {v} True (av (a_subject a)))"

definition derivation_ok ::
  "(string \<Rightarrow> 'v package_version set) \<Rightarrow> string set \<Rightarrow> 'v assignment list \<Rightarrow> 'v assignment \<Rightarrow> 'v incompatibility cause \<Rightarrow> bool" where
  "derivation_ok av N as a c \<longleftrightarrow>
     as \<noteq> [] \<and> a_level a = num_decisions as \<and> \<not> sat_by av as (a_term a)
     \<and> (\<exists>j u. c = IncompatibilityCause j \<and> ok_inc av N j \<and> u \<in> set (terms j) \<and> a_term a = inverse u
           \<and> (\<forall>t \<in> set (terms j). t \<noteq> u \<longrightarrow> sat_by av as t))"

definition step_ok ::
  "(string \<Rightarrow> 'v package_version set) \<Rightarrow> string set \<Rightarrow> 'v assignment list \<Rightarrow> 'v assignment \<Rightarrow> bool" where
  "step_ok av N as a \<longleftrightarrow>
     a_index a = length as \<and> wf_tm av (a_term a) \<and> a_subject a \<in> insert root_name N
     \<and> poss av as (a_subject a) \<inter> outcomes (a_term a) \<noteq> {}
     \<and> (case a_cause a of None \<Rightarrow> decision_ok av as a | Some c \<Rightarrow> derivation_ok av N as a c)"

definition trail_ok :: "(string \<Rightarrow> 'v package_version set) \<Rightarrow> string set \<Rightarrow> 'v assignment list \<Rightarrow> bool" where
  "trail_ok av N as \<longleftrightarrow> (\<forall>k < length as. step_ok av N (take k as) (as ! k))"

lemma trail_ok_Nil [simp]: "trail_ok av N []"
  by (simp add: trail_ok_def)

lemma trail_ok_snoc [simp]: "trail_ok av N (as @ [a]) \<longleftrightarrow> trail_ok av N as \<and> step_ok av N as a"
  by (auto simp: trail_ok_def nth_append less_Suc_eq)

lemma trail_ok_take: "trail_ok av N as \<Longrightarrow> trail_ok av N (take m as)"
  by (auto simp: trail_ok_def min_def)

lemma trail_ok_nth: "trail_ok av N as \<Longrightarrow> k < length as \<Longrightarrow> step_ok av N (take k as) (as ! k)"
  by (simp add: trail_ok_def)

lemma step_ok_poss_nonempty: "step_ok av N as a \<Longrightarrow> poss av (as @ [a]) (a_subject a) \<noteq> {}"
  by (auto simp: step_ok_def poss_snoc)

lemma univ_nonempty [simp]: "univ av p \<noteq> {}"
  by (simp add: univ_def)

lemma trail_poss_nonempty: "trail_ok av N as \<Longrightarrow> poss av as p \<noteq> {}"
proof (induction as rule: rev_induct)
  case (snoc a as)
  then show ?case by (cases "a_subject a = p") (auto simp: step_ok_def poss_snoc)
qed simp

lemma trail_wf: "trail_ok av N as \<Longrightarrow> a \<in> set as \<Longrightarrow> wf_tm av (a_term a) \<and> a_subject a \<in> insert root_name N"
  by (induction as rule: rev_induct) (auto simp: step_ok_def)

lemma step_ok_level: "step_ok av N as a \<Longrightarrow> a_level a = num_decisions (as @ [a])"
  by (auto simp: step_ok_def decision_ok_def derivation_ok_def is_decision_def split: option.splits)

lemma trail_level: "trail_ok av N as \<Longrightarrow> k < length as \<Longrightarrow> a_level (as ! k) = num_decisions (take (Suc k) as)"
  using step_ok_level [of av N "take k as" "as ! k"] by (simp add: trail_ok_nth take_Suc_conv_app_nth)

lemma num_decisions_take_mono: "j \<le> k \<Longrightarrow> num_decisions (take j as) \<le> num_decisions (take k as)"
  by (metis le_add1 le_add_diff_inverse num_decisions_simps(2) take_add)

lemma trail_level_mono:
  "trail_ok av N as \<Longrightarrow> j \<le> k \<Longrightarrow> k < length as \<Longrightarrow> a_level (as ! j) \<le> a_level (as ! k)"
  by (simp add: trail_level num_decisions_take_mono)

lemma trail_index: "trail_ok av N as \<Longrightarrow> k < length as \<Longrightarrow> a_index (as ! k) = k"
  using trail_ok_nth [of av N as k] by (simp add: step_ok_def)

lemma trail_first:
  assumes "trail_ok av N as" "as \<noteq> []"
  shows "a_term (as ! 0) = RootConstraint True" "a_level (as ! 0) = 1" "is_decision (as ! 0)"
  using trail_ok_nth [OF assms(1), of 0] assms(2)
  by (auto simp: step_ok_def decision_ok_def derivation_ok_def is_decision_def split: option.splits)

lemma trail_level_pos: "trail_ok av N as \<Longrightarrow> k < length as \<Longrightarrow> 1 \<le> a_level (as ! k)"
  using trail_level_mono [of av N as 0 k] trail_first(2) [of av N as] by fastforce

lemma trail_level_le: "trail_ok av N as \<Longrightarrow> k < length as \<Longrightarrow> a_level (as ! k) \<le> num_decisions as"
  using num_decisions_take_mono [of "Suc k" "length as" as] by (simp add: trail_level)

lemma trail_root:
  assumes "trail_ok av N as" "as \<noteq> []"
  shows "poss av as root_name = {Some ROOT}" "has root_name as"
proof -
  have mem: "as ! 0 \<in> set as" using assms(2) by simp
  have sub: "a_subject (as ! 0) = root_name" using trail_first(1) [OF assms] by (simp add: a_subject_def)
  then show "has root_name as" using mem by (auto simp: has_def)
  have "poss av as root_name \<subseteq> {Some ROOT}"
    using mem sub trail_first(1) [OF assms] by (auto simp: poss_def)
  then show "poss av as root_name = {Some ROOT}"
    using trail_poss_nonempty [OF assms(1), of root_name] by auto
qed

text \<open>A decided package has one outcome left, and no later assignment.\<close>

lemma decision_poss:
  assumes "trail_ok av N as" "a \<in> set as" "is_decision a" "x \<in> poss av as (a_subject a)"
  shows "x \<in> outcomes (a_term a)"
  using assms by (auto simp: poss_def)

end
