(* ===== verification/Solution_Invariant.thy ===== *)
theory Solution_Invariant
  imports Trail
begin

text \<open>
  The partial solution against its trail: the dictionary \<open>_terms\<close> is what the trail leaves
  possible of each package, \<open>_decisions\<close> is the decisions of the trail, and
  \<open>decide\<close>, \<open>derive\<close>, \<open>backtrack\<close>, \<open>satisfier\<close>, \<open>satisfies\<close> and
  \<open>is_incompatible\<close> do on the dictionaries what their names say about the trail.
\<close>

fun term_for ::
  "(string \<Rightarrow> 'v package_version set) \<Rightarrow> 'v assignment list \<Rightarrow> string \<Rightarrow> 'v tm option option \<Rightarrow> bool" where
  "term_for av as p None \<longleftrightarrow> \<not> has p as"
| "term_for av as p (Some None) \<longleftrightarrow> False"
| "term_for av as p (Some (Some t)) \<longleftrightarrow>
     has p as \<and> wf_tm av t \<and> subject t = p \<and> outcomes t = poss av as p"

definition terms_for ::
  "(string \<Rightarrow> 'v package_version set) \<Rightarrow> 'v assignment list \<Rightarrow> (string, 'v tm option) dict \<Rightarrow> bool" where
  "terms_for av as d \<longleftrightarrow> is_dict d \<and> (\<forall>p. term_for av as p (map_of d p))"

definition decisions_for :: "'v assignment list \<Rightarrow> (string, 'v tm) dict \<Rightarrow> bool" where
  "decisions_for as d \<longleftrightarrow> is_dict d \<and>
     (\<forall>p t. map_of d p = Some t \<longleftrightarrow> (\<exists>a \<in> set as. is_decision a \<and> a_subject a = p \<and> a_term a = t))"

definition ps_ok ::
  "(string \<Rightarrow> 'v package_version set) \<Rightarrow> string set \<Rightarrow> 'v partial_solution \<Rightarrow> bool" where
  "ps_ok av N S \<longleftrightarrow> trail_ok av N (ps_assignments S)
     \<and> terms_for av (ps_assignments S) (ps_terms S)
     \<and> decisions_for (ps_assignments S) (ps_decisions S)"

section \<open>Terms of a trail\<close>

lemma term_for_cong:
  assumes "term_for av as p x" "has p as = has p bs" "poss av as p = poss av bs p"
  shows "term_for av bs p x"
  using assms by (cases x; cases "the x") simp_all

lemma terms_for_cong:
  assumes "terms_for av as d" "set as = set bs"
  shows "terms_for av bs d"
  using assms term_for_cong [of av as _ _ bs] by (auto simp: terms_for_def has_def poss_def)

lemma terms_for_Nil [simp]: "terms_for av [] []"
  by (simp add: terms_for_def)

lemma terms_forE:
  assumes "terms_for av as d"
  obtains (Absent) "map_of d p = None" "\<not> has p as"
  | (Present) t where "map_of d p = Some (Some t)" "has p as" "wf_tm av t" "subject t = p" "outcomes t = poss av as p"
proof -
  have tf: "term_for av as p (map_of d p)" using assms by (simp add: terms_for_def)
  show thesis
  proof (cases "map_of d p")
    case None
    then show thesis using Absent tf by simp
  next
    case (Some x)
    with tf obtain t where "x = Some t" by (cases x) simp_all
    with Some tf show thesis by (intro Present [of t]) simp_all
  qed
qed

lemma current_term_eq:
  assumes "terms_for av as (ps_terms S)"
  obtains (Absent) "current_term S p = None" "\<not> has p as"
  | (Present) t where "current_term S p = Some t" "has p as" "wf_tm av t" "subject t = p" "outcomes t = poss av as p"
proof (cases rule: terms_forE [OF assms, of p])
  case 1
  then show thesis by (intro Absent) (simp_all add: current_term_def)
next
  case (2 t)
  then show thesis by (intro Present [of t]) (simp_all add: current_term_def)
qed

lemma terms_for_update:
  assumes "terms_for av as d" "wf_tm av u" "subject u = a_subject a" "outcomes u = poss av (as @ [a]) (a_subject a)"
  shows "terms_for av (as @ [a]) (AList.update (a_subject a) (Some u) d)"
proof -
  have "term_for av (as @ [a]) p (map_of (AList.update (a_subject a) (Some u) d) p)" for p
    using assms term_for_cong [of av as p "map_of d p" "as @ [a]"]
    by (cases "p = a_subject a") (auto simp: terms_for_def poss_snoc)
  then show ?thesis using assms(1) by (auto simp: terms_for_def)
qed

lemma register_ok:
  assumes d: "terms_for av bs (ps_terms S)" and wf: "wf_tm av (a_term a)"
    and ne: "poss av bs (a_subject a) \<inter> outcomes (a_term a) \<noteq> {}"
  shows "\<exists>d'. register a S = Inr (S\<lparr>ps_terms := d'\<rparr>) \<and> terms_for av (bs @ [a]) d'"
proof (cases rule: current_term_eq [OF d, of "a_subject a"])
  case 1
  have "outcomes (a_term a) = poss av (bs @ [a]) (a_subject a)"
    using outcomes_univ [OF wf] 1(2) by (auto simp: poss_snoc not_has_poss a_subject_def)
  with 1 terms_for_update [OF d wf, of a] show ?thesis
    by (auto simp: register_def a_subject_def)
next
  case (2 t)
  obtain r where r: "intersect t (a_term a) = Inr r" "r = None \<longleftrightarrow> outcomes t \<inter> outcomes (a_term a) = {}"
    "\<And>u. r = Some u \<Longrightarrow> wf_tm av u \<and> subject u = subject t \<and> outcomes u = outcomes t \<inter> outcomes (a_term a)"
    using intersect_wf [OF 2(3) wf] 2(4) by (auto simp: a_subject_def)
  with ne 2 obtain u where u: "r = Some u" by (cases r) auto
  have "terms_for av (bs @ [a]) (AList.update (a_subject a) (Some u) (ps_terms S))"
    by (rule terms_for_update [OF d]) (use r(3) [OF u] 2 in \<open>auto simp: poss_snoc\<close>)
  with 2 r u show ?thesis by (auto simp: register_def)
qed

lemma rfold_register_ok:
  assumes "terms_for av bs (ps_terms S)" "\<forall>a \<in> set cs. wf_tm av (a_term a)" "\<And>p. poss av (bs @ cs) p \<noteq> {}"
  shows "\<exists>d'. rfold register cs S = Inr (S\<lparr>ps_terms := d'\<rparr>) \<and> terms_for av (bs @ cs) d'"
  using assms
proof (induction cs arbitrary: bs S)
  case Nil
  then show ?case by (intro exI [of _ "ps_terms S"]) simp
next
  case (Cons a cs)
  have "poss av bs (a_subject a) \<inter> outcomes (a_term a) \<noteq> {}"
    using Cons.prems(3) [of "a_subject a"] by (auto simp: poss_def)
  then obtain d1 where d1: "register a S = Inr (S\<lparr>ps_terms := d1\<rparr>)" "terms_for av (bs @ [a]) d1"
    using register_ok [OF Cons.prems(1)] Cons.prems(2) by auto
  then show ?case using Cons.IH [of "bs @ [a]" "S\<lparr>ps_terms := d1\<rparr>"] Cons.prems(2,3) by auto
qed

section \<open>Decisions of a trail\<close>

lemma step_decided:
  assumes "step_ok av N as b" "trail_ok av N as" "a \<in> set as" "is_decision a"
  shows "a_subject b \<noteq> a_subject a"
proof
  assume eq: "a_subject b = a_subject a"
  show False
  proof (cases "a_cause b")
    case None
    with assms eq show False by (auto simp: step_ok_def decision_ok_def)
  next
    case (Some c)
    obtain x where x: "x \<in> poss av as (a_subject b)" "x \<in> outcomes (a_term b)"
      using assms(1) by (auto simp: step_ok_def)
    obtain k where k: "k < length as" "as ! k = a" using assms(3) by (auto simp: in_set_conv_nth)
    have "\<exists>y. outcomes (a_term a) \<subseteq> {y}"
      using trail_ok_nth [OF assms(2) k(1)] k(2) assms(4)
      by (auto simp: step_ok_def decision_ok_def is_decision_def split: if_splits)
    moreover have "poss av as (a_subject b) \<subseteq> outcomes (a_term a)" using assms(3) eq by (auto simp: poss_def)
    ultimately have "poss av as (a_subject b) \<subseteq> outcomes (a_term b)" using x by blast
    moreover have "has (a_subject b) as" using assms(3) eq by (auto simp: has_def)
    ultimately show False using assms(1) Some by (auto simp: step_ok_def derivation_ok_def sat_by_def a_subject_def)
  qed
qed

lemma decided_last:
  assumes "trail_ok av N as" "i < j" "j < length as" "is_decision (as ! i)"
  shows "a_subject (as ! j) \<noteq> a_subject (as ! i)"
proof (rule step_decided [OF trail_ok_nth [OF assms(1,3)] trail_ok_take [OF assms(1)] _ assms(4)])
  show "as ! i \<in> set (take j as)" using assms(2,3) by (auto simp: in_set_conv_nth intro!: exI [of _ i])
qed

lemma decisions_for_length:
  assumes "trail_ok av N as" "decisions_for as d"
  shows "length d = num_decisions as"
proof -
  have "distinct (map a_subject (filter is_decision as))" using assms(1)
  proof (induction as rule: rev_induct)
    case (snoc a as)
    then show ?case using step_decided [of av N as a] by auto
  qed simp
  moreover have "fst ` set d = set (map a_subject (filter is_decision as))"
  proof (rule set_eqI)
    fix p
    have "p \<in> fst ` set d \<longleftrightarrow> (\<exists>t. map_of d p = Some t)"
      by (simp add: dom_map_of_conv_image_fst [symmetric] dom_def)
    also have "\<dots> \<longleftrightarrow> (\<exists>a \<in> set as. is_decision a \<and> a_subject a = p)"
      using assms(2) unfolding decisions_for_def by blast
    finally show "p \<in> fst ` set d \<longleftrightarrow> p \<in> set (map a_subject (filter is_decision as))" by auto
  qed
  ultimately have "length (map fst d) = length (map a_subject (filter is_decision as))"
    using assms(2) distinct_card [of "map fst d"] distinct_card [of "map a_subject (filter is_decision as)"]
    by (simp add: decisions_for_def)
  then show ?thesis by (simp add: num_decisions_def)
qed

lemma ps_decision_level: "ps_ok av N S \<Longrightarrow> decision_level S = num_decisions (ps_assignments S)"
  by (auto simp: ps_ok_def decision_level_def intro: decisions_for_length)

section \<open>Queries\<close>

lemma ps_satisfies_ok:
  assumes "ps_ok av N S" "wf_tm av t"
  shows "ps_satisfies t S = Inr (sat_by av (ps_assignments S) t)"
proof -
  have tf: "terms_for av (ps_assignments S) (ps_terms S)" using assms(1) by (simp add: ps_ok_def)
  show ?thesis
    by (cases rule: current_term_eq [OF tf, of "subject t"])
      (use assms(2) in \<open>auto simp: ps_satisfies_def sat_by_def satisfies_wf\<close>)
qed

lemma ps_is_incompatible_ok:
  assumes "ps_ok av N S" "wf_tm av t"
  shows "ps_is_incompatible t S =
    Inr (has (subject t) (ps_assignments S) \<and> poss av (ps_assignments S) (subject t) \<inter> outcomes t = {})"
proof -
  have tf: "terms_for av (ps_assignments S) (ps_terms S)" using assms(1) by (simp add: ps_ok_def)
  show ?thesis
  proof (cases rule: current_term_eq [OF tf, of "subject t"])
    case 1
    then show ?thesis by (simp add: ps_is_incompatible_def)
  next
    case (2 u)
    show ?thesis
    proof (cases "outcomes u \<inter> outcomes t = {}")
      case True
      with 2 assms(2) tm.inter_None [of av u t] show ?thesis by (simp add: ps_is_incompatible_def)
    next
      case False
      with 2 assms(2) tm.inter_Some [of av u t] show ?thesis by (auto simp: ps_is_incompatible_def)
    qed
  qed
qed

text \<open>The satisfier of a term is the assignment at which the trail comes to satisfy it.\<close>

lemma satisfier_loop_ok:
  assumes "\<forall>a \<in> set xs. wf_tm av (a_term a)" "wf_tm av t" "poss av (ys @ xs) (subject t) \<noteq> {}"
    and "\<not> sat_by av ys t" "sat_by av (ys @ xs) t"
    and "case acc of None \<Rightarrow> \<not> has (subject t) ys
         | Some u \<Rightarrow> has (subject t) ys \<and> wf_tm av u \<and> subject u = subject t \<and> outcomes u = poss av ys (subject t)"
  shows "\<exists>k < length xs. satisfier_loop t acc (filter (\<lambda>a. a_subject a = subject t) xs) = Inr (Some (xs ! k))
     \<and> a_subject (xs ! k) = subject t \<and> sat_by av (ys @ take (Suc k) xs) t \<and> \<not> sat_by av (ys @ take k xs) t"
     (is "?P ys acc xs")
  using assms
proof (induction xs arbitrary: ys acc)
  case Nil
  then show ?case by simp
next
  case (Cons a xs)
  show ?case
  proof (cases "a_subject a = subject t")
    case False
    have "\<not> sat_by av (ys @ [a]) t" using Cons.prems(4) False by (auto simp: sat_by_def poss_snoc)
    moreover have "case acc of None \<Rightarrow> \<not> has (subject t) (ys @ [a]) | Some u \<Rightarrow> has (subject t) (ys @ [a]) \<and>
        wf_tm av u \<and> subject u = subject t \<and> outcomes u = poss av (ys @ [a]) (subject t)"
      using Cons.prems(6) False by (auto simp: poss_snoc split: option.splits)
    ultimately have "?P (ys @ [a]) acc xs"
      by (intro Cons.IH) (use Cons.prems(1-3,5) in simp_all)
    then obtain k where k: "k < length xs" "satisfier_loop t acc (filter (\<lambda>a. a_subject a = subject t) xs) = Inr (Some (xs ! k))"
      "a_subject (xs ! k) = subject t" "sat_by av ((ys @ [a]) @ take (Suc k) xs) t" "\<not> sat_by av ((ys @ [a]) @ take k xs) t"
      by blast
    then show ?thesis using False by (intro exI [of _ "Suc k"]) simp
  next
    case True
    have ne: "poss av (ys @ [a]) (subject t) \<noteq> {}"
      using Cons.prems(3) poss_mono [of "ys @ [a]" "ys @ a # xs" av "subject t"] by auto
    obtain u where u: "(case acc of None \<Rightarrow> Inr (Some (a_term a)) | Some u \<Rightarrow> intersect u (a_term a)) = Inr (Some u)"
      "wf_tm av u" "subject u = subject t" "outcomes u = poss av (ys @ [a]) (subject t)"
    proof (cases acc)
      case None
      then show thesis using that [of "a_term a"] Cons.prems(1,6) True outcomes_univ [of av "a_term a"]
        by (auto simp: poss_snoc not_has_poss a_subject_def)
    next
      case (Some w)
      then have w: "wf_tm av w" "subject w = subject t" "outcomes w = poss av ys (subject t)" using Cons.prems(6) by auto
      obtain r where r: "intersect w (a_term a) = Inr r" "r = None \<longleftrightarrow> outcomes w \<inter> outcomes (a_term a) = {}"
        "\<And>u. r = Some u \<Longrightarrow> wf_tm av u \<and> subject u = subject w \<and> outcomes u = outcomes w \<inter> outcomes (a_term a)"
        using intersect_wf [OF w(1), of "a_term a"] Cons.prems(1) True w(2) by (auto simp: a_subject_def)
      obtain u where "r = Some u" using r(2) ne w(3) True by (cases r) (auto simp: poss_snoc)
      then show thesis using that [of u] r Some w True by (auto simp: poss_snoc)
    qed
    have sat: "satisfies u t = Inr (sat_by av (ys @ [a]) t)"
      using u True Cons.prems(2) by (simp add: satisfies_wf sat_by_def)
    show ?thesis
    proof (cases "sat_by av (ys @ [a]) t")
      case sat_now: True
      then show ?thesis using True u(1) sat Cons.prems(4) by (intro exI [of _ 0]) simp
    next
      case False
      have "?P (ys @ [a]) (Some u) xs"
        by (intro Cons.IH) (use Cons.prems(1-3,5) u True False in simp_all)
      then obtain k where k: "k < length xs" "satisfier_loop t (Some u) (filter (\<lambda>a. a_subject a = subject t) xs) = Inr (Some (xs ! k))"
        "a_subject (xs ! k) = subject t" "sat_by av ((ys @ [a]) @ take (Suc k) xs) t" "\<not> sat_by av ((ys @ [a]) @ take k xs) t"
        by blast
      then show ?thesis using False True u(1) sat by (intro exI [of _ "Suc k"]) simp
    qed
  qed
qed

lemma satisfier_ok:
  assumes "ps_ok av N S" "wf_tm av t" "sat_by av (ps_assignments S) t"
  obtains k where "k < length (ps_assignments S)" "satisfier t S = Inr (Some (ps_assignments S ! k))"
    "a_subject (ps_assignments S ! k) = subject t"
    "sat_by av (take (Suc k) (ps_assignments S)) t" "\<not> sat_by av (take k (ps_assignments S)) t"
proof -
  have tr: "trail_ok av N (ps_assignments S)" using assms(1) by (simp add: ps_ok_def)
  show thesis
    using satisfier_loop_ok [of "ps_assignments S" av t "[]" None] trail_wf [OF tr] trail_poss_nonempty [OF tr]
      assms(2,3) that by (auto simp: satisfier_def)
qed

section \<open>Updates\<close>

lemma decide_ok:
  assumes ok: "ps_ok av N S"
    and step: "step_ok av N (ps_assignments S)
      \<lparr>a_term = t, a_level = Suc (num_decisions (ps_assignments S)), a_index = length (ps_assignments S), a_cause = None\<rparr>"
  obtains S' where "decide t S = Inr S'" "ps_ok av N S'"
    "ps_assignments S' = ps_assignments S @
      [\<lparr>a_term = t, a_level = Suc (num_decisions (ps_assignments S)), a_index = length (ps_assignments S), a_cause = None\<rparr>]"
proof -
  let ?as = "ps_assignments S"
  let ?a = "\<lparr>a_term = t, a_level = Suc (num_decisions ?as), a_index = length ?as, a_cause = None\<rparr>"
  have new: "\<forall>b \<in> set ?as. is_decision b \<longrightarrow> a_subject b \<noteq> subject t"
    using step by (auto simp: step_ok_def decision_ok_def a_subject_def)
  have dec: "decisions_for ?as (ps_decisions S)" using ok by (simp add: ps_ok_def)
  have none: "map_of (ps_decisions S) (subject t) = None"
  proof (rule ccontr)
    assume "map_of (ps_decisions S) (subject t) \<noteq> None"
    then obtain u where "map_of (ps_decisions S) (subject t) = Some u" by blast
    with dec new show False unfolding decisions_for_def by blast
  qed
  let ?D = "AList.update (subject t) t (ps_decisions S)"
  have dec': "decisions_for (?as @ [?a]) ?D"
  proof -
    have "map_of ?D p = Some u \<longleftrightarrow> (\<exists>a \<in> set (?as @ [?a]). is_decision a \<and> a_subject a = p \<and> a_term a = u)" for p u
      using dec new unfolding decisions_for_def
      by (cases "p = subject t") (auto simp: is_decision_def a_subject_def)
    then show ?thesis using dec by (simp add: decisions_for_def)
  qed
  have lvl: "length ?D = Suc (num_decisions ?as)"
    using ps_decision_level [OF ok] none by (simp add: decision_level_def length_keys_update_new)
  define S1 where "S1 = (if ps_backtracking S
      then S\<lparr>ps_attempted := Suc (ps_attempted S), ps_backtracking := False\<rparr> else S)"
  have same: "ps_assignments S1 = ?as" "ps_decisions S1 = ps_decisions S" "ps_terms S1 = ps_terms S"
    by (simp_all add: S1_def)
  have dd: "decide t S = register ?a (S1\<lparr>ps_decisions := ?D, ps_assignments := ?as @ [?a]\<rparr>)"
    using lvl same by (simp add: decide_def Let_def S1_def [symmetric] decision_level_def)
  obtain d' where d': "decide t S = Inr (S1\<lparr>ps_decisions := ?D, ps_assignments := ?as @ [?a], ps_terms := d'\<rparr>)"
    "terms_for av (?as @ [?a]) d'"
    using register_ok [of av ?as "S1\<lparr>ps_decisions := ?D, ps_assignments := ?as @ [?a]\<rparr>" ?a] step ok same
    by (auto simp: dd step_ok_def ps_ok_def)
  show thesis
    by (rule that [OF d'(1)]) (use d' dec' step ok in \<open>simp_all add: ps_ok_def\<close>)
qed

lemma derive_ok:
  assumes ok: "ps_ok av N S"
    and step: "step_ok av N (ps_assignments S)
      \<lparr>a_term = t, a_level = num_decisions (ps_assignments S), a_index = length (ps_assignments S), a_cause = Some c\<rparr>"
  obtains S' where "derive t c S = Inr S'" "ps_ok av N S'"
    "ps_assignments S' = ps_assignments S @
      [\<lparr>a_term = t, a_level = num_decisions (ps_assignments S), a_index = length (ps_assignments S), a_cause = Some c\<rparr>]"
proof -
  let ?as = "ps_assignments S"
  let ?a = "\<lparr>a_term = t, a_level = num_decisions ?as, a_index = length ?as, a_cause = Some c\<rparr>"
  obtain d' where d': "derive t c S = Inr (S\<lparr>ps_assignments := ?as @ [?a], ps_terms := d'\<rparr>)"
    "terms_for av (?as @ [?a]) d'"
    using register_ok [of av ?as "S\<lparr>ps_assignments := ?as @ [?a]\<rparr>" ?a] step ok
    by (auto simp: derive_def ps_decision_level [OF ok] step_ok_def ps_ok_def Let_def)
  have "decisions_for (?as @ [?a]) (ps_decisions S)"
    using ok by (simp add: ps_ok_def decisions_for_def is_decision_def)
  then show thesis
    by (intro that [OF d'(1)]) (use d' step ok in \<open>simp_all add: ps_ok_def\<close>)
qed

lemma pop_assignments_eq:
  "\<exists>a \<in> set xs. a_level a \<le> l \<Longrightarrow>
   pop_assignments l xs R = Inr (dropWhile (\<lambda>a. l < a_level a) xs, R \<union> a_subject ` set (takeWhile (\<lambda>a. l < a_level a) xs))"
proof (induction xs arbitrary: R)
  case (Cons a xs)
  then show ?case using Cons.IH [of "insert (a_subject a) R"] by (cases "l < a_level a") auto
qed simp

text \<open>Backtracking keeps the assignments of the levels up to \<open>l\<close>: a prefix of the trail.\<close>

lemma trail_levels_split:
  assumes tr: "trail_ok av N as"
  obtains m where "filter (\<lambda>a. a_level a \<le> l) as = take m as" "m \<le> length as"
    "rev (dropWhile (\<lambda>a. l < a_level a) (rev as)) = take m as"
    "set (takeWhile (\<lambda>a. l < a_level a) (rev as)) = set (drop m as)"
    "\<And>k. k < length as \<Longrightarrow> k < m \<longleftrightarrow> a_level (as ! k) \<le> l"
proof -
  let ?K = "rev (dropWhile (\<lambda>a. l < a_level a) (rev as))"
  let ?D = "rev (takeWhile (\<lambda>a. l < a_level a) (rev as))"
  define m where "m = length ?K"
  have as: "as = ?K @ ?D" by (metis rev_append rev_rev_ident takeWhile_dropWhile_id)
  have take: "?K = take m as" by (metis as append_eq_conv_conj m_def)
  have drop: "?D = drop m as" by (metis as append_eq_conv_conj m_def)
  have le: "m \<le> length as" unfolding m_def using length_dropWhile_le [of _ "rev as"] by simp
  have iff: "k < m \<longleftrightarrow> a_level (as ! k) \<le> l" if k: "k < length as" for k
  proof
    assume km: "k < m"
    then have ne: "dropWhile (\<lambda>a. l < a_level a) (rev as) \<noteq> []"
      by (metis length_greater_0_conv length_rev less_nat_zero_code m_def neq0_conv)
    have "take m as \<noteq> []" using km le by auto
    then have "as ! (m - 1) = last ?K" using le by (simp add: take last_conv_nth)
    then have "as ! (m - 1) = hd (dropWhile (\<lambda>a. l < a_level a) (rev as))" using ne by (simp add: last_rev)
    then have "a_level (as ! (m - 1)) \<le> l" using hd_dropWhile [OF ne] by simp
    moreover have "a_level (as ! k) \<le> a_level (as ! (m - 1))"
      by (rule trail_level_mono [OF tr]) (use km le in auto)
    ultimately show "a_level (as ! k) \<le> l" by simp
  next
    assume lk: "a_level (as ! k) \<le> l"
    show "k < m"
    proof (rule ccontr)
      assume "\<not> k < m"
      then have "as ! k \<in> set (drop m as)" using k
        by (auto simp: in_set_conv_nth intro!: exI [of _ "k - m"])
      then have "l < a_level (as ! k)" by (auto simp: drop [symmetric] dest: set_takeWhileD)
      with lk show False by simp
    qed
  qed
  have "filter (\<lambda>a. a_level a \<le> l) (take m as) = take m as"
    using iff by (auto simp: filter_id_conv in_set_conv_nth)
  moreover have "filter (\<lambda>a. a_level a \<le> l) (drop m as) = []"
    by (auto simp: drop [symmetric] filter_empty_conv dest: set_takeWhileD)
  ultimately have "filter (\<lambda>a. a_level a \<le> l) as = take m as"
    by (metis append_Nil2 append_take_drop_id filter_append)
  moreover have "set (takeWhile (\<lambda>a. l < a_level a) (rev as)) = set (drop m as)" by (simp add: drop [symmetric])
  ultimately show thesis by (rule that [OF _ le take _ iff])
qed


lemma filter_level_num_decisions:
  assumes "trail_ok av N as"
  shows "num_decisions (filter (\<lambda>a. a_level a \<le> l) as) = min l (num_decisions as)"
  using assms
proof (induction as rule: rev_induct)
  case (snoc a as)
  then show ?case using step_ok_level [of av N as a] by (auto simp: min_def)
qed simp

lemma set_take_drop: "set xs = set (take m xs) \<union> set (drop m xs)"
  by (metis append_take_drop_id set_append)

lemma decisions_for_take:
  assumes tr: "trail_ok av N as" and dec: "decisions_for as d"
  shows "decisions_for (take m as) (dict_drop (a_subject ` set (drop m as)) d)"
proof -
  have not_later: "a_subject a \<notin> a_subject ` set (drop m as)" if "a \<in> set (take m as)" "is_decision a" for a
  proof
    assume "a_subject a \<in> a_subject ` set (drop m as)"
    then obtain j where j: "m + j < length as" "a_subject (as ! (m + j)) = a_subject a"
      by (force simp: in_set_conv_nth less_diff_conv add.commute)
    from that(1) obtain i where "i < m" "i < length as" "as ! i = a" by (auto simp: in_set_conv_nth)
    with decided_last [OF tr, of i "m + j"] j that(2) show False by auto
  qed
  have "map_of (dict_drop (a_subject ` set (drop m as)) d) p = Some t
      \<longleftrightarrow> (\<exists>a \<in> set (take m as). is_decision a \<and> a_subject a = p \<and> a_term a = t)" for p t
  proof -
    have "map_of d p = Some t \<longleftrightarrow> (\<exists>a \<in> set (take m as) \<union> set (drop m as). is_decision a \<and> a_subject a = p \<and> a_term a = t)"
      using dec unfolding decisions_for_def set_take_drop [of as m] by blast
    then show ?thesis using not_later by (auto simp del: map_of_eq_Some_iff)
  qed
  then show ?thesis using dec by (simp add: decisions_for_def)
qed

lemma backtrack_ok:
  assumes ok: "ps_ok av N S" and ne: "ps_assignments S \<noteq> []" and l: "1 \<le> l"
  obtains S' where "backtrack l S = Inr S'" "ps_ok av N S'"
    "ps_assignments S' = filter (\<lambda>a. a_level a \<le> l) (ps_assignments S)"
proof -
  let ?as = "ps_assignments S"
  have tr: "trail_ok av N ?as" using ok by (simp add: ps_ok_def)
  obtain m where m: "filter (\<lambda>a. a_level a \<le> l) ?as = take m ?as" "m \<le> length ?as"
    "rev (dropWhile (\<lambda>a. l < a_level a) (rev ?as)) = take m ?as"
    "set (takeWhile (\<lambda>a. l < a_level a) (rev ?as)) = set (drop m ?as)"
    "\<And>k. k < length ?as \<Longrightarrow> k < m \<longleftrightarrow> a_level (?as ! k) \<le> l"
    using trail_levels_split [OF tr, of l] by blast
  let ?removed = "a_subject ` set (drop m ?as)"
  have "?as ! 0 \<in> set ?as" "a_level (?as ! 0) \<le> l" using ne l trail_first(2) [OF tr ne] by auto
  then have pop: "pop_assignments l (rev ?as) {} = Inr (dropWhile (\<lambda>a. l < a_level a) (rev ?as), ?removed)"
    by (subst pop_assignments_eq) (auto simp: m(4))
  let ?S1 = "S\<lparr>ps_backtracking := True, ps_assignments := take m ?as,
               ps_terms := dict_drop ?removed (ps_terms S), ps_decisions := dict_drop ?removed (ps_decisions S)\<rparr>"
  let ?out = "filter (\<lambda>a. a_subject a \<notin> ?removed) (take m ?as)"
  let ?in = "filter (\<lambda>a. a_subject a \<in> ?removed) (take m ?as)"
  have bt: "backtrack l S = rfold register ?in ?S1" by (simp add: backtrack_def pop m(3) Let_def)
  have same: "has p ?out = has p ?as" "poss av ?out p = poss av ?as p" if "p \<notin> ?removed" for p
  proof -
    have "a \<in> set ?out \<longleftrightarrow> a \<in> set ?as" if "a_subject a = p" for a
      using that \<open>p \<notin> ?removed\<close> set_take_drop [of ?as m] by auto
    then show "has p ?out = has p ?as" "poss av ?out p = poss av ?as p"
      unfolding has_def poss_def by blast+
  qed
  have tf: "terms_for av ?out (ps_terms ?S1)"
  proof -
    have "term_for av ?out p (map_of (ps_terms ?S1) p)" for p
    proof (cases "p \<in> ?removed")
      case True
      then show ?thesis by (auto simp: has_def)
    next
      case False
      then show ?thesis using ok term_for_cong [of av ?as p "map_of (ps_terms S) p" ?out] same [OF False]
        by (simp add: ps_ok_def terms_for_def)
    qed
    then show ?thesis using ok by (simp add: terms_for_def ps_ok_def)
  qed
  have set_eq: "set (?out @ ?in) = set (take m ?as)" by auto
  have nonempty: "poss av (?out @ ?in) p \<noteq> {}" for p
    using trail_poss_nonempty [OF trail_ok_take [OF tr], of m p] set_eq by (simp add: poss_def)
  have "\<forall>a \<in> set ?in. wf_tm av (a_term a)" using trail_wf [OF trail_ok_take [OF tr], of _ m] by auto
  then obtain d' where d': "rfold register ?in ?S1 = Inr (?S1\<lparr>ps_terms := d'\<rparr>)" "terms_for av (?out @ ?in) d'"
    using rfold_register_ok [OF tf _ nonempty] by blast
  have "decisions_for (take m ?as) (dict_drop ?removed (ps_decisions S))"
    by (rule decisions_for_take [OF tr]) (use ok in \<open>simp add: ps_ok_def\<close>)
  then show thesis
    by (intro that [of "?S1\<lparr>ps_terms := d'\<rparr>"])
      (use bt d' m(1) terms_for_cong [OF d'(2) set_eq] trail_ok_take [OF tr] in \<open>simp_all add: ps_ok_def\<close>)
qed

end
