(* ===== verification/Conflict_Resolution.thy ===== *)
theory Conflict_Resolution
  imports Solution_Invariant Resolver
begin

text \<open>
  Conflict resolution (\<open>_resolve_conflict\<close> of \<open>satresolver/core.py\<close>). On a well-formed
  partial solution that satisfies every term of an incompatibility, one round of the loop
  never raises. It either names a level to backtrack to, at which exactly one term of the
  incompatibility is open, or gives another incompatibility that a shorter prefix of the
  trail already satisfies; so the loop ends.
\<close>

section \<open>Where a term becomes satisfied\<close>

definition sat_index :: "(string \<Rightarrow> 'v package_version set) \<Rightarrow> 'v assignment list \<Rightarrow> 'v tm \<Rightarrow> nat" where
  "sat_index av as t = (LEAST k. sat_by av (take (Suc k) as) t)"

lemma sat_by_take_mono: "sat_by av (take j as) t \<Longrightarrow> j \<le> k \<Longrightarrow> sat_by av (take k as) t"
  by (rule sat_by_mono [OF set_take_subset_set_take])

lemma sat_index_eq:
  assumes "sat_by av (take (Suc k) as) t" "\<not> sat_by av (take k as) t"
  shows "sat_index av as t = k"
  unfolding sat_index_def
proof (rule Least_equality)
  show "sat_by av (take (Suc k) as) t" by (rule assms(1))
next
  fix j
  assume "sat_by av (take (Suc j) as) t"
  with assms(2) sat_by_take_mono [of av "Suc j" as t k] show "k \<le> j" by (cases "k \<le> j") auto
qed

lemma satisfier_index:
  assumes "ps_ok av N S" "wf_tm av t" "sat_by av (ps_assignments S) t"
  shows "satisfier t S = Inr (Some (ps_assignments S ! sat_index av (ps_assignments S) t))"
    and "sat_index av (ps_assignments S) t < length (ps_assignments S)"
    and "a_subject (ps_assignments S ! sat_index av (ps_assignments S) t) = subject t"
    and "sat_by av (take m (ps_assignments S)) t \<longleftrightarrow> sat_index av (ps_assignments S) t < m"
proof -
  obtain k where k: "k < length (ps_assignments S)" "satisfier t S = Inr (Some (ps_assignments S ! k))"
    "a_subject (ps_assignments S ! k) = subject t"
    "sat_by av (take (Suc k) (ps_assignments S)) t" "\<not> sat_by av (take k (ps_assignments S)) t"
    by (rule satisfier_ok [OF assms])
  have eq: "sat_index av (ps_assignments S) t = k" by (rule sat_index_eq [OF k(4,5)])
  show "satisfier t S = Inr (Some (ps_assignments S ! sat_index av (ps_assignments S) t))"
    "sat_index av (ps_assignments S) t < length (ps_assignments S)"
    "a_subject (ps_assignments S ! sat_index av (ps_assignments S) t) = subject t"
    using k eq by simp_all
  show "sat_by av (take m (ps_assignments S)) t \<longleftrightarrow> sat_index av (ps_assignments S) t < m"
    using sat_by_take_mono [of av "Suc k" "ps_assignments S" t m] k(4)
      sat_by_take_mono [of av m "ps_assignments S" t k] k(5) eq
    by (cases "k < m") auto
qed

section \<open>Sorting by satisfier\<close>

lemma sort_by_satisfier_ok:
  assumes ok: "ps_ok av N S" and inc: "ok_inc av N i" and sat: "\<forall>t \<in> set (terms i). sat_by av (ps_assignments S) t"
  shows "sort_by_satisfier i S =
    Inr (map (\<lambda>t. (t, Some (ps_assignments S ! sat_index av (ps_assignments S) t)))
          (sort_key (sat_index av (ps_assignments S)) (terms i)))"
proof -
  let ?as = "ps_assignments S"
  let ?f = "\<lambda>t. (t, Some (?as ! sat_index av ?as t))"
  have idx: "satisfier t S = Inr (Some (?as ! sat_index av ?as t))" "sat_index av ?as t < length ?as"
    if "t \<in> set (terms i)" for t
    using that satisfier_index(1,2) [OF ok] inc sat by (auto simp: ok_inc_def ok_tm_def)
  have "list_all2 (\<lambda>t y. rmap (Pair t) (satisfier t S) = Inr y) (terms i) (map ?f (terms i))"
    using idx(1) by (auto simp: list_all2_conv_all_nth)
  then have list: "rmap_list (\<lambda>t. rmap (Pair t) (satisfier t S)) (terms i) = Inr (map ?f (terms i))"
    by (simp only: rmap_list_Inr_iff)
  have tr: "trail_ok av N ?as" using ok by (simp add: ps_ok_def)
  have key: "satisfier_key (?f t) = sat_index av ?as t" if "t \<in> set (terms i)" for t
    using trail_index [OF tr idx(2) [OF that]] by (simp add: satisfier_key_def)
  have "sort_key satisfier_key (map ?f ts) = map ?f (sort_key (sat_index av ?as) ts)"
    if "set ts \<subseteq> set (terms i)" for ts
    using that
  proof (induction ts)
    case (Cons t ts)
    have ins: "insort_key satisfier_key (?f t) (map ?f us) = map ?f (insort_key (sat_index av ?as) t us)"
      if "set us \<subseteq> set (terms i)" for us
      using that Cons.prems key by (induction us) auto
    show ?case using Cons ins [of "sort_key (sat_index av ?as) ts"] by simp
  qed simp
  then show ?thesis using list by (auto simp: sort_by_satisfier_def)
qed

lemma rev_sort_key_top:
  assumes "distinct xs" "rev (sort_key f xs) = x # r"
  shows "x \<in> set xs" "\<And>y. y \<in> set xs \<Longrightarrow> f y \<le> f x" "set r = set xs - {x}" "\<And>y. y \<in> set r \<Longrightarrow> f y \<le> f (hd r)"
proof -
  have eq: "sort_key f xs = rev r @ [x]" using assms(2) by (metis rev.simps(2) rev_rev_ident)
  have srt: "sorted (map f (rev r @ [x]))" by (metis eq sorted_sort_key)
  have st: "set (rev r @ [x]) = set xs" by (metis eq set_sort)
  have dis: "distinct (rev r @ [x])" by (metis assms(1) distinct_sort eq)
  show "x \<in> set xs" using st by auto
  show "set r = set xs - {x}" using st dis by auto
  show "f y \<le> f x" if "y \<in> set xs" for y using that st srt by (auto simp: sorted_append)
  show "f y \<le> f (hd r)" if "y \<in> set r" for y
    using that srt by (cases r) (auto simp: sorted_append)
qed

section \<open>Merging terms\<close>

definition merged ::
  "(string \<Rightarrow> 'v package_version set) \<Rightarrow> string set \<Rightarrow> 'v assignment list \<Rightarrow> (string, 'v tm) dict \<Rightarrow> bool" where
  "merged av N as d \<longleftrightarrow> is_dict d \<and> (\<forall>(p, t) \<in> set d. subject t = p \<and> ok_tm av N t \<and> sat_by av as t)"

lemma merged_update:
  assumes "merged av N as d" "ok_tm av N t" "sat_by av as t" "subject t = p"
  shows "merged av N as (AList.update p t d)"
proof -
  have "subject u = q \<and> ok_tm av N u \<and> sat_by av as u" if "(q, u) \<in> set (AList.update p t d)" for q u
  proof -
    have "is_dict (AList.update p t d)" using assms(1) by (simp add: merged_def)
    then have "map_of (AList.update p t d) q = Some u" using that by (rule map_of_is_SomeI)
    then have "(if q = p then Some t else map_of d q) = Some u" by (simp only: map_of_update)
    then have "q = p \<and> u = t \<or> (q, u) \<in> set d" using map_of_SomeD [of d q u] by (auto split: if_splits)
    then show ?thesis using assms by (auto simp: merged_def)
  qed
  then show ?thesis using assms(1) by (auto simp: merged_def)
qed

lemma merge_term_ok:
  assumes m: "merged av N as d" and t: "ok_tm av N t" "sat_by av as t" and ne: "\<And>p. poss av as p \<noteq> {}"
  obtains d' where "merge_term t d = Inr d'" "merged av N as d'"
proof (cases "map_of d (subject t)")
  case None
  show thesis by (rule that [OF _ merged_update [OF m t refl]]) (simp add: merge_term_def None)
next
  case (Some old)
  then have old: "subject old = subject t" "ok_tm av N old" "sat_by av as old"
    using m by (auto simp: merged_def dest: map_of_SomeD)
  have wf: "wf_tm av old" "wf_tm av t" using old t by (simp_all add: ok_tm_def)
  have "poss av as (subject t) \<subseteq> outcomes old \<inter> outcomes t" using old t by (auto simp: sat_by_def)
  moreover from this have "outcomes old \<inter> outcomes t \<noteq> {}" using ne [of "subject t"] by blast
  ultimately obtain u where u: "intersect old t = Inr (Some u)" "wf_tm av u" "subject u = subject old"
    "outcomes u = outcomes old \<inter> outcomes t" "poss av as (subject t) \<subseteq> outcomes u"
    using tm.inter_Some [OF wf old(1)] by auto
  have "is_positive u \<or> outcomes (inverse u) \<noteq> {}"
  proof (rule disjCI)
    assume empty: "\<not> outcomes (inverse u) \<noteq> {}"
    have "outcomes (inverse old) \<subseteq> outcomes (inverse u)" "outcomes (inverse t) \<subseteq> outcomes (inverse u)"
      using u wf old(1) by (auto simp: outcomes_inverse)
    with empty old(2) t(1) have "is_positive old" by (auto simp: ok_tm_def)
    then have "None \<notin> outcomes u" using u(4) by simp
    then show "is_positive u" by simp
  qed
  then have "ok_tm av N u" using u old t by (simp add: ok_tm_def)
  moreover have "sat_by av as u" using u old t by (simp add: sat_by_def)
  ultimately show thesis
    by (intro that [OF _ merged_update [OF m]]) (use u Some old in \<open>simp_all add: merge_term_def\<close>)
qed

lemma merge_terms_ok:
  assumes "\<And>t. t \<in> set ts \<Longrightarrow> ok_tm av N t \<and> sat_by av as t" and ne: "\<And>p. poss av as p \<noteq> {}"
  obtains us where "merge_terms ts = Inr us" "distinct (map subject us)"
    "\<forall>t \<in> set us. ok_tm av N t \<and> sat_by av as t"
proof -
  have "\<exists>d'. rfold merge_term ts d = Inr d' \<and> merged av N as d'" if "merged av N as d" for d
    using assms(1) that
  proof (induction ts arbitrary: d)
    case (Cons t ts)
    obtain d1 where "merge_term t d = Inr d1" "merged av N as d1"
      using merge_term_ok [OF Cons.prems(2) _ _ ne] Cons.prems(1) by (metis list.set_intros(1))
    then show ?case using Cons.IH [of d1] Cons.prems(1) by auto
  qed simp
  from this [of "[]"] obtain d where d: "rfold merge_term ts [] = Inr d" "merged av N as d"
    by (auto simp: merged_def)
  have "map subject (map snd d) = map fst d" using d(2) by (auto simp: merged_def)
  then have "distinct (map subject (map snd d))" using d(2) by (simp del: map_map add: merged_def)
  then show thesis
    by (rule that [rotated]) (use d in \<open>auto simp: merge_terms_def merged_def\<close>)
qed

section \<open>One round\<close>

lemma derived_not_root:
  assumes tr: "trail_ok av N as" and k: "0 < k" "k < length as"
  shows "a_subject (as ! k) \<noteq> root_name"
proof -
  have "as \<noteq> []" using k by auto
  then show ?thesis using decided_last [OF tr k] trail_first [OF tr] by (simp add: a_subject_def)
qed

lemma conflict_top:
  assumes ok: "ps_ok av N S" and inc: "ok_inc av N i" and sat: "\<forall>t \<in> set (terms i). sat_by av (ps_assignments S) t"
    and nf: "\<not> is_failure i"
  obtains mrt rest where "mrt \<in> set (terms i)" "set rest = set (terms i) - {mrt}"
    "sort_by_satisfier i S = Inr (rev (map (\<lambda>t. (t, Some (ps_assignments S ! sat_index av (ps_assignments S) t))) (mrt # rest)))"
    "0 < sat_index av (ps_assignments S) mrt"
    "\<And>t. t \<in> set rest \<Longrightarrow> sat_index av (ps_assignments S) t < sat_index av (ps_assignments S) mrt"
    "\<And>t. t \<in> set rest \<Longrightarrow> sat_index av (ps_assignments S) t \<le> sat_index av (ps_assignments S) (hd rest)"
proof -
  let ?as = "ps_assignments S"
  let ?k = "sat_index av ?as"
  have tr: "trail_ok av N ?as" using ok by (simp add: ps_ok_def)
  have dist: "distinct (terms i)" using inc by (simp add: ok_inc_def distinct_map)
  have wf: "wf_tm av t" if "t \<in> set (terms i)" for t using inc that by (simp add: ok_inc_def ok_tm_def)
  have idx: "?k t < length ?as" "a_subject (?as ! ?k t) = subject t" if "t \<in> set (terms i)" for t
    using satisfier_index(2,3) [OF ok wf] that sat by auto
  have "sort_key ?k (terms i) \<noteq> []" using nf
    by (metis is_failure_def length_0_conv length_sort)
  then obtain mrt rest where eq: "rev (sort_key ?k (terms i)) = mrt # rest"
    by (cases "rev (sort_key ?k (terms i))") auto
  note top = rev_sort_key_top [OF dist eq]
  have less: "?k t < ?k mrt" if "t \<in> set rest" for t
  proof -
    have t: "t \<in> set (terms i)" "t \<noteq> mrt" using that top(3) by auto
    then have "subject t \<noteq> subject mrt" using inc top(1) by (auto simp: ok_inc_def distinct_map inj_on_def)
    then have "?k t \<noteq> ?k mrt" using idx(2) t(1) top(1) by metis
    with top(2) [OF t(1)] show ?thesis by simp
  qed
  have pos: "0 < ?k mrt"
  proof (rule ccontr)
    assume z: "\<not> 0 < ?k mrt"
    then have "rest = []" using less by (cases rest) auto
    then have "set (terms i) = {mrt}" using top(1,3) by auto
    moreover from this have "length (terms i) = 1" using distinct_card [OF dist] by simp
    ultimately have "terms i = [mrt]" by (cases "terms i") auto
    moreover have "subject mrt = root_name"
      using idx [OF top(1)] z trail_first(1) [OF tr] by (auto simp: a_subject_def)
    then have "\<exists>b. mrt = RootConstraint b" using wf [OF top(1)] by (cases mrt) auto
    ultimately show False using nf by (simp add: is_failure_def)
  qed
  have "sort_key ?k (terms i) = rev (mrt # rest)" using eq by (metis rev_rev_ident)
  then have "sort_by_satisfier i S = Inr (rev (map (\<lambda>t. (t, Some (?as ! ?k t))) (mrt # rest)))"
    using sort_by_satisfier_ok [OF ok inc sat] by (simp add: rev_map)
  then show thesis by (rule that [OF top(1,3) _ pos less top(4)])
qed

text \<open>
  What the most recent satisfier adds beyond its term was already excluded before it, and a
  decision adds nothing.
\<close>

lemma satisfier_difference:
  assumes tr: "trail_ok av N as" and k: "0 < k" "k < length as" and wf: "wf_tm av t" "subject t = a_subject (as ! k)"
    and sat: "sat_by av (take (Suc k) as) t"
  obtains d where "difference (a_term (as ! k)) t = Inr d" "is_decision (as ! k) \<Longrightarrow> d = None"
    "\<And>u. d = Some u \<Longrightarrow> ok_tm av N (inverse u) \<and> sat_by av (take k as) (inverse u)"
proof -
  let ?s = "as ! k"
  let ?p = "a_subject ?s"
  have step: "step_ok av N (take k as) ?s" by (rule trail_ok_nth [OF tr k(2)])
  then have wfs: "wf_tm av (a_term ?s)" and sub: "subject (a_term ?s) = subject t" and inN: "?p \<in> insert root_name N"
    using wf by (auto simp: step_ok_def a_subject_def)
  have notroot: "a_term ?s \<noteq> RootConstraint b" for b using derived_not_root [OF tr k] by (auto simp: a_subject_def)
  have inter: "poss av (take k as) ?p \<inter> outcomes (a_term ?s) \<subseteq> outcomes t"
    using sat wf(2) k(2) by (simp add: sat_by_def take_Suc_conv_app_nth poss_snoc)
  obtain d where d: "difference (a_term ?s) t = Inr d"
    "d = None \<longleftrightarrow> outcomes (a_term ?s) - outcomes t \<subseteq> {None} \<and> (\<forall>b. a_term ?s = RootConstraint b \<longrightarrow> a_term ?s = t)"
    "\<And>u. d = Some u \<Longrightarrow> wf_tm av u \<and> subject u = subject (a_term ?s)"
    "\<And>u. d = Some u \<Longrightarrow> a_term ?s \<noteq> RootConstraint False \<Longrightarrow> outcomes u = outcomes (a_term ?s) - outcomes t - {None}"
    by (rule difference_wf [OF wfs wf(1) sub]) blast
  have dec: "d = None" if "is_decision ?s"
  proof -
    have "take k as \<noteq> []" using k by auto
    moreover have "decision_ok av (take k as) ?s" using step that by (simp add: step_ok_def is_decision_def)
    ultimately obtain v where "outcomes (a_term ?s) = {Some v}" by (auto simp: decision_ok_def)
    moreover have "poss av (take k as) ?p \<inter> outcomes (a_term ?s) \<noteq> {}" using step by (simp add: step_ok_def)
    ultimately have "outcomes (a_term ?s) \<subseteq> outcomes t" using inter by auto
    then show ?thesis using d(2) notroot by auto
  qed
  have "ok_tm av N (inverse u) \<and> sat_by av (take k as) (inverse u)" if u: "d = Some u" for u
  proof -
    have ou: "outcomes u = outcomes (a_term ?s) - outcomes t - {None}" using d(4) [OF u] notroot by simp
    have wfu: "wf_tm av u" "subject u = ?p" using d(3) [OF u] by (simp_all add: a_subject_def)
    have "outcomes u \<noteq> {}" using d(2) u ou notroot by auto
    then have "ok_tm av N (inverse u)" using wfu inN by (simp add: ok_tm_def)
    moreover have "has ?p (take k as)"
    proof (rule ccontr)
      assume "\<not> has ?p (take k as)"
      then have "outcomes (a_term ?s) \<subseteq> outcomes t"
        using inter outcomes_univ [OF wfs] by (auto simp: not_has_poss a_subject_def)
      then show False using \<open>outcomes u \<noteq> {}\<close> ou by auto
    qed
    moreover have "poss av (take k as) ?p \<subseteq> outcomes (inverse u)"
      using inter ou wfu poss_univ [of av "take k as" ?p] by (auto simp: outcomes_inverse)
    ultimately show ?thesis using wfu by (simp add: sat_by_def)
  qed
  with dec show thesis using that [OF d(1)] by blast
qed

lemma trail_decision_level_less:
  assumes "trail_ok av N as" "j < k" "k < length as" "is_decision (as ! k)"
  shows "a_level (as ! j) < a_level (as ! k)"
proof -
  have "a_level (as ! j) \<le> num_decisions (take k as)"
    using assms num_decisions_take_mono [of "Suc j" k as] by (simp add: trail_level)
  moreover have "a_level (as ! k) = Suc (num_decisions (take k as))"
    using assms by (simp add: trail_level take_Suc_conv_app_nth)
  ultimately show ?thesis by simp
qed

lemma previous_decision_level_ok:
  assumes ok: "ps_ok av N S" and pos: "0 < sat_index av (ps_assignments S) mrt"
    and wf: "\<And>t. t \<in> set (mrt # rest) \<Longrightarrow> wf_tm av t \<and> sat_by av (ps_assignments S) t"
    and less: "\<And>t. t \<in> set rest \<Longrightarrow> sat_index av (ps_assignments S) t < sat_index av (ps_assignments S) mrt"
    and hd: "\<And>t. t \<in> set rest \<Longrightarrow> sat_index av (ps_assignments S) t \<le> sat_index av (ps_assignments S) (hd rest)"
  obtains l where
    "previous_decision_level (rev (map (\<lambda>t. (t, Some (ps_assignments S ! sat_index av (ps_assignments S) t))) (mrt # rest))) S = Inr l"
    "1 \<le> l" "\<And>t. t \<in> set rest \<Longrightarrow> a_level (ps_assignments S ! sat_index av (ps_assignments S) t) \<le> l"
    "is_decision (ps_assignments S ! sat_index av (ps_assignments S) mrt) \<Longrightarrow>
       l < a_level (ps_assignments S ! sat_index av (ps_assignments S) mrt)"
proof -
  let ?as = "ps_assignments S"
  let ?k = "sat_index av ?as"
  let ?f = "\<lambda>t. (t, Some (?as ! ?k t))"
  define prev where "prev = (case rest of [] \<Rightarrow> 1 | t # _ \<Rightarrow> a_level (?as ! ?k t))"
  have tr: "trail_ok av N ?as" using ok by (simp add: ps_ok_def)
  have idx: "?k t < length ?as" "a_subject (?as ! ?k t) = subject t" if "t \<in> set (mrt # rest)" for t
    using satisfier_index(2,3) [OF ok] wf [OF that] by auto
  have prev: "1 \<le> prev" "\<And>t. t \<in> set rest \<Longrightarrow> a_level (?as ! ?k t) \<le> prev"
  proof -
    show "1 \<le> prev" using trail_level_pos [OF tr idx(1)] by (auto simp: prev_def split: list.splits)
    show "a_level (?as ! ?k t) \<le> prev" if "t \<in> set rest" for t
      using trail_level_mono [OF tr hd [OF that]] idx(1) that by (cases rest) (auto simp: prev_def)
  qed
  have dec: "prev < a_level (?as ! ?k mrt)" if "is_decision (?as ! ?k mrt)"
  proof (cases rest)
    case Nil
    have "a_level (?as ! 0) = 1" using trail_first(2) [OF tr] idx(1) [of mrt] by fastforce
    then show ?thesis using trail_decision_level_less [OF tr pos _ that] idx(1) [of mrt] Nil by (simp add: prev_def)
  next
    case (Cons t r)
    then show ?thesis using trail_decision_level_less [OF tr less _ that] idx(1) [of mrt] by (simp add: prev_def)
  qed
  have "sat_by av (take (Suc (?k mrt)) ?as) mrt" using satisfier_index(4) [OF ok] wf by simp
  then obtain d where d: "difference (a_term (?as ! ?k mrt)) mrt = Inr d" "is_decision (?as ! ?k mrt) \<Longrightarrow> d = None"
    "\<And>u. d = Some u \<Longrightarrow> ok_tm av N (inverse u) \<and> sat_by av (take (?k mrt) ?as) (inverse u)"
    using satisfier_difference [OF tr pos] idx [of mrt] wf [of mrt]
    by (metis list.set_intros(1))
  have base: "previous_decision_level (rev (map ?f (mrt # rest))) S =
      (case d of None \<Rightarrow> Inr prev
       | Some u \<Rightarrow> rbind (satisfier (inverse u) S)
           (\<lambda>p. case p of None \<Rightarrow> Inl AttributeError | Some a \<Rightarrow> Inr (max prev (a_level a))))"
    unfolding prev_def using d(1) by (cases rest; cases d) (simp_all add: previous_decision_level_def)
  show thesis
  proof (cases d)
    case None
    then show thesis using that [of prev] base prev dec by simp
  next
    case (Some u)
    then have "sat_by av ?as (inverse u)" "wf_tm av (inverse u)"
      using d(3) [OF Some] sat_by_mono [OF set_take_subset] by (auto simp: ok_tm_def)
    then have "satisfier (inverse u) S = Inr (Some (?as ! ?k (inverse u)))"
      using satisfier_index(1) [OF ok] by simp
    then have "previous_decision_level (rev (map ?f (mrt # rest))) S = Inr (max prev (a_level (?as ! ?k (inverse u))))"
      using base Some by simp
    then show thesis by (rule that) (use prev d(2) Some in \<open>auto simp: le_max_iff_disj\<close>)
  qed
qed


text \<open>The two outcomes of a round.\<close>

definition inconclusive :: "(string \<Rightarrow> 'v package_version set) \<Rightarrow> 'v assignment list \<Rightarrow> 'v tm \<Rightarrow> bool" where
  "inconclusive av as t \<longleftrightarrow>
     \<not> sat_by av as t \<and> (has (subject t) as \<longrightarrow> poss av as (subject t) \<inter> outcomes t \<noteq> {})"

definition opens :: "(string \<Rightarrow> 'v package_version set) \<Rightarrow> 'v assignment list \<Rightarrow> 'v incompatibility \<Rightarrow> bool" where
  "opens av as i \<longleftrightarrow> (\<exists>t \<in> set (terms i). inconclusive av as t
     \<and> (\<forall>u \<in> set (terms i). u \<noteq> t \<longrightarrow> sat_by av as u))"

definition all_sat :: "(string \<Rightarrow> 'v package_version set) \<Rightarrow> 'v assignment list \<Rightarrow> 'v incompatibility \<Rightarrow> bool" where
  "all_sat av as i \<longleftrightarrow> (\<forall>t \<in> set (terms i). sat_by av as t)"

lemma create_incompatibility_ok:
  assumes tr: "trail_ok av N as" and k: "0 < k" "k < length as" and derived: "\<not> is_decision (as ! k)"
    and inc: "ok_inc av N i" and mrt: "mrt \<in> set (terms i)" "subject mrt = a_subject (as ! k)" "sat_by av (take (Suc k) as) mrt"
    and rest: "\<And>t. t \<in> set (terms i) \<Longrightarrow> t \<noteq> mrt \<Longrightarrow> sat_by av (take k as) t"
  obtains j where "create_incompatibility_from_conflict i mrt (as ! k) = Inr j" "ok_inc av N j" "all_sat av (take k as) j"
proof -
  let ?s = "as ! k"
  have step: "step_ok av N (take k as) ?s" by (rule trail_ok_nth [OF tr k(2)])
  obtain c where c: "a_cause ?s = Some c" using derived by (auto simp: is_decision_def)
  with step have "derivation_ok av N (take k as) ?s c" by (simp add: step_ok_def)
  then obtain j u where j: "c = IncompatibilityCause j" "ok_inc av N j" "u \<in> set (terms j)" "a_term ?s = inverse u"
    "\<forall>t \<in> set (terms j). t \<noteq> u \<longrightarrow> sat_by av (take k as) t"
    by (auto simp: derivation_ok_def)
  have wfm: "wf_tm av mrt" using inc mrt(1) by (simp add: ok_inc_def ok_tm_def)
  obtain d where d: "difference (a_term ?s) mrt = Inr d"
    "\<And>u. d = Some u \<Longrightarrow> ok_tm av N (inverse u) \<and> sat_by av (take k as) (inverse u)"
    by (rule satisfier_difference [OF tr k wfm mrt(2,3)]) blast
  let ?ts = "filter (\<lambda>t. \<not> tm_eq t mrt) (terms i) @ filter (\<lambda>t. subject t \<noteq> a_subject ?s) (terms j)
    @ (case d of None \<Rightarrow> [] | Some u \<Rightarrow> [inverse u])"
  have ts: "ok_tm av N t \<and> sat_by av (take k as) t" if "t \<in> set ?ts" for t
  proof -
    from that consider "t \<in> set (terms i)" "\<not> tm_eq t mrt" | "t \<in> set (terms j)" "subject t \<noteq> a_subject ?s"
      | v where "d = Some v" "t = inverse v" by (auto split: option.splits)
    then show ?thesis
    proof cases
      case 1
      then have "ok_tm av N t" "t \<noteq> mrt"
        using inc wfm tm_eq_iff [of av mrt mrt] by (auto simp: ok_inc_def)
      then show ?thesis using rest 1(1) by simp
    next
      case 2
      then have "t \<noteq> u" using j(4) by (auto simp: a_subject_def)
      then show ?thesis using 2(1) j(2,5) by (simp add: ok_inc_def)
    next
      case 3
      then show ?thesis using d(2) by simp
    qed
  qed
  obtain us where us: "merge_terms ?ts = Inr us" "distinct (map subject us)"
    "\<forall>t \<in> set us. ok_tm av N t \<and> sat_by av (take k as) t"
    using merge_terms_ok [of ?ts av N "take k as"] ts trail_poss_nonempty [OF trail_ok_take [OF tr]] by blast
  have "create_incompatibility_from_conflict i mrt ?s = Inr (Incompatibility us (ConflictCause i j))"
    using c j(1) d(1) us(1) by (simp add: create_incompatibility_from_conflict_def)
  then show thesis by (rule that) (use us in \<open>auto simp: ok_inc_def all_sat_def\<close>)
qed

lemma resolve_round_ok:
  assumes ok: "ps_ok av N S" and inc: "ok_inc av N i" and sat: "all_sat av (ps_assignments S) i" and nf: "\<not> is_failure i"
  obtains (Backtrack) l where "resolve_round i S = Inr (Inl l)" "1 \<le> l" "l < num_decisions (ps_assignments S)"
      "opens av (filter (\<lambda>a. a_level a \<le> l) (ps_assignments S)) i"
  | (Continue) j where "resolve_round i S = Inr (Inr j)" "ok_inc av N j"
      "\<And>m. all_sat av (take m (ps_assignments S)) i \<Longrightarrow> \<exists>m' < m. all_sat av (take m' (ps_assignments S)) j"
proof -
  let ?as = "ps_assignments S"
  let ?k = "sat_index av ?as"
  have tr: "trail_ok av N ?as" using ok by (simp add: ps_ok_def)
  have sat': "\<forall>t \<in> set (terms i). sat_by av ?as t" using sat by (simp add: all_sat_def)
  obtain mrt rest where top: "mrt \<in> set (terms i)" "set rest = set (terms i) - {mrt}"
    "sort_by_satisfier i S = Inr (rev (map (\<lambda>t. (t, Some (?as ! ?k t))) (mrt # rest)))"
    "0 < ?k mrt" "\<And>t. t \<in> set rest \<Longrightarrow> ?k t < ?k mrt" "\<And>t. t \<in> set rest \<Longrightarrow> ?k t \<le> ?k (hd rest)"
    by (rule conflict_top [OF ok inc sat' nf]) blast
  let ?s = "?as ! ?k mrt"
  have wf: "wf_tm av t" "sat_by av ?as t" if "t \<in> set (terms i)" for t
    using inc sat' that by (auto simp: ok_inc_def ok_tm_def)
  note idx = satisfier_index [OF ok wf]
  obtain l where l: "previous_decision_level (rev (map (\<lambda>t. (t, Some (?as ! ?k t))) (mrt # rest))) S = Inr l"
    "1 \<le> l" "\<And>t. t \<in> set rest \<Longrightarrow> a_level (?as ! ?k t) \<le> l" "is_decision ?s \<Longrightarrow> l < a_level ?s"
    by (rule previous_decision_level_ok [OF ok top(4) _ top(5,6)]) (use wf top(1,2) in auto)
  have round: "resolve_round i S =
      (if is_decision ?s \<or> l < a_level ?s then Inr (Inl l)
       else rmap Inr (create_incompatibility_from_conflict i mrt ?s))"
    using top(3) l(1) by (simp add: resolve_round_def Let_def)
  have k: "?k mrt < length ?as" "subject mrt = a_subject ?s" using idx(2,3) top(1) by simp_all
  have sat_mrt: "sat_by av (take m ?as) mrt \<longleftrightarrow> ?k mrt < m" for m using idx(4) top(1) by simp
  show thesis
  proof (cases "l < a_level ?s")
    case True
    obtain m where m: "filter (\<lambda>a. a_level a \<le> l) ?as = take m ?as" "m \<le> length ?as"
      "\<And>k. k < length ?as \<Longrightarrow> k < m \<longleftrightarrow> a_level (?as ! k) \<le> l"
      by (rule trail_levels_split [OF tr, of l]) blast
    have mk: "m \<le> ?k mrt" using m(3) [OF k(1)] True by auto
    have "poss av (take (Suc (?k mrt)) ?as) (subject mrt) \<subseteq> poss av (take m ?as) (subject mrt) \<inter> outcomes mrt"
      using sat_mrt [of "Suc (?k mrt)"] poss_mono [of "take m ?as" "take (Suc (?k mrt)) ?as" av "subject mrt"]
        set_take_subset_set_take [of m "Suc (?k mrt)" ?as] mk by (auto simp: sat_by_def)
    then have "poss av (take m ?as) (subject mrt) \<inter> outcomes mrt \<noteq> {}"
      using trail_poss_nonempty [OF trail_ok_take [OF tr], of "Suc (?k mrt)" "subject mrt"] by auto
    moreover have "sat_by av (take m ?as) u" if "u \<in> set (terms i)" "u \<noteq> mrt" for u
      using that top(2) idx(2,4) [of u] m(3) l(3) by auto
    ultimately have "opens av (filter (\<lambda>a. a_level a \<le> l) ?as) i"
      unfolding opens_def m(1) using top(1) sat_mrt mk by (intro bexI [of _ mrt]) (auto simp: inconclusive_def)
    moreover have "l < num_decisions ?as" using True trail_level_le [OF tr k(1)] by simp
    ultimately show thesis using Backtrack round True l(2) by simp
  next
    case False
    then have nd: "\<not> is_decision ?s" using l(4) by auto
    have rest: "sat_by av (take (?k mrt) ?as) t" if "t \<in> set (terms i)" "t \<noteq> mrt" for t
      using that top(2,5) idx(4) [of t] by auto
    obtain j where j: "create_incompatibility_from_conflict i mrt ?s = Inr j" "ok_inc av N j" "all_sat av (take (?k mrt) ?as) j"
      by (rule create_incompatibility_ok [OF tr top(4) k(1) nd inc top(1) k(2) _ rest])
        (use sat_mrt in auto)
    show thesis
      by (rule Continue [of j]) (use round nd False j sat_mrt top(1) in \<open>auto simp: all_sat_def\<close>)
  qed
qed

text \<open>
  The loop of \<open>_resolve_conflict\<close>: it stops within as many rounds as the trail is long,
  either with a failure or by backtracking to where the last incompatibility opens.
\<close>

lemma resolve_loop_ok:
  assumes "ps_ok av N (r_solution R)" "ok_inc av N cur" "all_sat av (take m (ps_assignments (r_solution R))) cur"
    "ps_assignments (r_solution R) \<noteq> []"
  shows "(\<exists>j. is_failure j \<and> (\<forall>n > m. resolve_loop n orig cur R = Inl (ResolutionError j)))
     \<or> (\<exists>j S' l. ok_inc av N j \<and> 1 \<le> l \<and> l < num_decisions (ps_assignments (r_solution R))
          \<and> backtrack l (r_solution R) = Inr S' \<and> ps_ok av N S'
          \<and> ps_assignments S' = filter (\<lambda>a. a_level a \<le> l) (ps_assignments (r_solution R))
          \<and> opens av (ps_assignments S') j
          \<and> (\<forall>n > m. resolve_loop n orig cur R =
               Inr (j, if j \<noteq> orig then add_incompatibility j (R\<lparr>r_solution := S'\<rparr>) else R\<lparr>r_solution := S'\<rparr>)))"
  using assms(2,3)
proof (induction m arbitrary: cur rule: less_induct)
  case (less m)
  let ?S = "r_solution R"
  show ?case
  proof (cases "is_failure cur")
    case True
    have "resolve_loop n orig cur R = Inl (ResolutionError cur)" if "n > m" for n
      using that True by (cases n) auto
    then show ?thesis using True by blast
  next
    case False
    have all: "all_sat av (ps_assignments ?S) cur"
      using less.prems(2) sat_by_mono [OF set_take_subset] unfolding all_sat_def by blast
    show ?thesis
    proof (cases rule: resolve_round_ok [OF assms(1) less.prems(1) all False])
      case (1 l)
      obtain S' where S': "backtrack l ?S = Inr S'" "ps_ok av N S'"
        "ps_assignments S' = filter (\<lambda>a. a_level a \<le> l) (ps_assignments ?S)"
        by (rule backtrack_ok [OF assms(1,4) 1(2)])
      have "resolve_loop n orig cur R =
          Inr (cur, if cur \<noteq> orig then add_incompatibility cur (R\<lparr>r_solution := S'\<rparr>) else R\<lparr>r_solution := S'\<rparr>)" if "n > m" for n
        using that False 1 S' by (cases n) (auto simp: lift_solution_def)
      then show ?thesis using 1 S' less.prems(1) by (intro disjI2 exI [of _ cur] exI [of _ S'] exI [of _ l]) auto
    next
      case (2 j)
      obtain m' where m': "m' < m" "all_sat av (take m' (ps_assignments ?S)) j" using 2(3) [OF less.prems(2)] by auto
      have eq: "resolve_loop n orig cur R = resolve_loop (n - 1) orig j R" "n - 1 > m'" if "n > m" for n
        using that False 2 m'(1) by (cases n; simp)+
      show ?thesis using less.IH [OF m'(1) 2(2) m'(2)] eq by (elim disjE exE conjE) (metis, metis)
    qed
  qed
qed

end
