(* ===== verification/Trail_Measure.thy ===== *)
theory Trail_Measure
  imports Conflict_Resolution
begin

text \<open>
  A measure on trails that every step of the solver lowers: a derivation removes outcomes on
  its level, a decision opens a level, and backtracking followed by a derivation lowers an
  earlier level. The levels are the digits of a number, the first level the most
  significant; the digit of a level is the number of outcomes its trail leaves open.
\<close>

section \<open>Numbers from digits\<close>

fun digits :: "(nat \<Rightarrow> nat) \<Rightarrow> nat \<Rightarrow> nat \<Rightarrow> nat \<Rightarrow> nat" where
  "digits w C k 0 = 0"
| "digits w C k (Suc n) = w k * C ^ n + digits w C (Suc k) n"

definition package_weight :: "(string \<Rightarrow> 'v package_version set) \<Rightarrow> 'v assignment list \<Rightarrow> string \<Rightarrow> nat" where
  "package_weight av as p = (if has p as then card (poss av as p) else Suc (card (univ av p)))"

definition weight :: "(string \<Rightarrow> 'v package_version set) \<Rightarrow> string set \<Rightarrow> 'v assignment list \<Rightarrow> nat" where
  "weight av N as = (\<Sum>p \<in> insert root_name N. package_weight av as p)"

definition level_weight :: "(string \<Rightarrow> 'v package_version set) \<Rightarrow> string set \<Rightarrow> 'v assignment list \<Rightarrow> nat \<Rightarrow> nat" where
  "level_weight av N as l =
     (if l \<le> num_decisions as then weight av N (filter (\<lambda>a. a_level a \<le> l) as) else Suc (weight av N []))"

definition trail_measure :: "(string \<Rightarrow> 'v package_version set) \<Rightarrow> string set \<Rightarrow> 'v assignment list \<Rightarrow> nat" where
  "trail_measure av N as =
     digits (level_weight av N as) (Suc (Suc (weight av N []))) 1 (card (insert root_name N))"

lemma digits_bound: "(\<And>i. w i < C) \<Longrightarrow> digits w C k n < C ^ n"
proof (induction n arbitrary: k)
  case (Suc n)
  have "w k * C ^ n + digits w C (Suc k) n < w k * C ^ n + C ^ n" using Suc by simp
  also have "\<dots> = Suc (w k) * C ^ n" by simp
  also have "\<dots> \<le> C * C ^ n" by (rule mult_le_mono1) (use Suc.prems in \<open>simp add: Suc_le_eq\<close>)
  finally show ?case by simp
qed simp

lemma digits_less:
  assumes "\<And>i. w i < C" "k \<le> j" "j < k + n" "\<And>i. i < j \<Longrightarrow> w i = w' i" "w j < w' j"
  shows "digits w C k n < digits w' C k n"
  using assms(2-5)
proof (induction n arbitrary: k)
  case (Suc n)
  show ?case
  proof (cases "j = k")
    case True
    have "w k * C ^ n + digits w C (Suc k) n < w k * C ^ n + C ^ n"
      using digits_bound [of w C "Suc k" n] assms(1) by simp
    also have "\<dots> = Suc (w k) * C ^ n" by simp
    also have "\<dots> \<le> w' k * C ^ n" by (rule mult_le_mono1) (use True Suc.prems in simp)
    finally show ?thesis by simp
  next
    case False
    then show ?thesis using Suc.IH [of "Suc k"] Suc.prems by simp
  qed
qed simp

section \<open>Weights\<close>

lemma finite_univ: "\<forall>q \<in> N. finite (av q) \<Longrightarrow> p \<in> insert root_name N \<Longrightarrow> finite (univ av p)"
  by (auto simp: univ_def)

lemma package_weight_antimono:
  assumes finu: "finite (univ av p)" and "set as \<subseteq> set bs"
  shows "package_weight av bs p \<le> package_weight av as p"
proof -
  have fin: "finite (poss av cs p)" for cs by (rule finite_subset [OF poss_univ finu])
  have "card (poss av bs p) \<le> card (poss av as p)" by (rule card_mono [OF fin poss_mono [OF assms(2)]])
  moreover have "card (poss av bs p) \<le> card (univ av p)"
    by (rule card_mono [OF finu poss_univ])
  ultimately show ?thesis using has_mono [OF assms(2)] by (auto simp: package_weight_def)
qed

lemma weight_antimono:
  assumes "\<forall>p \<in> N. finite (av p)" "set as \<subseteq> set bs"
  shows "weight av N bs \<le> weight av N as"
  unfolding weight_def
proof (rule sum_mono)
  fix p
  assume "p \<in> insert root_name N"
  then have "finite (univ av p)" using assms(1) by (simp add: finite_univ)
  then show "package_weight av bs p \<le> package_weight av as p" by (rule package_weight_antimono) (rule assms(2))
qed

lemma weight_derivation:
  assumes "\<forall>p \<in> N. finite (av p)" "finite N"
    and step: "step_ok av N as a" "a_cause a = Some c"
  shows "weight av N (as @ [a]) < weight av N as"
  unfolding weight_def
proof (rule sum_strict_mono_ex1)
  show "finite (insert root_name N)" using assms(2) by simp
  show "\<forall>p \<in> insert root_name N. package_weight av (as @ [a]) p \<le> package_weight av as p"
  proof
    fix p
    assume "p \<in> insert root_name N"
    then have "finite (univ av p)" using assms(1) by (simp add: finite_univ)
    then show "package_weight av (as @ [a]) p \<le> package_weight av as p" by (rule package_weight_antimono) auto
  qed
  let ?p = "a_subject a"
  have p: "?p \<in> insert root_name N" "\<not> sat_by av as (a_term a)" using step by (auto simp: step_ok_def derivation_ok_def)
  then have finu: "finite (univ av ?p)" using assms(1) by (simp add: finite_univ)
  have "package_weight av (as @ [a]) ?p < package_weight av as ?p"
  proof (cases "has ?p as")
    case True
    then have "poss av (as @ [a]) ?p \<subset> poss av as ?p"
      using p(2) by (auto simp: sat_by_def poss_snoc a_subject_def)
    moreover have "finite (poss av as ?p)" by (rule finite_subset [OF poss_univ finu])
    ultimately show ?thesis using True by (simp add: package_weight_def psubset_card_mono)
  next
    case False
    have "card (poss av (as @ [a]) ?p) \<le> card (univ av ?p)" by (rule card_mono [OF finu poss_univ])
    then show ?thesis using False by (simp add: package_weight_def)
  qed
  then show "\<exists>p \<in> insert root_name N. package_weight av (as @ [a]) p < package_weight av as p" using p by blast
qed

text \<open>The trail is no longer than the outcomes it can remove and the decisions it holds.\<close>

lemma trail_length_bound:
  assumes "\<forall>p \<in> N. finite (av p)" "finite N" "trail_ok av N as"
  shows "weight av N as + length as \<le> weight av N [] + num_decisions as"
  using assms(3)
proof (induction as rule: rev_induct)
  case (snoc a as)
  then have IH: "weight av N as + length as \<le> weight av N [] + num_decisions as" by simp
  show ?case
  proof (cases "a_cause a")
    case None
    moreover have "weight av N (as @ [a]) \<le> weight av N as" by (rule weight_antimono [OF assms(1)]) auto
    ultimately show ?thesis using IH by (simp add: is_decision_def)
  next
    case (Some c)
    moreover have "weight av N (as @ [a]) < weight av N as"
      by (rule weight_derivation [OF assms(1,2) _ Some]) (use snoc.prems in simp)
    ultimately show ?thesis using IH by (simp add: is_decision_def)
  qed
qed simp

lemma distinct_decisions: "trail_ok av N as \<Longrightarrow> distinct (map a_subject (filter is_decision as))"
proof (induction as rule: rev_induct)
  case (snoc a as)
  then show ?case using step_decided [of av N as a] by auto
qed simp

lemma num_decisions_bound:
  assumes "trail_ok av N as" "finite N"
  shows "num_decisions as \<le> card (insert root_name N)"
proof -
  have "num_decisions as = card (set (map a_subject (filter is_decision as)))"
    using distinct_card [OF distinct_decisions [OF assms(1)]] by (simp add: num_decisions_def)
  also have "\<dots> \<le> card (insert root_name N)"
    by (rule card_mono) (use assms trail_wf [OF assms(1)] in auto)
  finally show ?thesis .
qed

section \<open>The measure falls\<close>

lemma level_weight_bound:
  assumes "\<forall>p \<in> N. finite (av p)"
  shows "level_weight av N as l < Suc (Suc (weight av N []))"
  using weight_antimono [OF assms, of "[]"] by (simp add: level_weight_def less_Suc_eq_le le_SucI)

lemma filter_level_all: "trail_ok av N as \<Longrightarrow> num_decisions as \<le> l \<Longrightarrow> filter (\<lambda>a. a_level a \<le> l) as = as"
  using trail_level_le [of av N as] by (fastforce simp: filter_id_conv in_set_conv_nth)

text \<open>A derivation on a level, after the later levels are dropped.\<close>

lemma measure_derivation:
  assumes fin: "\<forall>p \<in> N. finite (av p)" "finite N"
    and tr: "trail_ok av N as" and l: "1 \<le> l" "l \<le> num_decisions as"
    and step: "step_ok av N (filter (\<lambda>a. a_level a \<le> l) as) a" "a_cause a = Some c"
  shows "trail_measure av N (filter (\<lambda>a. a_level a \<le> l) as @ [a]) < trail_measure av N as"
  unfolding trail_measure_def
proof (rule digits_less [of _ _ _ l])
  let ?cs = "filter (\<lambda>a. a_level a \<le> l) as"
  have nd: "num_decisions ?cs = l" using filter_level_num_decisions [OF tr, of l] l(2) by simp
  have dec: "\<not> is_decision a" using step(2) by (simp add: is_decision_def)
  have lev: "a_level a = l" using step_ok_level [OF step(1)] nd dec by simp
  show "level_weight av N (?cs @ [a]) i < Suc (Suc (weight av N []))" for i by (rule level_weight_bound [OF fin(1)])
  show "1 \<le> l" by (rule l(1))
  show "l < 1 + card (insert root_name N)" using num_decisions_bound [OF tr fin(2)] l(2) by simp
  show "level_weight av N (?cs @ [a]) i = level_weight av N as i" if "i < l" for i
  proof -
    have "filter (\<lambda>a. a_level a \<le> i) ?cs = filter (\<lambda>a. a_level a \<le> i) as"
      using that by (auto simp: filter_filter intro!: filter_cong)
    then show ?thesis using that nd dec lev l(2) by (simp add: level_weight_def)
  qed
  show "level_weight av N (?cs @ [a]) l < level_weight av N as l"
    using weight_derivation [OF fin step] nd dec lev l(2) by (simp add: level_weight_def)
qed

lemma measure_decision:
  assumes fin: "\<forall>p \<in> N. finite (av p)" "finite N"
    and tr: "trail_ok av N as" and step: "step_ok av N as a" "a_cause a = None"
  shows "trail_measure av N (as @ [a]) < trail_measure av N as"
  unfolding trail_measure_def
proof (rule digits_less [of _ _ _ "Suc (num_decisions as)"])
  have dec: "is_decision a" using step(2) by (simp add: is_decision_def)
  have lev: "a_level a = Suc (num_decisions as)" using step_ok_level [OF step(1)] dec by simp
  have tr': "trail_ok av N (as @ [a])" using tr step by simp
  show "level_weight av N (as @ [a]) i < Suc (Suc (weight av N []))" for i by (rule level_weight_bound [OF fin(1)])
  show "1 \<le> Suc (num_decisions as)" by simp
  show "Suc (num_decisions as) < 1 + card (insert root_name N)"
    using num_decisions_bound [OF tr' fin(2)] dec by simp
  show "level_weight av N (as @ [a]) i = level_weight av N as i" if "i < Suc (num_decisions as)" for i
    using that lev by (simp add: level_weight_def)
  show "level_weight av N (as @ [a]) (Suc (num_decisions as)) < level_weight av N as (Suc (num_decisions as))"
    using weight_antimono [OF fin(1), of "[]"] dec by (simp add: level_weight_def less_Suc_eq_le)
qed

end
