(* ===== verification/Propagation.thy ===== *)
theory Propagation
  imports Trail_Measure
begin

text \<open>
  Unit propagation (\<open>_propagate\<close> of \<open>satresolver/core.py\<close>). The scan of an
  incompatibility classifies it as satisfied, open or neither; a derivation or a resolved
  conflict lowers the measure of the trail, so the two loops end. Alongside, the
  requirements of the decided versions: those of every decided version are established by
  the assignments of its level, except while the propagation of the newest decision still
  has its incompatibilities ahead of it.
\<close>

text \<open>A fuelled function settles on a value when every large enough fuel gives it.\<close>

definition settles :: "(nat \<Rightarrow> 'a) \<Rightarrow> 'a \<Rightarrow> bool" where
  "settles f r \<longleftrightarrow> (\<exists>n0. \<forall>n \<ge> n0. f n = r)"

definition resolver_ok :: "(string \<Rightarrow> 'v package_version set) \<Rightarrow> string set \<Rightarrow> 'v resolver \<Rightarrow> bool" where
  "resolver_ok av N R \<longleftrightarrow> ps_ok av N (r_solution R) \<and> ps_assignments (r_solution R) \<noteq> []
     \<and> (\<forall>p. \<forall>i \<in> set (r_incompatibilities R p). ok_inc av N i)"

abbreviation trail_of :: "'v resolver \<Rightarrow> 'v assignment list" where
  "trail_of R \<equiv> ps_assignments (r_solution R)"

definition finite_graph :: "(string \<Rightarrow> 'v package_version set) \<Rightarrow> string set \<Rightarrow> bool" where
  "finite_graph av N \<longleftrightarrow> finite N \<and> (\<forall>p \<in> N. finite (av p))"

section \<open>Settling\<close>

lemma settlesI: "(\<And>n. n \<ge> n0 \<Longrightarrow> f n = r) \<Longrightarrow> settles f r"
  by (auto simp: settles_def)

lemma settles_Suc: "settles (\<lambda>n. f (Suc n)) r \<Longrightarrow> settles f r"
  unfolding settles_def by (metis Suc_le_D Suc_le_mono)

lemma settles_rbind:
  assumes "settles f (Inr x)" "settles (g x) r"
  shows "settles (\<lambda>n. rbind (f n) (\<lambda>x. g x n)) r"
proof -
  obtain n1 n2 where "\<forall>n \<ge> n1. f n = Inr x" "\<forall>n \<ge> n2. g x n = r" using assms by (auto simp: settles_def)
  then show ?thesis by (intro settlesI [of "max n1 n2"]) simp
qed

lemma settles_rbind_Inl: "settles f (Inl e) \<Longrightarrow> settles (\<lambda>n. rbind (f n) (\<lambda>x. g x n)) (Inl e)"
  unfolding settles_def by (metis rbind_simps(1))

lemma settles_unique:
  assumes "settles f r" "settles f s"
  shows "r = s"
proof -
  obtain n1 n2 where n: "\<forall>n \<ge> n1. f n = r" "\<forall>n \<ge> n2. f n = s" using assms by (auto simp: settles_def)
  have "f (max n1 n2) = r" using n(1) by simp
  moreover have "f (max n1 n2) = s" using n(2) by simp
  ultimately show ?thesis by simp
qed

section \<open>Scanning an incompatibility\<close>

lemma scan_terms_open:
  assumes "ps_ok av N S" "\<And>t. t \<in> set ts \<Longrightarrow> wf_tm av t"
  shows "scan_terms ts (Some t0) S =
    Inr (if \<forall>t \<in> set ts. sat_by av (ps_assignments S) t then Some (Some t0) else None)"
  using assms(2)
proof (induction ts)
  case (Cons t ts)
  then show ?case
    using ps_satisfies_ok [OF assms(1), of t] ps_is_incompatible_ok [OF assms(1), of t] by simp
qed simp

lemma scan_terms_ok:
  assumes ok: "ps_ok av N S" and inc: "ok_inc av N i"
  shows "all_sat av (ps_assignments S) i \<Longrightarrow> scan_terms (terms i) None S = Inr (Some None)"
    and "t \<in> set (terms i) \<Longrightarrow> inconclusive av (ps_assignments S) t \<Longrightarrow>
      \<forall>u \<in> set (terms i). u \<noteq> t \<longrightarrow> sat_by av (ps_assignments S) u \<Longrightarrow>
      scan_terms (terms i) None S = Inr (Some (Some t))"
    and "\<not> all_sat av (ps_assignments S) i \<Longrightarrow> \<not> opens av (ps_assignments S) i \<Longrightarrow> scan_terms (terms i) None S = Inr None"
proof -
  let ?as = "ps_assignments S"
  have wf: "wf_tm av t" if "t \<in> set (terms i)" for t using inc that by (simp add: ok_inc_def ok_tm_def)
  have dist: "distinct (terms i)" using inc by (simp add: ok_inc_def distinct_map)
  have prefix: "scan_terms (us @ ts) None S = scan_terms ts None S"
    if "\<And>u. u \<in> set us \<Longrightarrow> wf_tm av u \<and> sat_by av ?as u" for us ts
    using that by (induction us) (auto simp: ps_satisfies_ok [OF ok])
  show "scan_terms (terms i) None S = Inr (Some None)" if "all_sat av ?as i"
    using prefix [of "terms i" "[]"] that wf by (simp add: all_sat_def)
  have first: "scan_terms (terms i) None S =
      (if inconclusive av ?as t then Inr (if \<forall>u \<in> set ts. sat_by av ?as u then Some (Some t) else None)
       else Inr None)"
    if split: "terms i = us @ t # ts" and sat: "\<forall>u \<in> set us. sat_by av ?as u" and no: "\<not> sat_by av ?as t" for us t ts
  proof -
    have w: "wf_tm av u" if "u \<in> set us \<union> {t} \<union> set ts" for u using wf [of u] split that by auto
    have "scan_terms (terms i) None S = scan_terms (t # ts) None S"
      unfolding split by (rule prefix) (use w sat in auto)
    then show ?thesis
      using no w scan_terms_open [OF ok, of ts t] ps_satisfies_ok [OF ok, of t] ps_is_incompatible_ok [OF ok, of t]
      by (simp add: inconclusive_def)
  qed
  show "scan_terms (terms i) None S = Inr (Some (Some t))"
    if t: "t \<in> set (terms i)" "inconclusive av ?as t" "\<forall>u \<in> set (terms i). u \<noteq> t \<longrightarrow> sat_by av ?as u"
  proof -
    obtain us ts where split: "terms i = us @ t # ts" using t(1) by (meson split_list)
    then have "\<forall>u \<in> set us. sat_by av ?as u" "\<forall>u \<in> set ts. sat_by av ?as u" using t(3) dist by auto
    then show ?thesis using first [OF split] t(2) by (simp add: inconclusive_def)
  qed
  assume no: "\<not> all_sat av ?as i" "\<not> opens av ?as i"
  then have "\<exists>t \<in> set (terms i). \<not> sat_by av ?as t" by (auto simp: all_sat_def)
  then obtain us t ts where split: "terms i = us @ t # ts" "\<not> sat_by av ?as t" "\<forall>u \<in> set us. \<not> \<not> sat_by av ?as u"
    using split_list_first_prop [of "terms i" "\<lambda>t. \<not> sat_by av ?as t"] by blast
  have "\<not> (inconclusive av ?as t \<and> (\<forall>u \<in> set ts. sat_by av ?as u))"
    using no(2) split unfolding opens_def by auto
  then show "scan_terms (terms i) None S = Inr None" using first [OF split(1) _ split(2)] split(3) by auto
qed

section \<open>One incompatibility\<close>

lemma derive_step_ok:
  assumes ok: "ps_ok av N S" and ne: "ps_assignments S \<noteq> []" and inc: "ok_inc av N i"
    and t: "t \<in> set (terms i)" "inconclusive av (ps_assignments S) t"
      "\<forall>u \<in> set (terms i). u \<noteq> t \<longrightarrow> sat_by av (ps_assignments S) u"
  obtains S' a where "derive (inverse t) (IncompatibilityCause i) S = Inr S'" "ps_ok av N S'"
    "ps_assignments S' = ps_assignments S @ [a]" "step_ok av N (ps_assignments S) a"
    "a_term a = inverse t" "a_cause a = Some (IncompatibilityCause i)"
proof -
  let ?as = "ps_assignments S"
  let ?a = "\<lparr>a_term = inverse t, a_level = num_decisions ?as, a_index = length ?as, a_cause = Some (IncompatibilityCause i)\<rparr>"
  have okt: "ok_tm av N t" using inc t(1) by (simp add: ok_inc_def)
  then have wf: "wf_tm av t" "subject t \<in> insert root_name N" by (simp_all add: ok_tm_def)
  have "poss av ?as (subject t) \<inter> outcomes (inverse t) \<noteq> {}"
  proof (cases "has (subject t) ?as")
    case True
    then show ?thesis using t(2) poss_univ [of av ?as "subject t"]
      by (auto simp: inconclusive_def sat_by_def outcomes_inverse [OF wf(1)])
  next
    case False
    have "None \<in> outcomes (inverse t)" if "is_positive t" using that by simp
    then have "outcomes (inverse t) \<noteq> {}" using okt by (auto simp: ok_tm_def simp del: None_outcomes)
    then show ?thesis using False outcomes_univ [of av "inverse t"] wf(1) by (auto simp: not_has_poss)
  qed
  moreover have "\<not> sat_by av ?as (inverse t)"
    using t(2) by (auto simp: inconclusive_def sat_by_def outcomes_inverse [OF wf(1)])
  ultimately have step: "step_ok av N ?as ?a"
    using wf t ne inc by (auto simp: step_ok_def derivation_ok_def a_subject_def)
  obtain S' where "derive (inverse t) (IncompatibilityCause i) S = Inr S'" "ps_ok av N S'" "ps_assignments S' = ?as @ [?a]"
    by (rule derive_ok [OF ok step])
  then show thesis by (rule that [of S' ?a]) (simp_all add: step)
qed

lemma propagate_incompatibility_ok:
  assumes ok: "resolver_ok av N R" and inc: "ok_inc av N i"
  shows "all_sat av (trail_of R) i \<Longrightarrow> propagate_incompatibility i R = Inr (PConflict i, R)"
    and "\<not> all_sat av (trail_of R) i \<Longrightarrow> \<not> opens av (trail_of R) i \<Longrightarrow> propagate_incompatibility i R = Inr (PNone, R)"
    and "opens av (trail_of R) i \<Longrightarrow> \<exists>t S' a. propagate_incompatibility i R = Inr (PSubject (subject t), R\<lparr>r_solution := S'\<rparr>)
      \<and> ps_ok av N S' \<and> ps_assignments S' = trail_of R @ [a] \<and> step_ok av N (trail_of R) a
      \<and> a_term a = inverse t \<and> a_cause a = Some (IncompatibilityCause i)
      \<and> t \<in> set (terms i) \<and> \<not> sat_by av (trail_of R) t"
proof -
  have ps: "ps_ok av N (r_solution R)" "trail_of R \<noteq> []" using ok by (simp_all add: resolver_ok_def)
  note scan = scan_terms_ok [OF ps(1) inc]
  show "propagate_incompatibility i R = Inr (PConflict i, R)" if "all_sat av (trail_of R) i"
    using scan(1) [OF that] by (simp add: propagate_incompatibility_def)
  show "propagate_incompatibility i R = Inr (PNone, R)" if "\<not> all_sat av (trail_of R) i" "\<not> opens av (trail_of R) i"
    using scan(3) [OF that] by (simp add: propagate_incompatibility_def)
  assume "opens av (trail_of R) i"
  then obtain t where t: "t \<in> set (terms i)" "inconclusive av (trail_of R) t"
    "\<forall>u \<in> set (terms i). u \<noteq> t \<longrightarrow> sat_by av (trail_of R) u" by (auto simp: opens_def)
  obtain S' a where d: "derive (inverse t) (IncompatibilityCause i) (r_solution R) = Inr S'" "ps_ok av N S'"
    "ps_assignments S' = trail_of R @ [a]" "step_ok av N (trail_of R) a"
    "a_term a = inverse t" "a_cause a = Some (IncompatibilityCause i)"
    by (rule derive_step_ok [OF ps inc t])
  show "\<exists>t S' a. propagate_incompatibility i R = Inr (PSubject (subject t), R\<lparr>r_solution := S'\<rparr>)
      \<and> ps_ok av N S' \<and> ps_assignments S' = trail_of R @ [a] \<and> step_ok av N (trail_of R) a
      \<and> a_term a = inverse t \<and> a_cause a = Some (IncompatibilityCause i)
      \<and> t \<in> set (terms i) \<and> \<not> sat_by av (trail_of R) t"
    using d t scan(2) [OF t]
    by (intro exI [of _ t] exI [of _ S'] exI [of _ a])
      (simp add: propagate_incompatibility_def lift_solution_def inconclusive_def)
qed

lemma incompatibilities_add:
  "r_incompatibilities (add_incompatibility i R) p =
     r_incompatibilities R p @ map (\<lambda>_. i) (filter (\<lambda>t. subject t = p) (terms i))"
proof -
  have "fold (\<lambda>t f. f(subject t := f (subject t) @ [i])) ts f p = f p @ map (\<lambda>_. i) (filter (\<lambda>t. subject t = p) ts)" for ts f
    by (induction ts arbitrary: f) auto
  then show ?thesis by (simp add: add_incompatibility_def)
qed

lemma add_incompatibility_same [simp]:
  "r_solution (add_incompatibility i R) = r_solution R"
  "r_config (add_incompatibility i R) = r_config R"
  "r_has_run_flag (add_incompatibility i R) = r_has_run_flag R"
  "r_loop_iterations (add_incompatibility i R) = r_loop_iterations R"
  by (simp_all add: add_incompatibility_def)

lemma resolver_ok_add: "resolver_ok av N R \<Longrightarrow> ok_inc av N i \<Longrightarrow> resolver_ok av N (add_incompatibility i R)"
  by (auto simp: resolver_ok_def incompatibilities_add)


text \<open>
  One incompatibility of the \<open>for\<close> loop, with any fuel longer than the trail: nothing
  happens, a term is derived on the current level, a conflict is resolved and its
  consequence derived on a lower level, or there is no solution.
\<close>

definition extends :: "'v resolver \<Rightarrow> 'v resolver \<Rightarrow> bool" where
  "extends R R' \<longleftrightarrow> r_config R' = r_config R \<and> r_has_run_flag R' = r_has_run_flag R
     \<and> (\<forall>p. \<exists>is. r_incompatibilities R' p = r_incompatibilities R p @ is)"

lemma extends_refl [simp]: "extends R R"
  by (simp add: extends_def)

lemma extends_trans: "extends R R' \<Longrightarrow> extends R' R'' \<Longrightarrow> extends R R''"
  unfolding extends_def by (metis append.assoc)

lemma extends_add: "extends R (add_incompatibility i R)"
  by (simp add: extends_def incompatibilities_add)

lemma propagate_one_ok:
  assumes ok: "resolver_ok av N R" and inc: "ok_inc av N i"
  obtains
    (Idle) "\<not> all_sat av (trail_of R) i" "\<not> opens av (trail_of R) i" "\<And>n. propagate_one n i R = Inr ([], R)"
  | (Derive) t R' a where "opens av (trail_of R) i" "\<And>n. propagate_one n i R = Inr ([PSubject (subject t)], R')"
      "t \<in> set (terms i)" "\<not> sat_by av (trail_of R) t" "resolver_ok av N R'" "extends R R'"
      "trail_of R' = trail_of R @ [a]" "step_ok av N (trail_of R) a" "a_term a = inverse t" "a_cause a \<noteq> None"
  | (Learn) p R' a l where "\<And>n. n > length (trail_of R) \<Longrightarrow> propagate_one n i R = Inr ([PSubject p], R')"
      "resolver_ok av N R'" "extends R R'" "1 \<le> l" "l < num_decisions (trail_of R)"
      "trail_of R' = filter (\<lambda>a. a_level a \<le> l) (trail_of R) @ [a]"
      "step_ok av N (filter (\<lambda>a. a_level a \<le> l) (trail_of R)) a" "a_cause a \<noteq> None"
  | (Fail) j where "is_failure j" "\<And>n. n > length (trail_of R) \<Longrightarrow> propagate_one n i R = Inl (ResolutionError j)"
proof -
  have ps: "ps_ok av N (r_solution R)" "trail_of R \<noteq> []" using ok by (simp_all add: resolver_ok_def)
  consider (idle) "\<not> all_sat av (trail_of R) i" "\<not> opens av (trail_of R) i" | (opn) "opens av (trail_of R) i"
    | (sat) "all_sat av (trail_of R) i" by blast
  then show thesis
  proof cases
    case idle
    then show thesis using Idle propagate_incompatibility_ok(2) [OF ok inc] by (simp add: propagate_one_def)
  next
    case opn
    obtain t S' a where d: "propagate_incompatibility i R = Inr (PSubject (subject t), R\<lparr>r_solution := S'\<rparr>)"
      "ps_ok av N S'" "ps_assignments S' = trail_of R @ [a]" "step_ok av N (trail_of R) a" "a_term a = inverse t"
      "a_cause a = Some (IncompatibilityCause i)" "t \<in> set (terms i)" "\<not> sat_by av (trail_of R) t"
      using propagate_incompatibility_ok(3) [OF ok inc opn] by blast
    show thesis
      by (rule Derive [of t "R\<lparr>r_solution := S'\<rparr>" a])
        (use d opn ok in \<open>simp_all add: propagate_one_def resolver_ok_def extends_def\<close>)
  next
    case sat
    have conf: "propagate_incompatibility i R = Inr (PConflict i, R)" by (rule propagate_incompatibility_ok(1) [OF ok inc sat])
    have full: "all_sat av (take (length (trail_of R)) (trail_of R)) i" using sat by simp
    from resolve_loop_ok [OF ps(1) inc full ps(2), of i] show thesis
    proof (elim disjE exE conjE)
      fix j
      assume "is_failure j" "\<forall>n > length (trail_of R). resolve_loop n i i R = Inl (ResolutionError j)"
      then show thesis by (intro Fail [of j]) (simp_all add: propagate_one_def resolve_conflict_def conf)
    next
      fix j S' l
      assume j: "ok_inc av N j" "1 \<le> l" "l < num_decisions (trail_of R)" "backtrack l (r_solution R) = Inr S'"
        "ps_ok av N S'" "ps_assignments S' = filter (\<lambda>a. a_level a \<le> l) (trail_of R)" "opens av (ps_assignments S') j"
        and loop: "\<forall>n > length (trail_of R). resolve_loop n i i R =
          Inr (j, if j \<noteq> i then add_incompatibility j (R\<lparr>r_solution := S'\<rparr>) else R\<lparr>r_solution := S'\<rparr>)"
      define R1 where "R1 = (if j \<noteq> i then add_incompatibility j (R\<lparr>r_solution := S'\<rparr>) else R\<lparr>r_solution := S'\<rparr>)"
      have sol: "r_solution R1 = S'" by (simp add: R1_def)
      have "extends R (R\<lparr>r_solution := S'\<rparr>)" by (simp add: extends_def)
      then have ext: "extends R R1" unfolding R1_def using extends_trans [OF _ extends_add] by auto
      have ne: "ps_assignments S' \<noteq> []"
      proof -
        have tr: "trail_ok av N (trail_of R)" using ps(1) by (simp add: ps_ok_def)
        have "trail_of R ! 0 \<in> set (filter (\<lambda>a. a_level a \<le> l) (trail_of R))"
          using trail_first(2) [OF tr ps(2)] ps(2) j(2) by simp
        then show ?thesis using j(6) by (metis empty_iff empty_set)
      qed
      have "resolver_ok av N (R\<lparr>r_solution := S'\<rparr>)" using ok j(5) ne by (simp add: resolver_ok_def)
      then have ok1: "resolver_ok av N R1" unfolding R1_def using resolver_ok_add j(1) by auto
      have opn: "opens av (trail_of R1) j" using j(7) sol by simp
      obtain t S'' a where d: "propagate_incompatibility j R1 = Inr (PSubject (subject t), R1\<lparr>r_solution := S''\<rparr>)"
        "ps_ok av N S''" "ps_assignments S'' = trail_of R1 @ [a]" "step_ok av N (trail_of R1) a"
        "a_cause a = Some (IncompatibilityCause j)" "a_term a = inverse t"
        using propagate_incompatibility_ok(3) [OF ok1 j(1) opn] by blast
      show thesis
      proof (rule Learn [of "subject t" "R1\<lparr>r_solution := S''\<rparr>" l a])
        show "propagate_one n i R = Inr ([PSubject (subject t)], R1\<lparr>r_solution := S''\<rparr>)" if "length (trail_of R) < n" for n
          using loop that d(1) by (simp add: propagate_one_def resolve_conflict_def conf R1_def)
        show "extends R (R1\<lparr>r_solution := S''\<rparr>)" using ext by (simp add: extends_def)
        show "resolver_ok av N (R1\<lparr>r_solution := S''\<rparr>)" using ok1 d(2,3) by (simp add: resolver_ok_def)
      qed (use d sol j in simp_all)
    qed
  qed
qed


section \<open>Established requirements\<close>

text \<open>
  \<open>req v\<close> is the requirements of a version: pairs of a package and the versions accepted
  of it. A requirement of a decided version is established when the assignments up to the
  level of the decision leave only accepted versions.
\<close>

definition dependee :: "(string \<Rightarrow> 'v package_version set) \<Rightarrow> 'v package_version \<Rightarrow> 'v tm" where
  "dependee av v = (if v = ROOT then RootConstraint True else require (pv_subject v) {v} (av (pv_subject v)))"

definition requirement_terms ::
  "(string \<Rightarrow> 'v package_version set) \<Rightarrow> 'v package_version \<Rightarrow> string \<Rightarrow> 'v package_version set \<Rightarrow> 'v tm list" where
  "requirement_terms av v n W = [dependee av v, exclude n W (av n)]"

definition established ::
  "(string \<Rightarrow> 'v package_version set) \<Rightarrow> 'v assignment list \<Rightarrow> nat \<Rightarrow> string \<Rightarrow> 'v package_version set \<Rightarrow> bool" where
  "established av as l n W \<longleftrightarrow> sat_by av (filter (\<lambda>a. a_level a \<le> l) as) (require n W (av n))"

definition requirements_ok ::
  "(string \<Rightarrow> 'v package_version set) \<Rightarrow> ('v package_version \<Rightarrow> (string \<times> 'v package_version set) set)
   \<Rightarrow> 'v incompatibility list \<Rightarrow> string \<Rightarrow> 'v assignment list \<Rightarrow> bool" where
  "requirements_ok av req pending p as \<longleftrightarrow>
     (\<forall>d \<in> set as. is_decision d \<longrightarrow> (\<forall>v n W. a_term d = dependee av v \<longrightarrow> (n, W) \<in> req v \<longrightarrow>
        established av as (a_level d) n W
        \<or> (a_subject d = p \<and> a_level d = num_decisions as
           \<and> (\<exists>i \<in> set pending. terms i = requirement_terms av v n W))))"

lemma requirements_okD:
  assumes "requirements_ok av req is p as" "d \<in> set as" "is_decision d" "a_term d = dependee av v" "(n, W) \<in> req v"
  obtains (Established) "established av as (a_level d) n W"
  | (Pending) j where "a_subject d = p" "a_level d = num_decisions as" "j \<in> set is" "terms j = requirement_terms av v n W"
proof -
  have "established av as (a_level d) n W \<or> (a_subject d = p \<and> a_level d = num_decisions as
      \<and> (\<exists>i \<in> set is. terms i = requirement_terms av v n W))"
    by (rule assms(1) [unfolded requirements_ok_def, rule_format, OF assms(2-5)])
  then show thesis using Established Pending by auto
qed

lemma established_mono:
  assumes "established av as l n W" "set (filter (\<lambda>a. a_level a \<le> l) as) \<subseteq> set bs"
  shows "established av bs l n W"
proof -
  have "set (filter (\<lambda>a. a_level a \<le> l) as) \<subseteq> set (filter (\<lambda>a. a_level a \<le> l) bs)" using assms(2) by auto
  then show ?thesis using assms(1) unfolding established_def by (rule sat_by_mono)
qed

lemma requirements_ok_mono:
  assumes "requirements_ok av req is p as" "set is \<subseteq> set js"
  shows "requirements_ok av req js p as"
  using assms unfolding requirements_ok_def by blast

lemma requirements_ok_Nil: "requirements_ok av req [] p as \<Longrightarrow> requirements_ok av req is q as"
  unfolding requirements_ok_def by simp

text \<open>A derivation on the current level keeps what is established.\<close>

lemma requirements_ok_derive:
  assumes "requirements_ok av req is p as" "\<not> is_decision a"
  shows "requirements_ok av req is p (as @ [a])"
proof -
  have "established av (as @ [a]) l n W" if "established av as l n W" for l n W
    using that by (rule established_mono) auto
  then show ?thesis using assms unfolding requirements_ok_def by fastforce
qed

text \<open>Below the current level nothing is pending.\<close>

lemma requirements_ok_filter:
  assumes tr: "trail_ok av N as" and ok: "requirements_ok av req is p as" and l: "l < num_decisions as"
  shows "requirements_ok av req [] q (filter (\<lambda>a. a_level a \<le> l) as)"
  unfolding requirements_ok_def
proof (intro ballI impI allI disjI1)
  fix d v n W
  assume d: "d \<in> set (filter (\<lambda>a. a_level a \<le> l) as)" "is_decision d" "a_term d = dependee av v" "(n, W) \<in> req v"
  then have "a_level d \<noteq> num_decisions as" using l by auto
  then have "established av as (a_level d) n W" using ok d unfolding requirements_ok_def by auto
  then show "established av (filter (\<lambda>a. a_level a \<le> l) as) (a_level d) n W"
    by (rule established_mono) (use d(1) in auto)
qed

text \<open>
  What is pending on an incompatibility is established once that incompatibility is handled:
  its first term holds of the decision, so the second is contradicted already or derived.
\<close>

lemma requirement_derived:
  assumes "as \<noteq> []" and d: "d \<in> set as" "is_decision d" "a_term d = dependee av v"
    and i: "terms i = requirement_terms av v n W" and inc: "ok_inc av N i" and tr: "trail_ok av N as"
  shows "sat_by av as (dependee av v)"
    and "\<not> all_sat av as i \<Longrightarrow> \<not> opens av as i \<Longrightarrow> sat_by av as (require n W (av n))"
proof -
  have "subject (dependee av v) = a_subject d" using d(3) by (simp add: a_subject_def)
  then show sat: "sat_by av as (dependee av v)" using d by (auto simp: sat_by_def has_def poss_def)
  have wf: "wf_tm av (exclude n W (av n))" using inc i by (simp add: ok_inc_def ok_tm_def requirement_terms_def)
  assume no: "\<not> all_sat av as i" "\<not> opens av as i"
  have neq: "dependee av v \<noteq> exclude n W (av n)" by (simp add: dependee_def require_def exclude_def)
  then have nsat: "\<not> sat_by av as (exclude n W (av n))" using no(1) sat i by (auto simp: all_sat_def requirement_terms_def)
  then have "\<not> inconclusive av as (exclude n W (av n))"
    using no(2) sat i neq by (auto simp: opens_def requirement_terms_def)
  then have "has n as" "poss av as n \<inter> outcomes (exclude n W (av n)) = {}"
    using nsat by (auto simp: inconclusive_def exclude_def)
  then show "sat_by av as (require n W (av n))"
    using wf poss_univ [of av as n] by (auto simp: sat_by_def require_def exclude_def univ_def)
qed


section \<open>The loops\<close>

definition propagated ::
  "(string \<Rightarrow> 'v package_version set) \<Rightarrow> string set \<Rightarrow> ('v package_version \<Rightarrow> (string \<times> 'v package_version set) set)
   \<Rightarrow> 'v resolver \<Rightarrow> 'v resolver \<Rightarrow> bool" where
  "propagated av N req R R' \<longleftrightarrow> resolver_ok av N R' \<and> extends R R' \<and> requirements_ok av req [] [] (trail_of R')
     \<and> (trail_of R' = trail_of R \<or> trail_measure av N (trail_of R') < trail_measure av N (trail_of R))"

definition no_solution :: "'v resolver_error \<Rightarrow> bool" where
  "no_solution e \<longleftrightarrow> (\<exists>j. e = ResolutionError j \<and> is_failure j)"

lemma propagated_trans:
  assumes "propagated av N req R' R''" "extends R R'"
    "trail_of R' = trail_of R \<or> trail_measure av N (trail_of R') < trail_measure av N (trail_of R)"
  shows "propagated av N req R R''"
proof -
  have "extends R R''" by (rule extends_trans [OF assms(2)]) (use assms(1) in \<open>simp add: propagated_def\<close>)
  then show ?thesis using assms(1,3) unfolding propagated_def by (elim conjE disjE) simp_all
qed

text \<open>The trail of a derivation, on the current level or below it.\<close>

lemma measure_learn:
  assumes fin: "finite_graph av N" and ok: "resolver_ok av N R" and l: "1 \<le> l" "l \<le> num_decisions (trail_of R)"
    and a: "step_ok av N (filter (\<lambda>a. a_level a \<le> l) (trail_of R)) a" "a_cause a \<noteq> None"
  shows "trail_measure av N (filter (\<lambda>a. a_level a \<le> l) (trail_of R) @ [a]) < trail_measure av N (trail_of R)"
proof -
  obtain c where "a_cause a = Some c" using a(2) by blast
  moreover have "trail_ok av N (trail_of R)" using ok by (simp add: resolver_ok_def ps_ok_def)
  ultimately show ?thesis using measure_derivation [of N av "trail_of R" l a c] fin l a(1) by (simp add: finite_graph_def)
qed

lemma measure_derive:
  assumes fin: "finite_graph av N" and ok: "resolver_ok av N R"
    and a: "step_ok av N (trail_of R) a" "a_cause a \<noteq> None"
  shows "trail_measure av N (trail_of R @ [a]) < trail_measure av N (trail_of R)"
proof -
  have tr: "trail_ok av N (trail_of R)" "trail_of R \<noteq> []" using ok by (simp_all add: resolver_ok_def ps_ok_def)
  have "filter (\<lambda>a. a_level a \<le> num_decisions (trail_of R)) (trail_of R) = trail_of R"
    by (rule filter_level_all [OF tr(1)]) simp
  moreover have "1 \<le> num_decisions (trail_of R)"
    using trail_level_pos [OF tr(1), of 0] trail_level_le [OF tr(1), of 0] tr(2) by simp
  ultimately show ?thesis using measure_learn [OF fin ok _ order_refl, of a] a by simp
qed

text \<open>
  One step of the \<open>for\<close> loop moves what is pending to the rest of the list.
\<close>

lemma requirements_ok_step:
  assumes ok: "resolver_ok av N R" and inc: "ok_inc av N i"
    and req: "requirements_ok av req (i # is) p (trail_of R)"
  shows "\<not> all_sat av (trail_of R) i \<Longrightarrow> \<not> opens av (trail_of R) i \<Longrightarrow> requirements_ok av req is p (trail_of R)"
    and "t \<in> set (terms i) \<Longrightarrow> \<not> sat_by av (trail_of R) t \<Longrightarrow> a_term a = inverse t \<Longrightarrow> a_cause a \<noteq> None \<Longrightarrow>
      step_ok av N (trail_of R) a \<Longrightarrow> requirements_ok av req is p (trail_of R @ [a])"
proof -
  let ?as = "trail_of R"
  have tr: "trail_ok av N ?as" "?as \<noteq> []" using ok by (simp_all add: resolver_ok_def ps_ok_def)
  have top: "established av bs (num_decisions bs) n W \<longleftrightarrow> sat_by av bs (require n W (av n))" if "trail_ok av N bs" for bs n W
    using filter_level_all [OF that order_refl] by (simp add: established_def)
  show "requirements_ok av req is p ?as" if no: "\<not> all_sat av ?as i" "\<not> opens av ?as i"
    unfolding requirements_ok_def
  proof (intro ballI impI allI)
    fix d v n W
    assume d: "d \<in> set ?as" "is_decision d" "a_term d = dependee av v" "(n, W) \<in> req v"
    show "established av ?as (a_level d) n W \<or> (a_subject d = p \<and> a_level d = num_decisions ?as
        \<and> (\<exists>i \<in> set is. terms i = requirement_terms av v n W))"
    proof (cases rule: requirements_okD [OF req d])
      case (2 j)
      show ?thesis
      proof (cases "j = i")
        case True
        then have "sat_by av ?as (require n W (av n))"
          using requirement_derived(2) [OF tr(2) d(1-3) _ inc tr(1) no] 2(4) by simp
        then show ?thesis using top [OF tr(1)] 2(2) by simp
      next
        case False
        then show ?thesis using 2 by auto
      qed
    qed simp
  qed
  assume t: "t \<in> set (terms i)" "\<not> sat_by av ?as t" and a: "a_term a = inverse t" "a_cause a \<noteq> None" "step_ok av N ?as a"
  have nd: "\<not> is_decision a" using a(2) by (simp add: is_decision_def)
  have tr': "trail_ok av N (?as @ [a])" using tr(1) a(3) by simp
  have lvl: "num_decisions (?as @ [a]) = num_decisions ?as" using nd by simp
  have full: "requirements_ok av req (i # is) p (?as @ [a])" by (rule requirements_ok_derive [OF req nd])
  show "requirements_ok av req is p (?as @ [a])"
    unfolding requirements_ok_def
  proof (intro ballI impI allI)
    fix d v n W
    assume d: "d \<in> set (?as @ [a])" "is_decision d" "a_term d = dependee av v" "(n, W) \<in> req v"
    then have d': "d \<in> set ?as" using nd by auto
    show "established av (?as @ [a]) (a_level d) n W \<or> (a_subject d = p \<and> a_level d = num_decisions (?as @ [a])
        \<and> (\<exists>i \<in> set is. terms i = requirement_terms av v n W))"
    proof (cases rule: requirements_okD [OF full d])
      case (2 j)
      show ?thesis
      proof (cases "j = i")
        case True
        have "sat_by av ?as (dependee av v)"
          using requirement_derived(1) [OF tr(2) d' d(2,3) _ inc tr(1)] 2(4) True by simp
        then have "t = exclude n W (av n)" using t 2(4) True by (auto simp: requirement_terms_def)
        then have "a_term a = require n W (av n)" using a(1) by (simp add: exclude_def require_def)
        then have "sat_by av (?as @ [a]) (require n W (av n))" by (auto simp: sat_by_def a_subject_def poss_snoc)
        then show ?thesis using top [OF tr'] 2(2) by simp
      next
        case False
        then show ?thesis using 2 by auto
      qed
    qed simp
  qed
qed

text \<open>What a run of the \<open>for\<close> loop over the incompatibilities of \<open>p\<close> ends with.\<close>

definition for_result ::
  "(string \<Rightarrow> 'v package_version set) \<Rightarrow> string set \<Rightarrow> ('v package_version \<Rightarrow> (string \<times> 'v package_version set) set)
   \<Rightarrow> 'v incompatibility list \<Rightarrow> 'v propagation list \<Rightarrow> 'v resolver
   \<Rightarrow> 'v resolver_error + ('v propagation list \<times> 'v resolver) \<Rightarrow> bool" where
  "for_result av N req is ch R r \<longleftrightarrow>
     (case r of
        Inl e \<Rightarrow> no_solution e
      | Inr (ch', R') \<Rightarrow> propagated av N req R R'
          \<and> (\<exists>qs. ch' = ch @ map PSubject qs \<and> (trail_of R' = trail_of R \<longrightarrow> qs = []))
          \<and> ((\<exists>i \<in> set is. all_sat av (trail_of R) i) \<longrightarrow> trail_of R' \<noteq> trail_of R))"

lemma for_result_after:
  assumes "for_result av N req js (ch @ [PSubject q]) R' r" "extends R R'"
    "trail_measure av N (trail_of R') < trail_measure av N (trail_of R)"
  shows "for_result av N req is ch R r"
proof (cases r)
  case (Inl e)
  then show ?thesis using assms(1) by (simp add: for_result_def)
next
  case (Inr x)
  obtain ch' R'' where x: "x = (ch', R'')" by (cases x)
  obtain qs where p: "propagated av N req R' R''" "ch' = ch @ [PSubject q] @ map PSubject qs"
    using assms(1) Inr x by (auto simp: for_result_def)
  have "propagated av N req R R''" using propagated_trans [OF p(1) assms(2)] assms(3) by simp
  moreover have "trail_of R'' \<noteq> trail_of R" using p(1) assms(3) by (auto simp: propagated_def)
  ultimately show ?thesis using Inr x p(2) by (auto simp: for_result_def intro: exI [of _ "q # qs"])
qed

lemma propagate_for_unfold:
  assumes "k < length (r_incompatibilities R p)" "settles (\<lambda>n. propagate_one n (r_incompatibilities R p ! k) R) (Inr (new, R'))"
    "settles (\<lambda>n. propagate_for n (PSubject p) (Suc k) (ch @ new) R') r"
  shows "settles (\<lambda>n. propagate_for n (PSubject p) k ch R) r"
proof (rule settles_Suc)
  have "settles (\<lambda>n. rbind (propagate_one n (r_incompatibilities R p ! k) R)
      (\<lambda>(new, R'). propagate_for n (PSubject p) (Suc k) (ch @ new) R')) r"
    using settles_rbind [OF assms(2), of "\<lambda>(new, R') n. propagate_for n (PSubject p) (Suc k) (ch @ new) R'" r] assms(3)
    by (simp add: case_prod_unfold)
  then show "settles (\<lambda>n. propagate_for (Suc n) (PSubject p) k ch R) r" using assms(1) by simp
qed

lemma propagate_for_ok:
  assumes fin: "finite_graph av N" and "resolver_ok av N R"
    and "requirements_ok av req (drop k (r_incompatibilities R p)) p (trail_of R)"
  shows "\<exists>r. settles (\<lambda>n. propagate_for n (PSubject p) k ch R) r
    \<and> for_result av N req (drop k (r_incompatibilities R p)) ch R r"
  using assms(2,3)
proof (induction "trail_measure av N (trail_of R)" arbitrary: R k ch rule: less_induct)
  case less
  note outer = less.hyps
  show ?case using less.prems
  proof (induction "length (r_incompatibilities R p) - k" arbitrary: k ch)
    case 0
    then have k: "length (r_incompatibilities R p) \<le> k" by simp
    have "settles (\<lambda>n. propagate_for n (PSubject p) k ch R) (Inr (ch, R))"
      by (rule settles_Suc) (use k in \<open>simp add: settles_def\<close>)
    moreover have "requirements_ok av req [] [] (trail_of R)" using 0(3) k requirements_ok_Nil by fastforce
    ultimately show ?case using 0(2) k by (auto simp: for_result_def propagated_def)
  next
    case (Suc m)
    let ?is = "r_incompatibilities R p"
    have k: "k < length ?is" using Suc.hyps(2) by simp
    let ?i = "?is ! k"
    have drop: "drop k ?is = ?i # drop (Suc k) ?is" using k by (simp add: Cons_nth_drop_Suc)
    have inc: "ok_inc av N ?i" using Suc.prems(1) nth_mem [OF k] unfolding resolver_ok_def by blast
    have req: "requirements_ok av req (?i # drop (Suc k) ?is) p (trail_of R)" using Suc.prems(2) drop by simp
    show ?case
    proof (cases rule: propagate_one_ok [OF Suc.prems(1) inc])
      case 1
      have rest: "requirements_ok av req (drop (Suc k) ?is) p (trail_of R)"
        by (rule requirements_ok_step(1) [OF Suc.prems(1) inc req 1(1,2)])
      have "m = length ?is - Suc k" using Suc.hyps(2) by simp
      then obtain r where r: "settles (\<lambda>n. propagate_for n (PSubject p) (Suc k) ch R) r"
        "for_result av N req (drop (Suc k) ?is) ch R r"
        using Suc.hyps(1) [OF _ Suc.prems(1) rest] by blast
      have "settles (\<lambda>n. propagate_for n (PSubject p) k ch R) r"
        by (rule propagate_for_unfold [OF k, where new = "[]" and R' = R])
          (use 1(3) r(1) in \<open>simp_all add: settlesI\<close>)
      moreover have "for_result av N req (drop k ?is) ch R r"
        using r(2) 1(1) unfolding drop for_result_def by (auto split: sum.splits)
      ultimately show ?thesis by blast
    next
      case (2 t R' a)
      have less_m: "trail_measure av N (trail_of R') < trail_measure av N (trail_of R)"
        using measure_derive [OF fin Suc.prems(1) 2(8,10)] 2(7) by simp
      obtain js where js: "r_incompatibilities R' p = ?is @ js" using 2(6) by (auto simp: extends_def)
      have "requirements_ok av req (drop (Suc k) ?is) p (trail_of R')"
        using requirements_ok_step(2) [OF Suc.prems(1) inc req 2(3,4,9,10,8)] 2(7) by simp
      then have "requirements_ok av req (drop (Suc k) (r_incompatibilities R' p)) p (trail_of R')"
        by (rule requirements_ok_mono) (simp add: js)
      then obtain r where r: "settles (\<lambda>n. propagate_for n (PSubject p) (Suc k) (ch @ [PSubject (subject t)]) R') r"
        "for_result av N req (drop (Suc k) (r_incompatibilities R' p)) (ch @ [PSubject (subject t)]) R' r"
        using outer [OF less_m 2(5)] by blast
      have "settles (\<lambda>n. propagate_for n (PSubject p) k ch R) r"
        by (rule propagate_for_unfold [OF k _ r(1)]) (use 2(2) in \<open>simp add: settles_def\<close>)
      then show ?thesis using for_result_after [OF r(2) 2(6) less_m] by blast
    next
      case (3 q R' a l)
      have tr: "trail_ok av N (trail_of R)" using Suc.prems(1) by (simp add: resolver_ok_def ps_ok_def)
      have less_m: "trail_measure av N (trail_of R') < trail_measure av N (trail_of R)"
        using measure_learn [OF fin Suc.prems(1) 3(4) less_imp_le [OF 3(5)] 3(7,8)] 3(6) by simp
      have "requirements_ok av req [] p (trail_of R')"
        unfolding 3(6) by (rule requirements_ok_derive [OF requirements_ok_filter [OF tr req 3(5)]])
          (use 3(8) in \<open>simp add: is_decision_def\<close>)
      then have "requirements_ok av req (drop (Suc k) (r_incompatibilities R' p)) p (trail_of R')"
        by (rule requirements_ok_Nil)
      then obtain r where r: "settles (\<lambda>n. propagate_for n (PSubject p) (Suc k) (ch @ [PSubject q]) R') r"
        "for_result av N req (drop (Suc k) (r_incompatibilities R' p)) (ch @ [PSubject q]) R' r"
        using outer [OF less_m 3(2)] by blast
      have "settles (\<lambda>n. propagate_for n (PSubject p) k ch R) r"
        by (rule propagate_for_unfold [OF k settlesI [of "Suc (length (trail_of R))"] r(1)]) (use 3(1) in simp)
      then show ?thesis using for_result_after [OF r(2) 3(3) less_m] by blast
    next
      case (4 j)
      have "settles (\<lambda>n. propagate_one n ?i R) (Inl (ResolutionError j))"
        by (rule settlesI [of "Suc (length (trail_of R))"]) (use 4(2) in simp)
      then have "settles (\<lambda>n. rbind (propagate_one n ?i R)
          (\<lambda>x. case x of (new, R') \<Rightarrow> propagate_for n (PSubject p) (Suc k) (ch @ new) R')) (Inl (ResolutionError j))"
        by (rule settles_rbind_Inl)
      then have "settles (\<lambda>n. propagate_for n (PSubject p) k ch R) (Inl (ResolutionError j))"
        by (intro settles_Suc [of "\<lambda>n. propagate_for n (PSubject p) k ch R"]) (use k in simp)
      then show ?thesis using 4(1) by (auto simp: for_result_def no_solution_def)
    qed
  qed
qed

text \<open>
  The queue. Its head may have requirements pending; every later entry is a subject whose
  term was just derived. A conflict among the incompatibilities of the head changes the
  trail.
\<close>

definition queue_ok ::
  "(string \<Rightarrow> 'v package_version set) \<Rightarrow> ('v package_version \<Rightarrow> (string \<times> 'v package_version set) set)
   \<Rightarrow> string list \<Rightarrow> 'v resolver \<Rightarrow> bool" where
  "queue_ok av req qs R \<longleftrightarrow>
     (case qs of [] \<Rightarrow> requirements_ok av req [] [] (trail_of R)
      | q # _ \<Rightarrow> requirements_ok av req (r_incompatibilities R q) q (trail_of R))"

lemma queue_okI: "requirements_ok av req [] [] (trail_of R) \<Longrightarrow> queue_ok av req qs R"
  by (auto simp: queue_ok_def requirements_ok_Nil split: list.splits)

lemma propagated_trail_neq:
  assumes "propagated av N req R R'" "propagated av N req R' R''" "trail_of R' \<noteq> trail_of R"
  shows "trail_of R'' \<noteq> trail_of R"
  using assms unfolding propagated_def by auto

lemma propagate_loop_ok:
  assumes fin: "finite_graph av N" and "resolver_ok av N R" "queue_ok av req qs R"
  shows "\<exists>r. settles (\<lambda>n. propagate_loop n (map PSubject qs) R) r
    \<and> (case r of Inl e \<Rightarrow> no_solution e
       | Inr R' \<Rightarrow> propagated av N req R R'
           \<and> (qs \<noteq> [] \<longrightarrow> (\<exists>i \<in> set (r_incompatibilities R (hd qs)). all_sat av (trail_of R) i) \<longrightarrow> trail_of R' \<noteq> trail_of R))"
  using assms(2,3)
proof (induction "(trail_measure av N (trail_of R), length qs)" arbitrary: R qs rule: less_induct)
  case less
  show ?case
  proof (cases qs)
    case Nil
    have "settles (\<lambda>n. propagate_loop n (map PSubject []) R) (Inr R)"
      by (rule settles_Suc) (simp add: settles_def)
    then show ?thesis using Nil less.prems by (auto simp: propagated_def queue_ok_def)
  next
    case (Cons q ps)
    have "requirements_ok av req (drop 0 (r_incompatibilities R q)) q (trail_of R)"
      using less.prems(2) Cons by (simp add: queue_ok_def)
    then obtain r where r: "settles (\<lambda>n. propagate_for n (PSubject q) 0 (map PSubject ps) R) r"
      "for_result av N req (r_incompatibilities R q) (map PSubject ps) R r"
      using propagate_for_ok [OF fin less.prems(1)] by fastforce
    have unfold: "(\<lambda>n. propagate_loop (Suc n) (map PSubject qs) R) =
      (\<lambda>n. rbind (propagate_for n (PSubject q) 0 (map PSubject ps) R) (\<lambda>x. (\<lambda>(ch, R') n. propagate_loop n ch R') x n))"
      by (simp add: Cons case_prod_unfold)
    show ?thesis
    proof (cases r)
      case (Inl e)
      have "settles (\<lambda>n. propagate_loop n (map PSubject qs) R) (Inl e)"
        by (rule settles_Suc) (simp only: unfold settles_rbind_Inl [OF r(1) [unfolded Inl]])
      then show ?thesis using r(2) Inl by (auto simp: for_result_def)
    next
      case (Inr x)
      then obtain ch' R' where x: "r = Inr (ch', R')" by (cases x) simp
      then obtain ps' where p: "propagated av N req R R'" "ch' = map PSubject (ps @ ps')" "trail_of R' = trail_of R \<longrightarrow> ps' = []"
        "(\<exists>i \<in> set (r_incompatibilities R q). all_sat av (trail_of R) i) \<longrightarrow> trail_of R' \<noteq> trail_of R"
        using r(2) by (auto simp: for_result_def)
      have lt: "(trail_measure av N (trail_of R'), length (ps @ ps')) < (trail_measure av N (trail_of R), length qs)"
        using p(1,3) Cons by (auto simp: propagated_def)
      have ok': "resolver_ok av N R'" "queue_ok av req (ps @ ps') R'"
        using p(1) queue_okI by (auto simp: propagated_def)
      obtain r' where r': "settles (\<lambda>n. propagate_loop n (map PSubject (ps @ ps')) R') r'"
        "\<And>e. r' = Inl e \<Longrightarrow> no_solution e" "\<And>R''. r' = Inr R'' \<Longrightarrow> propagated av N req R' R''"
      proof -
        from less.hyps [OF lt ok'] obtain r' where "settles (\<lambda>n. propagate_loop n (map PSubject (ps @ ps')) R') r'"
          and "case r' of Inl e \<Rightarrow> no_solution e | Inr R'' \<Rightarrow> propagated av N req R' R''
            \<and> (ps @ ps' \<noteq> [] \<longrightarrow> (\<exists>i \<in> set (r_incompatibilities R' (hd (ps @ ps'))). all_sat av (trail_of R') i)
                 \<longrightarrow> trail_of R'' \<noteq> trail_of R')" by blast
        then show thesis by (intro that [of r']) simp_all
      qed
      have "settles (\<lambda>n. propagate_loop n (map PSubject qs) R) r'"
        by (rule settles_Suc) (simp only: unfold, rule settles_rbind [OF r(1) [unfolded x]], use r'(1) p(2) in simp)
      moreover have "propagated av N req R R''" if "propagated av N req R' R''" for R''
        by (rule propagated_trans [OF that]) (use p(1) in \<open>simp_all add: propagated_def\<close>)
      ultimately show ?thesis using r'(2,3) Cons p(4) propagated_trail_neq [OF p(1)]
        by (intro exI [of _ r']) (cases r', auto)
    qed
  qed
qed

end
