(* ===== verification/Config_Invariant.thy ===== *)
theory Config_Invariant
  imports Resolver_Config Propagation
begin

text \<open>
  The configuration and the dependency graph behind it. On a graph whose fetches fail only
  with \<open>PackageNotFoundError\<close>, the cached calls return what the graph's methods say, whatever
  the state of the caches; the lemmas give the value of each operation of
  \<open>satresolver/config.py\<close> the resolver calls.
\<close>

section \<open>What a graph says\<close>

definition av_of :: "'v graph_ops \<Rightarrow> string \<Rightarrow> 'v package_version set" where
  "av_of ops n = (case fetch_all_versions_for ops n of Inl e \<Rightarrow> {} | Inr vs \<Rightarrow> vs)"

definition deps_of :: "'v graph_ops \<Rightarrow> 'v dependencies \<Rightarrow> 'v package_version \<Rightarrow> 'v dependencies" where
  "deps_of ops direct v =
     (if v = ROOT then direct
      else case fetch_dependencies_for ops v of Inl e \<Rightarrow> [] | Inr deps \<Rightarrow> deps)"

definition accepted :: "(string, 'v package_version list) dict \<Rightarrow> string \<Rightarrow> 'v package_version set \<Rightarrow> 'v package_version set" where
  "accepted over n W = (case map_of over n of None \<Rightarrow> W | Some pinned \<Rightarrow> set pinned)"

definition req_of ::
  "'v graph_ops \<Rightarrow> 'v dependencies \<Rightarrow> (string, 'v package_version list) dict
   \<Rightarrow> 'v package_version \<Rightarrow> (string \<times> 'v package_version set) set" where
  "req_of ops direct over v = (\<lambda>(n, W). (n, accepted over n W)) ` set (deps_of ops direct v)"

definition not_found_only :: "'v graph_ops \<Rightarrow> bool" where
  "not_found_only ops \<longleftrightarrow>
     (\<forall>n e. fetch_all_versions_for ops n = Inl e \<longrightarrow> is_not_found e)
     \<and> (\<forall>v e. fetch_dependencies_for ops v = Inl e \<longrightarrow> is_not_found e)"

text \<open>
  The graphs the resolver is correct on: finitely many packages with finitely many versions,
  no package named like the root, and every requirement names another package and accepts
  some version of it that exists.
\<close>

definition graph_ok ::
  "'v graph_ops \<Rightarrow> string set \<Rightarrow> 'v dependencies \<Rightarrow> (string, 'v package_version list) dict \<Rightarrow> bool" where
  "graph_ok ops N direct over \<longleftrightarrow>
     not_found_only ops \<and> finite N \<and> root_name \<notin> N
     \<and> (\<forall>n \<in> N. finite (av_of ops n) \<and> (\<forall>v \<in> av_of ops n. pv_subject v = n))
     \<and> (\<forall>v. v = ROOT \<or> (\<exists>n \<in> N. v \<in> av_of ops n) \<longrightarrow>
          (\<forall>(n, W) \<in> req_of ops direct over v. n \<in> N \<and> n \<noteq> pv_subject v \<and> W \<inter> av_of ops n \<noteq> {}))"

lemma graph_okD:
  assumes "graph_ok ops N direct over"
  shows "not_found_only ops" "finite_graph (av_of ops) N"
    "\<And>n v. n \<in> N \<Longrightarrow> v \<in> av_of ops n \<Longrightarrow> pv_subject v = n" "root_name \<notin> N"
    "\<And>v n W. v = ROOT \<or> (\<exists>n \<in> N. v \<in> av_of ops n) \<Longrightarrow> (n, W) \<in> req_of ops direct over v \<Longrightarrow>
       n \<in> N \<and> n \<noteq> pv_subject v \<and> W \<inter> av_of ops n \<noteq> {}"
proof -
  show "not_found_only ops" "finite_graph (av_of ops) N" "root_name \<notin> N"
    using assms by (simp_all add: graph_ok_def finite_graph_def)
  show "pv_subject v = n" if "n \<in> N" "v \<in> av_of ops n" for n v using assms that by (simp add: graph_ok_def)
  have all: "\<forall>v. v = ROOT \<or> (\<exists>n \<in> N. v \<in> av_of ops n) \<longrightarrow>
      (\<forall>(n, W) \<in> req_of ops direct over v. n \<in> N \<and> n \<noteq> pv_subject v \<and> W \<inter> av_of ops n \<noteq> {})"
    using assms unfolding graph_ok_def by (elim conjE)
  fix v n W
  assume v: "v = ROOT \<or> (\<exists>n \<in> N. v \<in> av_of ops n)" and nW: "(n, W) \<in> req_of ops direct over v"
  have "\<forall>(n, W) \<in> req_of ops direct over v. n \<in> N \<and> n \<noteq> pv_subject v \<and> W \<inter> av_of ops n \<noteq> {}"
    by (rule all [THEN spec, of v, THEN mp, OF v])
  with nW show "n \<in> N \<and> n \<noteq> pv_subject v \<and> W \<inter> av_of ops n \<noteq> {}" by blast
qed

definition graph_state_ok :: "'v graph_ops \<Rightarrow> 'v dependencies \<Rightarrow> 'v graph \<Rightarrow> bool" where
  "graph_state_ok ops direct g \<longleftrightarrow>
     map_of (dependency_map g) ROOT = Some direct
     \<and> (\<forall>v d. map_of (dependency_map g) v = Some d \<longrightarrow> d = deps_of ops direct v)"

section \<open>Cached calls\<close>

lemma all_versions_ok:
  assumes "not_found_only ops" "graph_state_ok ops direct g"
  shows "\<exists>g'. all_versions ops n g = Inr (av_of ops n, g') \<and> graph_state_ok ops direct g'"
  using assms by (auto simp: all_versions_def av_of_def not_found_only_def graph_state_ok_def split: sum.splits)

lemma graph_state_ok_cache:
  assumes "graph_state_ok ops direct g" "v \<noteq> ROOT" "dependency_map g' = AList.update v (deps_of ops direct v) (dependency_map g)"
  shows "graph_state_ok ops direct g'"
  using assms by (simp add: graph_state_ok_def)

lemma dependencies_for_ok:
  assumes nf: "not_found_only ops" and ok: "graph_state_ok ops direct g"
  shows "\<exists>g'. dependencies_for ops v g = Inr (deps_of ops direct v, g') \<and> graph_state_ok ops direct g'"
proof (cases "map_of (dependency_map g) v")
  case (Some d)
  then show ?thesis using ok by (auto simp: dependencies_for_def graph_state_ok_def)
next
  case None
  then have root: "v \<noteq> ROOT" using ok by (auto simp: graph_state_ok_def)
  show ?thesis
  proof (cases "fetch_dependencies_for ops v")
    case (Inl e)
    then have "is_not_found e" "deps_of ops direct v = []" using nf root by (auto simp: not_found_only_def deps_of_def)
    with None Inl graph_state_ok_cache [OF ok root] show ?thesis by (simp add: dependencies_for_def)
  next
    case (Inr deps)
    then have "deps_of ops direct v = deps" using root by (simp add: deps_of_def)
    with None Inr graph_state_ok_cache [OF ok root] show ?thesis by (simp add: dependencies_for_def)
  qed
qed

definition config_graph_ok :: "'v graph_ops \<Rightarrow> 'v dependencies \<Rightarrow> 'v config \<Rightarrow> bool" where
  "config_graph_ok ops direct c \<longleftrightarrow> not_found_only ops \<and> graph_state_ok ops direct (cfg_graph c)"

text \<open>Two configurations that differ in the state of the caches only.\<close>

definition same_config :: "'v graph_ops \<Rightarrow> 'v dependencies \<Rightarrow> 'v config \<Rightarrow> 'v config \<Rightarrow> bool" where
  "same_config ops direct c c' \<longleftrightarrow> (\<exists>g. c' = c\<lparr>cfg_graph := g\<rparr> \<and> graph_state_ok ops direct g)"

lemma same_config_refl: "config_graph_ok ops direct c \<Longrightarrow> same_config ops direct c c"
  unfolding same_config_def config_graph_ok_def by (intro exI [of _ "cfg_graph c"]) simp

lemma same_config_trans: "same_config ops direct c c' \<Longrightarrow> same_config ops direct c' c'' \<Longrightarrow> same_config ops direct c c''"
  by (auto simp: same_config_def)

lemma same_config_ok:
  "config_graph_ok ops direct c \<Longrightarrow> same_config ops direct c c' \<Longrightarrow> config_graph_ok ops direct c'"
  by (auto simp: same_config_def config_graph_ok_def)

lemma same_config_fields:
  assumes "same_config ops direct c c'"
  shows "overrides c' = overrides c" "use_latest c' = use_latest c" "locked c' = locked c"
    "downgrades c' = downgrades c" "have_listed c' = have_listed c" "have_used_latest c' = have_used_latest c"
    "have_used_locked c' = have_used_locked c" "should_use_latest c' = should_use_latest c"
    "should_use_locked c' = should_use_locked c"
  using assms by (auto simp: same_config_def should_use_latest_def should_use_locked_def)

lemma cfg_all_versions_ok:
  assumes "config_graph_ok ops direct c"
  obtains c' where "cfg_all_versions ops n c = Inr (av_of ops n, c')" "same_config ops direct c c'"
proof -
  obtain g where "all_versions ops n (cfg_graph c) = Inr (av_of ops n, g)" "graph_state_ok ops direct g"
    using all_versions_ok assms unfolding config_graph_ok_def by blast
  then show thesis by (intro that [of "c\<lparr>cfg_graph := g\<rparr>"]) (auto simp: cfg_all_versions_def same_config_def)
qed

lemma cfg_dependencies_for_ok:
  assumes "config_graph_ok ops direct c"
  obtains c' where "cfg_dependencies_for ops v c = Inr (deps_of ops direct v, c')" "same_config ops direct c c'"
proof -
  obtain g where "dependencies_for ops v (cfg_graph c) = Inr (deps_of ops direct v, g)" "graph_state_ok ops direct g"
    using dependencies_for_ok assms unfolding config_graph_ok_def by blast
  then show thesis by (intro that [of "c\<lparr>cfg_graph := g\<rparr>"]) (auto simp: cfg_dependencies_for_def same_config_def)
qed

section \<open>Incompatibilities of a version\<close>

definition requirement_incompatibility ::
  "'v graph_ops \<Rightarrow> (string, 'v package_version list) dict \<Rightarrow> 'v tm \<Rightarrow> string \<times> 'v package_version set \<Rightarrow> 'v incompatibility" where
  "requirement_incompatibility ops over d = (\<lambda>(n, W).
     Incompatibility [d, exclude n (accepted over n W) (av_of ops n)]
       (if map_of over n \<noteq> None then OverrideCause else DependencyCause))"

definition requirement_incompatibilities ::
  "'v graph_ops \<Rightarrow> 'v dependencies \<Rightarrow> (string, 'v package_version list) dict \<Rightarrow> 'v package_version \<Rightarrow> 'v incompatibility list" where
  "requirement_incompatibilities ops direct over v =
     map (requirement_incompatibility ops over (dependee (av_of ops) v)) (deps_of ops direct v)"

lemma requirement_incompatibilities_terms:
  "terms ` set (requirement_incompatibilities ops direct over v) =
     (\<lambda>(n, W). requirement_terms (av_of ops) v n W) ` req_of ops direct over v"
  by (force simp: requirement_incompatibilities_def requirement_incompatibility_def requirement_terms_def req_of_def)

lemma requirement_incompatibility_terms:
  assumes "i \<in> set (requirement_incompatibilities ops direct over v)"
  obtains n W where "(n, W) \<in> req_of ops direct over v" "terms i = requirement_terms (av_of ops) v n W"
proof -
  have "terms i \<in> terms ` set (requirement_incompatibilities ops direct over v)" using assms by (rule imageI)
  then show thesis unfolding requirement_incompatibilities_terms using that by auto
qed

lemma requirement_incompatibility_exists:
  assumes "(n, W) \<in> req_of ops direct over v"
  obtains i where "i \<in> set (requirement_incompatibilities ops direct over v)" "terms i = requirement_terms (av_of ops) v n W"
proof -
  have "requirement_terms (av_of ops) v n W \<in> terms ` set (requirement_incompatibilities ops direct over v)"
    unfolding requirement_incompatibilities_terms using assms by force
  then show thesis using that by auto
qed

lemma dependency_incompatibility_ok:
  assumes "config_graph_ok ops direct c"
  obtains c' where "dependency_incompatibility ops d x (is, c) = Inr (is @ [requirement_incompatibility ops (overrides c) d x], c')"
    "same_config ops direct c c'"
proof -
  obtain n W where x: "x = (n, W)" by (cases x)
  obtain c' where c': "cfg_all_versions ops n c = Inr (av_of ops n, c')" "same_config ops direct c c'"
    by (rule cfg_all_versions_ok [OF assms])
  show thesis
    by (rule that [OF _ c'(2)])
      (simp add: x dependency_incompatibility_def requirement_incompatibility_def c'(1) Let_def accepted_def)
qed

lemma dependency_fold_ok:
  assumes "config_graph_ok ops direct c"
  shows "\<exists>c'. rfold (dependency_incompatibility ops d) deps (is, c) =
      Inr (is @ map (requirement_incompatibility ops (overrides c) d) deps, c') \<and> same_config ops direct c c'"
  using assms
proof (induction deps arbitrary: "is" c)
  case Nil
  then show ?case by (auto intro: same_config_refl)
next
  case (Cons x deps)
  obtain c1 where c1: "dependency_incompatibility ops d x (is, c) = Inr (is @ [requirement_incompatibility ops (overrides c) d x], c1)"
    "same_config ops direct c c1"
    by (rule dependency_incompatibility_ok [OF Cons.prems])
  obtain c' where c': "rfold (dependency_incompatibility ops d) deps (is @ [requirement_incompatibility ops (overrides c) d x], c1) =
      Inr ((is @ [requirement_incompatibility ops (overrides c) d x]) @ map (requirement_incompatibility ops (overrides c1) d) deps, c')"
    "same_config ops direct c1 c'"
    using Cons.IH [OF same_config_ok [OF Cons.prems c1(2)]] by blast
  show ?case
    using c1(1) c'(1) same_config_trans [OF c1(2) c'(2)] same_config_fields(1) [OF c1(2)]
    by (intro exI [of _ c']) simp
qed

lemma incompatibilities_for_ok:
  assumes ok: "config_graph_ok ops direct c" and new: "v \<notin> have_listed c"
  obtains c' where "incompatibilities_for ops v c = Inr (requirement_incompatibilities ops direct (overrides c) v, c')"
    "same_config ops direct (c\<lparr>have_listed := insert v (have_listed c)\<rparr>) c'"
proof -
  obtain c1 where c1: "(if v = ROOT then Inr (RootConstraint True, c)
         else rmap (\<lambda>(av, c1). (require (pv_subject v) {v} av, c1)) (cfg_all_versions ops (pv_subject v) c))
      = Inr (dependee (av_of ops) v, c1)" "same_config ops direct c c1"
  proof (cases "v = ROOT")
    case True
    then show thesis using that [of c] same_config_refl [OF ok] by (simp add: dependee_def)
  next
    case False
    obtain c1 where "cfg_all_versions ops (pv_subject v) c = Inr (av_of ops (pv_subject v), c1)" "same_config ops direct c c1"
      by (rule cfg_all_versions_ok [OF ok])
    then show thesis using that [of c1] False by (simp add: dependee_def)
  qed
  let ?c2 = "c1\<lparr>have_listed := insert v (have_listed c1)\<rparr>"
  have ok2: "config_graph_ok ops direct ?c2" using same_config_ok [OF ok c1(2)] by (simp add: config_graph_ok_def)
  have s2: "same_config ops direct (c\<lparr>have_listed := insert v (have_listed c)\<rparr>) ?c2"
    using c1(2) unfolding same_config_def by (elim exE conjE, intro exI conjI) simp_all
  obtain c3 where c3: "cfg_dependencies_for ops v ?c2 = Inr (deps_of ops direct v, c3)" "same_config ops direct ?c2 c3"
    by (rule cfg_dependencies_for_ok [OF ok2])
  obtain c4 where c4: "rfold (dependency_incompatibility ops (dependee (av_of ops) v)) (deps_of ops direct v) ([], c3) =
      Inr (map (requirement_incompatibility ops (overrides c3) (dependee (av_of ops) v)) (deps_of ops direct v), c4)"
    "same_config ops direct c3 c4"
    using dependency_fold_ok [OF same_config_ok [OF ok2 c3(2)], of _ _ "[]"] by auto
  have over: "overrides c3 = overrides c"
    using same_config_fields(1) [OF c3(2)] same_config_fields(1) [OF c1(2)] by simp
  have "incompatibilities_for ops v c = Inr (requirement_incompatibilities ops direct (overrides c) v, c4)"
    using new c1(1) c3(1) c4(1) over
    by (simp add: incompatibilities_for_def dependency_incompatibilities_def requirement_incompatibilities_def)
  moreover have "same_config ops direct (c\<lparr>have_listed := insert v (have_listed c)\<rparr>) c4"
    using same_config_trans [OF same_config_trans [OF s2 c3(2)] c4(2)] .
  ultimately show thesis by (rule that)
qed

section \<open>Choosing a package and a version\<close>

lemma latest_version_ok:
  assumes "config_graph_ok ops direct c" "av_of ops n \<noteq> {}"
  obtains c' where "latest_version ops n c = Inr (Max (av_of ops n), c')" "same_config ops direct c c'"
proof -
  obtain c' where "cfg_all_versions ops n c = Inr (av_of ops n, c')" "same_config ops direct c c'"
    by (rule cfg_all_versions_ok [OF assms(1)])
  then show thesis using that [of c'] assms(2) by (simp add: latest_version_def)
qed

lemma incompatibilities_for_package_ok:
  assumes ok: "config_graph_ok ops direct c" and ne: "av_of ops n \<noteq> {}"
  obtains (Latest) c' where "n \<in> should_use_latest c"
      "incompatibilities_for_package ops n c = Inr (Some (Incompatibility [require n {Max (av_of ops n)} (av_of ops n)] UseLatestCause), c')"
      "same_config ops direct (c\<lparr>have_used_latest := insert n (have_used_latest c)\<rparr>) c'"
  | (Locked) v c' where "n \<in> should_use_locked c"
      "incompatibilities_for_package ops n c = Inr (Some (Incompatibility [require n {v} (av_of ops n)] UseLockedCause), c')"
      "same_config ops direct (c\<lparr>have_used_locked := insert n (have_used_locked c)\<rparr>) c'"
  | (Nothing) c' where "incompatibilities_for_package ops n c = Inr (None, c')" "same_config ops direct c c'"
proof -
  obtain c1 where c1: "cfg_all_versions ops n c = Inr (av_of ops n, c1)" "same_config ops direct c c1"
    by (rule cfg_all_versions_ok [OF ok])
  note f = same_config_fields [OF c1(2)]
  obtain g where g: "c1 = c\<lparr>cfg_graph := g\<rparr>" "graph_state_ok ops direct g" using c1(2) by (auto simp: same_config_def)
  consider "n \<in> should_use_latest c" | "n \<notin> should_use_latest c" "n \<in> should_use_locked c"
    | "n \<notin> should_use_latest c" "n \<notin> should_use_locked c" by blast
  then show thesis
  proof cases
    case 1
    let ?c2 = "c1\<lparr>have_used_latest := insert n (have_used_latest c1)\<rparr>"
    have "config_graph_ok ops direct ?c2" using same_config_ok [OF ok c1(2)] by (simp add: config_graph_ok_def)
    then obtain c3 where c3: "latest_version ops n ?c2 = Inr (Max (av_of ops n), c3)" "same_config ops direct ?c2 c3"
      using latest_version_ok [OF _ ne] by blast
    have "same_config ops direct (c\<lparr>have_used_latest := insert n (have_used_latest c)\<rparr>) ?c2"
      unfolding same_config_def by (intro exI [of _ g]) (simp add: g)
    then have "same_config ops direct (c\<lparr>have_used_latest := insert n (have_used_latest c)\<rparr>) c3"
      using c3(2) by (rule same_config_trans)
    then show thesis using Latest [of c3] 1 c1(1) c3(1) f by (simp add: incompatibilities_for_package_def)
  next
    case 2
    then obtain v where v: "map_of (locked c1) n = Some v"
      using f(3) map_of_eq_None_iff [of "locked c" n] by (auto simp: should_use_locked_def)
    have "same_config ops direct (c\<lparr>have_used_locked := insert n (have_used_locked c)\<rparr>)
        (c1\<lparr>have_used_locked := insert n (have_used_locked c1)\<rparr>)"
      unfolding same_config_def by (intro exI [of _ g]) (simp add: g)
    then show thesis using Locked [of v] 2 c1(1) f v by (simp add: incompatibilities_for_package_def)
  next
    case 3
    then show thesis using Nothing [of c1] c1 f by (simp add: incompatibilities_for_package_def)
  qed
qed

lemma fetch_all_ok:
  assumes "config_graph_ok ops direct c"
  shows "\<exists>c'. rfold (fetch_dependencies ops) vs c = Inr c' \<and> same_config ops direct c c'"
  using assms
proof (induction vs arbitrary: c)
  case Nil
  then show ?case by (auto intro: same_config_refl)
next
  case (Cons v vs)
  obtain c1 where c1: "cfg_dependencies_for ops v c = Inr (deps_of ops direct v, c1)" "same_config ops direct c c1"
    by (rule cfg_dependencies_for_ok [OF Cons.prems])
  obtain c' where "rfold (fetch_dependencies ops) vs c1 = Inr c'" "same_config ops direct c1 c'"
    using Cons.IH [OF same_config_ok [OF Cons.prems c1(2)]] by blast
  moreover have "fetch_dependencies ops v c = Inr c1" using c1(1) by (simp add: fetch_dependencies_def)
  ultimately show ?case using same_config_trans [OF c1(2)] by (intro exI [of _ c']) simp
qed

lemma valid_versions_for_package_ok:
  assumes ok: "config_graph_ok ops direct c" and t: "is_version_constraint t"
  obtains vs c' where "valid_versions_for_package ops n t c = Inr (vs, c')" "vs \<subseteq> av_of ops n \<inter> versions t" "same_config ops direct c c'"
proof -
  obtain p V b A where T: "t = VersionConstraint p V b A" using t by (cases t) auto
  obtain c1 where c1: "(if map_of (known_invalid_versions (cfg_graph c)) n = None
      then rfold (fetch_dependencies ops) (sorted_list_of_set V) c else Inr c) = Inr c1" "same_config ops direct c c1"
    using fetch_all_ok [OF ok, of "sorted_list_of_set V"] same_config_refl [OF ok] that by (cases "map_of (known_invalid_versions (cfg_graph c)) n") auto
  obtain c2 where c2: "cfg_all_versions ops n c1 = Inr (av_of ops n, c2)" "same_config ops direct c1 c2"
    by (rule cfg_all_versions_ok [OF same_config_ok [OF ok c1(2)]])
  have s: "same_config ops direct c c2" by (rule same_config_trans [OF c1(2) c2(2)])
  then have "same_config ops direct c (c2\<lparr>cfg_graph := touch_invalid n (cfg_graph c2)\<rparr>)"
    by (auto simp: same_config_def touch_invalid_def graph_state_ok_def)
  moreover have "valid_versions_for_package ops n t c =
      Inr ((av_of ops n - invalid_versions (cfg_graph c2) n) \<inter> V, c2\<lparr>cfg_graph := touch_invalid n (cfg_graph c2)\<rparr>)"
    using c1(1) c2(1) by (simp add: valid_versions_for_package_def T)
  ultimately show thesis by (intro that) (auto simp: T)
qed

lemma valid_versions_fold_ok:
  assumes "config_graph_ok ops direct c" "\<forall>x \<in> set unsat. is_version_constraint (snd x)"
  shows "\<exists>acc' c'. rfold (valid_versions_entry ops) unsat (acc, c) = Inr (acc', c') \<and> same_config ops direct c c'
    \<and> fst ` set acc' = fst ` set acc \<union> fst ` set unsat
    \<and> (\<forall>n vs. map_of acc' n = Some vs \<longrightarrow> map_of acc n = Some vs \<or> (\<exists>t. (n, t) \<in> set unsat \<and> vs \<subseteq> av_of ops n \<inter> versions t))"
  using assms
proof (induction unsat arbitrary: acc c)
  case Nil
  then show ?case by (auto intro: same_config_refl)
next
  case (Cons x unsat)
  obtain n t where x: "x = (n, t)" by (cases x)
  have vc: "is_version_constraint t" using Cons.prems(2) x by auto
  obtain vs c1 where c1: "valid_versions_for_package ops n t c = Inr (vs, c1)" "vs \<subseteq> av_of ops n \<inter> versions t" "same_config ops direct c c1"
    by (rule valid_versions_for_package_ok [OF Cons.prems(1) vc])
  obtain acc' c' where r: "rfold (valid_versions_entry ops) unsat (AList.update n vs acc, c1) = Inr (acc', c')" "same_config ops direct c1 c'"
    "fst ` set acc' = fst ` set (AList.update n vs acc) \<union> fst ` set unsat"
    "\<forall>m us. map_of acc' m = Some us \<longrightarrow> map_of (AList.update n vs acc) m = Some us
        \<or> (\<exists>t. (m, t) \<in> set unsat \<and> us \<subseteq> av_of ops m \<inter> versions t)"
    using Cons.IH [OF same_config_ok [OF Cons.prems(1) c1(3)]] Cons.prems(2) by (metis list.set_intros(2))
  have "map_of acc m = Some us \<or> (\<exists>t. (m, t) \<in> set (x # unsat) \<and> us \<subseteq> av_of ops m \<inter> versions t)"
    if "map_of acc' m = Some us" for m us
    using r(4) [rule_format, OF that] c1(2) x by (auto split: if_splits)
  moreover have "fst ` set acc' = fst ` set acc \<union> fst ` set (x # unsat)" using r(3) x by (auto simp: keys_update)
  ultimately show ?case using r(1) c1(1) x same_config_trans [OF c1(3) r(2)]
    by (intro exI [of _ acc'] exI [of _ c']) (simp add: valid_versions_entry_def)
qed

lemma best_package_ok:
  assumes ok: "config_graph_ok ops direct c" and ne: "unsat \<noteq> []"
    and vc: "\<forall>x \<in> set unsat. is_version_constraint (snd x)"
  obtains p t vs c' where "best_package ops unsat c = Inr (p, vs, c')" "same_config ops direct c c'"
    "(p, t) \<in> set unsat" "vs \<subseteq> av_of ops p \<inter> versions t"
proof -
  obtain valid c1 where v: "rfold (valid_versions_entry ops) unsat ([], c) = Inr (valid, c1)" "same_config ops direct c c1"
    "fst ` set valid = fst ` set unsat"
    "\<forall>n vs. map_of valid n = Some vs \<longrightarrow> (\<exists>t. (n, t) \<in> set unsat \<and> vs \<subseteq> av_of ops n \<inter> versions t)"
  proof -
    from valid_versions_fold_ok [OF ok vc, of "[]"] show thesis by (elim exE conjE) (rule that, simp_all)
  qed
  let ?num = "\<lambda>(name, vs). (if name \<in> should_use_locked c1 \<union> should_use_latest c1 then 1 else card vs, name)"
  have "valid \<noteq> []" using v(3) ne by auto
  define ys where "ys = map ?num valid"
  have "ys \<noteq> []" using \<open>valid \<noteq> []\<close> by (simp add: ys_def)
  then obtain k best r where srt: "sort ys = (k, best) # r" by (cases "sort ys") auto
  then have "(k, best) \<in> set ys" using set_sort [of "\<lambda>x. x" ys] by auto
  then have "best \<in> fst ` set valid" unfolding ys_def by (auto simp: rev_image_eqI)
  then obtain vs where vs: "map_of valid best = Some vs" by (metis map_of_eq_None_iff not_Some_eq)
  obtain t where t: "(best, t) \<in> set unsat" "vs \<subseteq> av_of ops best \<inter> versions t" using v(4) vs by blast
  have "best_package ops unsat c = Inr (best, vs, c1)" using v(1) srt vs by (simp add: best_package_def Let_def ys_def)
  then show thesis by (rule that [OF _ v(2) t])
qed

lemma best_version_for_package_ok:
  assumes "valid \<noteq> {}" "finite valid"
  shows "\<exists>v \<in> valid. best_version_for_package n valid c = Inr v"
proof -
  have "Max valid \<in> valid" "Min valid \<in> valid" using assms by simp_all
  then show ?thesis using assms(1) by (auto simp: best_version_for_package_def split: option.split)
qed

end
