(* ===== verification/Regex.thy ===== *)
theory Regex
  imports Prelude
begin

text \<open>
  The fragment of Python's \<open>re\<close> that the sources use: classes of characters, sequences,
  alternatives, greedy repetition and options, named groups and the end of the string. A
  match is a backtracking search that returns the first success, so \<open>rx_matches\<close> lists all
  of them in the order in which the search finds them, each with the groups it has set and
  the text that is left. Text is ASCII.
\<close>

datatype regex =
    Cls "char \<Rightarrow> bool"
  | Many "char \<Rightarrow> bool"
  | Seq regex regex
  | Alt regex regex
  | Opt regex
  | Star regex
  | Group string regex
  | End

type_synonym groups = "(string \<times> string) list"

text \<open>The repetition of a class: the longest run first.\<close>

fun runs :: "(char \<Rightarrow> bool) \<Rightarrow> string \<Rightarrow> (groups \<times> string) list" where
  "runs P [] = [([], [])]"
| "runs P (c # s) = (if P c then runs P s @ [([], c # s)] else [([], c # s)])"

text \<open>
  The repetition of any expression; an iteration that consumes nothing ends it, so the
  length of the text bounds the number of iterations.
\<close>

fun star_matches :: "(string \<Rightarrow> (groups \<times> string) list) \<Rightarrow> nat \<Rightarrow> string \<Rightarrow> (groups \<times> string) list" where
  "star_matches f 0 s = [([], s)]"
| "star_matches f (Suc n) s =
     concat (map (\<lambda>(g, t). if length t < length s then map (\<lambda>(g', t'). (g @ g', t')) (star_matches f n t) else []) (f s)) @ [([], s)]"

primrec rx_matches :: "regex \<Rightarrow> string \<Rightarrow> (groups \<times> string) list" where
  "rx_matches (Cls P) s = (case s of [] \<Rightarrow> [] | c # t \<Rightarrow> if P c then [([], t)] else [])"
| "rx_matches (Many P) s = runs P s"
| "rx_matches (Seq r q) s = concat (map (\<lambda>(g, t). map (\<lambda>(g', t'). (g @ g', t')) (rx_matches q t)) (rx_matches r s))"
| "rx_matches (Alt r q) s = rx_matches r s @ rx_matches q s"
| "rx_matches (Opt r) s = rx_matches r s @ [([], s)]"
| "rx_matches (Star r) s = star_matches (rx_matches r) (length s) s"
| "rx_matches (Group n r) s = map (\<lambda>(g, t). (g @ [(n, take (length s - length t) s)], t)) (rx_matches r s)"
| "rx_matches End s = (if s = [] \<or> s = newline then [([], s)] else [])"

definition rx_match :: "regex \<Rightarrow> string \<Rightarrow> (groups \<times> string) option" where
  "rx_match r s = (case rx_matches r s of [] \<Rightarrow> None | m # _ \<Rightarrow> Some m)"

definition rx_group :: "groups \<Rightarrow> string \<Rightarrow> string option" where
  "rx_group g n = map_of (rev g) n"

section \<open>Common expressions\<close>

abbreviation Lit :: "char \<Rightarrow> regex" where
  "Lit c \<equiv> Cls (\<lambda>x. x = c)"

abbreviation Plus :: "(char \<Rightarrow> bool) \<Rightarrow> regex" where
  "Plus P \<equiv> Seq (Cls P) (Many P)"

abbreviation is_digit :: "char \<Rightarrow> bool" where
  "is_digit c \<equiv> CHR ''0'' \<le> c \<and> c \<le> CHR ''9''"

abbreviation is_lower :: "char \<Rightarrow> bool" where
  "is_lower c \<equiv> CHR ''a'' \<le> c \<and> c \<le> CHR ''z''"

abbreviation is_letter :: "char \<Rightarrow> bool" where
  "is_letter c \<equiv> is_lower c \<or> CHR ''A'' \<le> c \<and> c \<le> CHR ''Z''"

abbreviation is_word :: "char \<Rightarrow> bool" where
  "is_word c \<equiv> is_letter c \<or> is_digit c \<or> c = CHR ''_''"

section \<open>The first match\<close>

text \<open>
  A search that succeeds on its first choices does not backtrack: the first match of a
  sequence is that of its parts.
\<close>

lemma runs_first: "\<exists>ms. runs P s = ([], dropWhile P s) # ms"
  by (induction s) auto

lemma rx_match_Some: "rx_match r s = Some m \<longleftrightarrow> (\<exists>ms. rx_matches r s = m # ms)"
  by (auto simp: rx_match_def split: list.splits)

lemma rx_match_None: "rx_match r s = None \<longleftrightarrow> rx_matches r s = []"
  by (auto simp: rx_match_def split: list.splits)

lemma rx_match_Many [simp]: "rx_match (Many P) s = Some ([], dropWhile P s)"
  using runs_first [of P s] by (simp add: rx_match_Some)

lemma rx_match_Cls [simp]:
  "rx_match (Cls P) [] = None"
  "rx_match (Cls P) (c # s) = (if P c then Some ([], s) else None)"
  by (simp_all add: rx_match_def)

lemma rx_match_Seq: "rx_match r s = Some (g, t) \<Longrightarrow> rx_match q t = Some (g', t') \<Longrightarrow> rx_match (Seq r q) s = Some (g @ g', t')"
  by (auto simp: rx_match_Some)

lemma rx_match_Seq_fail: "rx_match r s = None \<Longrightarrow> rx_match (Seq r q) s = None"
  by (auto simp: rx_match_None)

lemma rx_match_Alt: "rx_match (Alt r q) s = (case rx_match r s of None \<Rightarrow> rx_match q s | Some m \<Rightarrow> Some m)"
  by (auto simp: rx_match_def split: list.splits)

lemma rx_match_Opt: "rx_match (Opt r) s = (case rx_match r s of None \<Rightarrow> Some ([], s) | Some m \<Rightarrow> Some m)"
  by (auto simp: rx_match_def split: list.splits)

lemma rx_match_Group: "rx_match r s = Some (g, t) \<Longrightarrow> rx_match (Group n r) s = Some (g @ [(n, take (length s - length t) s)], t)"
  by (auto simp: rx_match_Some)

lemma rx_match_End [simp]: "rx_match End [] = Some ([], [])"
  by (simp add: rx_match_def)

section \<open>Numbers\<close>

definition char_digit :: "char \<Rightarrow> nat" where
  "char_digit c = of_char c - 48"

definition str_nat :: "string \<Rightarrow> nat" where
  "str_nat s = fold (\<lambda>c n. n * 10 + char_digit c) s 0"

lemma digit_char_less: "d < 10 \<Longrightarrow> of_char (digit_char d) = (48 + d :: nat)"
  by (simp add: digit_char_def of_char_of)

lemma digit_char_digit: "d < 10 \<Longrightarrow> is_digit (digit_char d)"
  by (simp add: less_eq_char_def digit_char_less)

lemma char_digit_char [simp]: "d < 10 \<Longrightarrow> char_digit (digit_char d) = d"
  by (simp add: char_digit_def digit_char_less)

lemma nat_str_digits: "\<forall>c \<in> set (nat_str n). is_digit c"
proof (induction n rule: nat_str.induct)
  case (1 n)
  then show ?case by (subst nat_str.simps) (auto simp: digit_char_digit)
qed

lemma nat_str_ne [simp]: "nat_str n \<noteq> []"
  by (subst nat_str.simps) simp

lemma str_nat_append: "str_nat (s @ [c]) = str_nat s * 10 + char_digit c"
  by (simp add: str_nat_def)

lemma str_nat_nat_str [simp]: "str_nat (nat_str n) = n"
proof (induction n rule: nat_str.induct)
  case (1 n)
  show ?case
  proof (cases "n < 10")
    case True
    then show ?thesis by (subst nat_str.simps) (simp add: str_nat_def)
  next
    case False
    then have "nat_str n = nat_str (n div 10) @ [digit_char (n mod 10)]" by (subst nat_str.simps) simp
    then show ?thesis using 1 False by (simp add: str_nat_append)
  qed
qed

lemma nat_str_first: "n = 0 \<and> nat_str n = ''0'' \<or> 0 < n \<and> CHR ''1'' \<le> hd (nat_str n) \<and> hd (nat_str n) \<le> CHR ''9''"
proof (induction n rule: nat_str.induct)
  case (1 n)
  show ?case
  proof (cases "n < 10")
    case True
    then have "nat_str n = [digit_char n]" by (subst nat_str.simps) simp
    moreover have "digit_char 0 = CHR ''0''" by code_simp
    ultimately show ?thesis using True by (cases "n = 0") (auto simp: less_eq_char_def digit_char_less)
  next
    case False
    then have "nat_str n = nat_str (n div 10) @ [digit_char (n mod 10)]" by (subst nat_str.simps) simp
    moreover have "0 < n div 10" using False by (simp add: div_greater_zero_iff)
    ultimately show ?thesis using 1 False by (auto simp: hd_append)
  qed
qed

end
