(* ===== verification/Distribution_Key.thy ===== *)
theory Distribution_Key
  imports Regex
begin

text \<open>
  Keys of Python distributions: \<open>lang/python/distributions/distribution_key.py\<close> and
  \<open>distribution_type.py\<close>. A key is serialized so that the byte order of the serialized keys
  is the order of the keys, which the sorted tables of distributions rely on. Text is ASCII,
  where the encoding is one byte per character.
\<close>

section \<open>Distribution types\<close>

datatype distribution_type = WHEEL | BDIST | SDIST | EXE | RPM | DUMB | MSI

fun dist_type_value :: "distribution_type \<Rightarrow> string" where
  "dist_type_value WHEEL = ''WHEEL''"
| "dist_type_value BDIST = ''BDIST''"
| "dist_type_value SDIST = ''SDIST''"
| "dist_type_value EXE = ''EXE''"
| "dist_type_value RPM = ''RPM''"
| "dist_type_value DUMB = ''DUMB''"
| "dist_type_value MSI = ''MSI''"

definition dist_map :: "(string, distribution_type) dict" where
  "dist_map = [(''bdist_wheel'', WHEEL), (''bdist_egg'', BDIST), (''bdist_wininst'', EXE), (''bdist_rpm'', RPM),
     (''bdist_dumb'', DUMB), (''bdist_msi'', MSI), (''sdist'', SDIST)]"

definition from_setuptools_packagetype :: "string \<Rightarrow> py_error + distribution_type" where
  "from_setuptools_packagetype packagetype = (case map_of dist_map packagetype of None \<Rightarrow> Inl ToolchainAssertion | Some t \<Rightarrow> Inr t)"

text \<open>Callers pass a member of the enumeration or its value.\<close>

datatype dist_type_arg = Member distribution_type | Value string

fun dist_type_str :: "dist_type_arg \<Rightarrow> string" where
  "dist_type_str (Member t) = dist_type_value t"
| "dist_type_str (Value v) = v"

section \<open>File names\<close>

abbreviation not_dash :: "char \<Rightarrow> bool" where
  "not_dash c \<equiv> c \<noteq> CHR ''-''"

abbreviation any_char :: "char \<Rightarrow> bool" where
  "any_char c \<equiv> c \<noteq> CHR 0x0A"

definition WHEEL_PATTERN :: regex where
  "WHEEL_PATTERN = Seq (Group ''name'' (Plus not_dash)) (Seq (Lit CHR ''-'') (Seq (Group ''version'' (Plus not_dash))
     (Seq (Opt (Seq (Lit CHR ''-'') (Group ''build'' (Plus not_dash)))) (Seq (Lit CHR ''-'') (Seq (Group ''python'' (Plus not_dash))
     (Seq (Lit CHR ''-'') (Seq (Group ''abi'' (Plus not_dash)) (Seq (Lit CHR ''-'') (Seq (Group ''platform'' (Plus not_dash))
     (Seq (Cls any_char) (Seq (Lit CHR ''w'') (Seq (Lit CHR ''h'') (Lit CHR ''l'')))))))))))))"

definition BDIST_PATTERN :: regex where
  "BDIST_PATTERN = Seq (Group ''name'' (Plus not_dash))
     (Seq (Opt (Seq (Lit CHR ''-'') (Seq (Group ''version'' (Plus not_dash))
        (Opt (Seq (Lit CHR ''-'') (Seq (Group ''python'' (Seq (Lit CHR ''p'') (Seq (Lit CHR ''y'') (Plus not_dash))))
           (Opt (Seq (Lit CHR ''-'') (Group ''platform'' (Plus any_char))))))))))
     (Seq (Cls any_char) (Seq (Lit CHR ''e'') (Seq (Lit CHR ''g'') (Lit CHR ''g'')))))"

definition parse_filename :: "string \<Rightarrow> dist_type_arg \<Rightarrow> py_error + groups option" where
  "parse_filename filename dist_type =
     (if dist_type_str dist_type = dist_type_value WHEEL then Inr (map_option fst (rx_match WHEEL_PATTERN filename))
      else if dist_type_str dist_type = dist_type_value BDIST then Inr (map_option fst (rx_match BDIST_PATTERN filename))
      else Inl ValueError)"

section \<open>Python requirements\<close>

definition tag_pattern :: regex where
  "tag_pattern = Seq (Group ''name'' (Plus is_lower)) (Group ''digits'' (Plus is_digit))"

definition tag_version :: "string \<Rightarrow> string option" where
  "tag_version t =
     (case rx_match tag_pattern t of
        None \<Rightarrow> None
      | Some (g, _) \<Rightarrow> map_option (\<lambda>v. str_join ''.'' (map (\<lambda>c. [c]) v)) (rx_group g ''digits''))"

definition next_version :: "string \<Rightarrow> string" where
  "next_version v = nat_str (char_digit (hd v) + 1)"

definition str_max :: "string list \<Rightarrow> string" where
  "str_max vs = fold max (tl vs) (hd vs)"

definition str_min :: "string list \<Rightarrow> string" where
  "str_min vs = fold min (tl vs) (hd vs)"

text \<open>An unmatched group is None, which the first test treats as an empty tag.\<close>

definition python_requirement_from_tag :: "string option \<Rightarrow> string" where
  "python_requirement_from_tag tag =
     (case tag of
        None \<Rightarrow> []
      | Some [] \<Rightarrow> []
      | Some t \<Rightarrow>
          (case List.map_filter tag_version (split_on CHR ''.'' t) of
             [] \<Rightarrow> []
           | [ver] \<Rightarrow> if length ver = 1 then ''>'' @ ver @ '',<'' @ next_version ver else ''~='' @ ver
           | versions \<Rightarrow>
               (let m = str_max versions;
                    max_version = (if [hd m] \<in> set versions then [hd m] else m)
                in if length max_version = 1 then ''>='' @ str_min versions @ '',<'' @ next_version max_version
                   else ''>='' @ str_min versions @ '',<='' @ max_version)))"

section \<open>Keys\<close>

definition canonical_project_name :: "string \<Rightarrow> string" where
  "canonical_project_name name = map (\<lambda>c. if c = CHR ''_'' then CHR ''-'' else c) (str_lower name)"

record distribution_key =
  dk_package_name :: string
  dk_version :: string
  dk_distribution_type :: string
  dk_requires_python :: string
  dk_platform :: string
  dk_abi :: string
  dk_build :: string

definition create_key :: "string \<Rightarrow> string \<Rightarrow> string \<Rightarrow> dist_type_arg \<Rightarrow> string \<Rightarrow> py_error + distribution_key" where
  "create_key filename project_name version dist_type requires_python =
     rmap (\<lambda>parsed.
         let g = (case parsed of None \<Rightarrow> [] | Some g \<Rightarrow> g);
             field = (\<lambda>n. case rx_group g n of None \<Rightarrow> [] | Some v \<Rightarrow> v)
         in \<lparr>dk_package_name = canonical_project_name project_name, dk_version = version,
              dk_distribution_type = dist_type_str dist_type,
              dk_requires_python = (if requires_python \<noteq> [] then requires_python
                else python_requirement_from_tag (rx_group g ''python'')),
              dk_platform = field ''platform'', dk_abi = field ''abi'', dk_build = field ''build''\<rparr>)
       (if dist_type_str dist_type = dist_type_value SDIST then Inr None else parse_filename filename dist_type)"

definition astuple :: "distribution_key \<Rightarrow> string list" where
  "astuple k = [dk_package_name k, dk_version k, dk_distribution_type k, dk_requires_python k, dk_platform k, dk_abi k, dk_build k]"

text \<open>The order of the data class: that of the tuples of its fields.\<close>

definition key_less :: "distribution_key \<Rightarrow> distribution_key \<Rightarrow> bool" where
  "key_less k1 k2 = (astuple k1 < astuple k2)"

abbreviation tab :: char where
  "tab \<equiv> CHR 0x09"

definition to_ordered_bytes :: "distribution_key \<Rightarrow> string" where
  "to_ordered_bytes k = str_join [tab] (astuple k) @ [tab]"

text \<open>
  \<open>cls(*fields)\<close>: three fields are required, the other four have defaults, more than seven
  raise.
\<close>

definition key_of_fields :: "string list \<Rightarrow> py_error + distribution_key" where
  "key_of_fields fs =
     (if length fs < 3 \<or> 7 < length fs then Inl TypeError
      else let fs' = fs @ drop (length fs - 3) [''python'', ''any'', ''none'', []]
        in Inr \<lparr>dk_package_name = fs' ! 0, dk_version = fs' ! 1, dk_distribution_type = fs' ! 2, dk_requires_python = fs' ! 3,
             dk_platform = fs' ! 4, dk_abi = fs' ! 5, dk_build = fs' ! 6\<rparr>)"

definition from_ordered_bytes :: "string \<Rightarrow> py_error + distribution_key" where
  "from_ordered_bytes buf = key_of_fields (butlast (split_on tab buf))"

section \<open>Serialization\<close>

lemma join_terminated: "xs \<noteq> [] \<Longrightarrow> str_join [c] xs @ [c] = concat (map (\<lambda>x. x @ [c]) xs)"
  by (induction "[c]" xs rule: str_join.induct) auto

lemma less_append_sep:
  fixes x y :: string
  assumes "\<forall>a \<in> set x. c < a" "\<forall>a \<in> set y. c < a"
  shows "x @ c # u < y @ c # v \<longleftrightarrow> x < y \<or> x = y \<and> u < v"
  using assms
proof (induction x arbitrary: y)
  case Nil
  then show ?case by (cases y) auto
next
  case (Cons a x)
  then show ?case by (cases y) auto
qed

lemma less_terminated:
  fixes xs ys :: "string list"
  assumes "length xs = length ys" "\<forall>x \<in> set (xs @ ys). \<forall>a \<in> set x. c < a"
  shows "concat (map (\<lambda>x. x @ [c]) xs) < concat (map (\<lambda>x. x @ [c]) ys) \<longleftrightarrow> xs < ys"
  using assms
proof (induction xs ys rule: list_induct2)
  case (Cons x xs y ys)
  then have "x @ c # concat (map (\<lambda>x. x @ [c]) xs) < y @ c # concat (map (\<lambda>x. x @ [c]) ys)
    \<longleftrightarrow> x < y \<or> x = y \<and> concat (map (\<lambda>x. x @ [c]) xs) < concat (map (\<lambda>x. x @ [c]) ys)"
    by (intro less_append_sep) auto
  then show ?case using Cons by simp
qed simp

text \<open>
  C9. The serialized keys sort in the order of the keys, as the docstring promises, as long as
  every character of a field comes after the tab character.
\<close>

theorem ordered_bytes_order:
  assumes "\<forall>f \<in> set (astuple k1 @ astuple k2). \<forall>c \<in> set f. tab < c"
  shows "to_ordered_bytes k1 < to_ordered_bytes k2 \<longleftrightarrow> key_less k1 k2"
proof -
  have t: "to_ordered_bytes k = concat (map (\<lambda>x. x @ [tab]) (astuple k))" for k
    unfolding to_ordered_bytes_def by (rule join_terminated) (simp add: astuple_def)
  have "length (astuple k1) = length (astuple k2)" by (simp add: astuple_def)
  from less_terminated [OF this assms] show ?thesis unfolding t key_less_def .
qed

definition flask_key :: "string \<Rightarrow> distribution_key" where
  "flask_key version = \<lparr>dk_package_name = ''flask'', dk_version = version, dk_distribution_type = ''WHEEL'', dk_requires_python = ''>=3'',
     dk_platform = ''any'', dk_abi = ''none'', dk_build = []\<rparr>"

theorem ordered_bytes_order_witness: "to_ordered_bytes (flask_key ''1.0'') < to_ordered_bytes (flask_key ''1.0.1'')"
proof -
  have "\<forall>f \<in> set (astuple (flask_key ''1.0'') @ astuple (flask_key ''1.0.1'')). \<forall>c \<in> set f. tab < c" by code_simp
  moreover have "key_less (flask_key ''1.0'') (flask_key ''1.0.1'')" by code_simp
  ultimately show ?thesis using ordered_bytes_order by blast
qed

lemma key_of_astuple: "key_of_fields (astuple k) = Inr k"
  by (cases k) (simp add: key_of_fields_def astuple_def)

lemma from_to_ordered_bytes:
  assumes "\<forall>f \<in> set (astuple k). tab \<notin> set f"
  shows "from_ordered_bytes (to_ordered_bytes k) = Inr k"
proof -
  have "to_ordered_bytes k = str_join [tab] (astuple k @ [[]])"
    by (simp add: to_ordered_bytes_def astuple_def)
  then have "split_on tab (to_ordered_bytes k) = astuple k @ [[]]"
    using assms split_on_join [of "astuple k @ [[]]" tab] by simp
  then show ?thesis by (simp add: from_ordered_bytes_def key_of_astuple)
qed

text \<open>
  Reading a serialized key gives back the key, as long as no field has a tab character.
\<close>

theorem ordered_bytes_roundtrip:
  assumes "\<forall>f \<in> set (astuple k). tab \<notin> set f"
  shows "from_ordered_bytes (to_ordered_bytes k) = Inr k"
  by (rule from_to_ordered_bytes [OF assms])

theorem ordered_bytes_roundtrip_witness: "from_ordered_bytes (to_ordered_bytes (flask_key ''1.0'')) = Inr (flask_key ''1.0'')"
proof -
  have "\<forall>f \<in> set (astuple (flask_key ''1.0'')). tab \<notin> set f" by code_simp
  then show ?thesis by (rule ordered_bytes_roundtrip)
qed

text \<open>
  The digits of a version tag are each taken for a component: the tag of Python 3.10
  becomes a requirement on the releases of Python 3.1.
\<close>

theorem python_tag_digits_split: "python_requirement_from_tag (Some ''cp310'') = ''~=3.1.0''"
  by code_simp

end
