(* ===== verification/Leveldb_Builder.thy ===== *)
theory Leveldb_Builder
  imports Prelude
begin

text \<open>
  Building a LevelDB table in batches, \<open>util/leveldb/builder.py\<close>. The database is a library: the
  write of a batch, the iteration over a prefix and the lookup of a key are parameters, and
  \<open>leveldb_iterates\<close> and \<open>leveldb_gets\<close> state what the code relies on. A builder has the database
  as of the last batch, the batch that is being filled, and the number of items handled; the
  fields of a subclass extend the record.
\<close>

section \<open>The builder\<close>

type_synonym 'db batch_write = "(string \<times> string) list \<Rightarrow> 'db \<Rightarrow> 'db"
type_synonym 'db iterate = "'db \<Rightarrow> string \<Rightarrow> (string \<times> string) list"
type_synonym 'db lookup = "'db \<Rightarrow> string \<Rightarrow> string option"

record 'db builder =
  bd_db :: "'db option"
  bd_write_batch :: "(string \<times> string) list option"
  bd_num_items :: nat
  bd_write_batch_size :: nat

definition builder_put :: "string \<Rightarrow> string \<Rightarrow> ('db, 'a) builder_scheme \<Rightarrow> py_error + ('db, 'a) builder_scheme" where
  "builder_put key value b =
     (case bd_write_batch b of
        None \<Rightarrow> Inl ToolchainAssertion
      | Some batch \<Rightarrow> Inr (b\<lparr>bd_write_batch := Some (batch @ [(key, value)])\<rparr>))"

definition builder_flush :: "'db batch_write \<Rightarrow> ('db, 'a) builder_scheme \<Rightarrow> py_error + ('db, 'a) builder_scheme" where
  "builder_flush write b =
     (case bd_db b of
        None \<Rightarrow> Inl ToolchainAssertion
      | Some db \<Rightarrow>
          (case bd_write_batch b of
             None \<Rightarrow> Inl ToolchainAssertion
           | Some batch \<Rightarrow> Inr (b\<lparr>bd_db := Some (write batch db), bd_write_batch := Some []\<rparr>)))"

text \<open>\<open>item_handled\<close> calls the \<open>flush\<close> of the subclass.\<close>

definition item_handled ::
  "(('db, 'a) builder_scheme \<Rightarrow> py_error + ('db, 'a) builder_scheme) \<Rightarrow> ('db, 'a) builder_scheme
   \<Rightarrow> py_error + ('db, 'a) builder_scheme" where
  "item_handled flush b =
     (let b1 = b\<lparr>bd_num_items := bd_num_items b + 1\<rparr>
      in if bd_write_batch_size b1 = 0 then Inl ZeroDivisionError
         else if bd_num_items b1 mod bd_write_batch_size b1 = 0 then flush b1
         else Inr b1)"

text \<open>
  The part of \<open>run\<close> between opening the database and closing it: every input is processed, and
  the last batch is flushed.
\<close>

definition run_builder ::
  "('i \<Rightarrow> ('db, 'a) builder_scheme \<Rightarrow> py_error + ('db, 'a) builder_scheme)
   \<Rightarrow> (('db, 'a) builder_scheme \<Rightarrow> py_error + ('db, 'a) builder_scheme) \<Rightarrow> 'db \<Rightarrow> 'i list \<Rightarrow> ('db, 'a) builder_scheme
   \<Rightarrow> py_error + ('db, 'a) builder_scheme" where
  "run_builder process_input flush db inputs b =
     rbind (rfold process_input inputs (b\<lparr>bd_db := Some db, bd_write_batch := Some []\<rparr>)) flush"

definition new_builder :: "nat \<Rightarrow> 'db builder" where
  "new_builder write_batch_size = \<lparr>bd_db = None, bd_write_batch = None, bd_num_items = 0, bd_write_batch_size = write_batch_size\<rparr>"

section \<open>The database\<close>

text \<open>
  A fresh database is empty, and writing a batch replaces the entries of its keys, the last one
  of a key in the batch winning. Iterating over a prefix meets the entry of each key that starts
  with it.
\<close>

definition leveldb_iterates :: "'db batch_write \<Rightarrow> 'db iterate \<Rightarrow> 'db \<Rightarrow> bool" where
  "leveldb_iterates write iterator fresh \<longleftrightarrow>
     (\<forall>prefix. iterator fresh prefix = [])
     \<and> (\<forall>batch db prefix. set (iterator (write batch db) prefix) =
          {e \<in> set (iterator db prefix). fst e \<notin> fst ` set batch}
          \<union> {(k, v). map_of (rev batch) k = Some v \<and> starts_with prefix k})"

definition leveldb_gets :: "'db batch_write \<Rightarrow> 'db lookup \<Rightarrow> 'db \<Rightarrow> bool" where
  "leveldb_gets write get fresh \<longleftrightarrow>
     (\<forall>k. get fresh k = None)
     \<and> (\<forall>batch db k. get (write batch db) k = (case map_of (rev batch) k of None \<Rightarrow> get db k | Some v \<Rightarrow> Some v))"

text \<open>A database on lists, for concrete inputs.\<close>

definition list_write :: "(string, string) dict batch_write" where
  "list_write batch db = fold (\<lambda>(k, v) d. (k, v) # filter (\<lambda>e. fst e \<noteq> k) d) batch db"

definition list_iterator :: "(string, string) dict iterate" where
  "list_iterator db prefix = filter (\<lambda>e. starts_with prefix (fst e)) db"

definition list_get :: "(string, string) dict lookup" where
  "list_get db k = map_of db k"

lemma set_list_write:
  "set (list_write batch db) = {e \<in> set db. fst e \<notin> fst ` set batch} \<union> {(k, v). map_of (rev batch) k = Some v}"
proof (induction batch rule: rev_induct)
  case Nil
  then show ?case by (simp add: list_write_def)
next
  case (snoc e batch)
  obtain k v where e: "e = (k, v)" by (cases e)
  have "list_write (batch @ [e]) db = (k, v) # filter (\<lambda>e. fst e \<noteq> k) (list_write batch db)" by (simp add: list_write_def e)
  then show ?case using snoc e by (auto split: if_splits)
qed

lemma map_of_list_write: "map_of (list_write batch db) k = (case map_of (rev batch) k of None \<Rightarrow> map_of db k | Some v \<Rightarrow> Some v)"
proof (induction batch rule: rev_induct)
  case Nil
  then show ?case by (simp add: list_write_def)
next
  case (snoc e batch)
  obtain j v where e: "e = (j, v)" by (cases e)
  have "list_write (batch @ [e]) db = (j, v) # filter (\<lambda>e. fst e \<noteq> j) (list_write batch db)" by (simp add: list_write_def e)
  moreover have "k \<noteq> j \<Longrightarrow> map_of (filter (\<lambda>e. fst e \<noteq> j) d) k = map_of d k" for d :: "(string, string) dict"
    by (induction d) auto
  ultimately show ?case using snoc e by simp
qed

lemma list_iterates: "leveldb_iterates list_write list_iterator []"
  unfolding leveldb_iterates_def list_iterator_def by (auto simp: set_list_write)

lemma list_gets: "leveldb_gets list_write list_get []"
  unfolding leveldb_gets_def list_get_def by (simp add: map_of_list_write)

section \<open>Batches\<close>

text \<open>The database a builder would have if it were flushed now.\<close>

definition settled :: "'db batch_write \<Rightarrow> ('db, 'a) builder_scheme \<Rightarrow> 'db option" where
  "settled write b =
     (case (bd_db b, bd_write_batch b) of (Some db, Some batch) \<Rightarrow> Some (write batch db) | _ \<Rightarrow> None)"

lemma settled_start [simp]:
  "settled write (b\<lparr>bd_db := Some db, bd_write_batch := Some []\<rparr>) = Some (write [] db)"
  by (simp add: settled_def)

lemma flush_settled:
  "builder_flush write b = Inr b' \<Longrightarrow> \<exists>db. settled write b = Some db \<and> bd_db b' = Some db \<and> bd_write_batch b' = Some []"
  by (auto simp: builder_flush_def settled_def split: option.splits)

lemma write_Nil_iterates: "leveldb_iterates write iterator fresh \<Longrightarrow> set (iterator (write [] db) p) = set (iterator db p)"
  unfolding leveldb_iterates_def by simp

text \<open>Putting an entry and counting it changes what is settled by that entry, flushed or not.\<close>

lemma put_handled:
  assumes "leveldb_iterates write iterator fresh" "settled write b = Some db"
    and "rbind (builder_put k v b) (item_handled (builder_flush write)) = Inr b'"
  shows "\<exists>db'. settled write b' = Some db'
    \<and> (\<forall>p. set (iterator db' p) = {e \<in> set (iterator db p). fst e \<noteq> k} \<union> (if starts_with p k then {(k, v)} else {}))"
proof -
  obtain d batch where b: "bd_db b = Some d" "bd_write_batch b = Some batch" "db = write batch d"
    using assms(2) by (auto simp: settled_def split: option.splits)
  let ?b = "b\<lparr>bd_write_batch := Some (batch @ [(k, v)])\<rparr>" and ?new = "write (batch @ [(k, v)]) d"
  have "item_handled (builder_flush write) ?b = Inr b'" using assms(3) b by (simp add: builder_put_def)
  then have b': "settled write b' = Some ?new \<or> settled write b' = Some (write [] ?new)"
    using b by (auto simp: item_handled_def builder_flush_def settled_def Let_def split: if_splits)
  have "set (iterator ?new p) = {e \<in> set (iterator db p). fst e \<noteq> k} \<union> (if starts_with p k then {(k, v)} else {})" for p
    using assms(1) unfolding b(3) leveldb_iterates_def by (auto split: if_splits)
  then show ?thesis using b' write_Nil_iterates [OF assms(1)] by auto
qed

end
