(* ===== verification/Depgraph.thy ===== *)
theory Depgraph
  imports Distribution_Key Packages Leveldb_Builder
begin

text \<open>
  The table of Python distributions: what the builder writes
  (\<open>satresolver/pypi/depgraph_builder.py\<close>, \<open>python_distribution.py\<close>) and how a resolve
  queries it (\<open>depgraph.py\<close>). The table is a LevelDB database, built in batches, and requirements
  are parsed by \<open>pkg_resources\<close>: writing a batch, iterating over the database and parsing are
  parameters. Bytes are characters, and text is ASCII.
\<close>

section \<open>Resolution data\<close>

record resolution_data =
  rd_requires :: "string list"
  rd_sha256 :: string

text \<open>\<open>bytes.fromhex\<close> skips white space between the bytes.\<close>

definition is_space :: "char \<Rightarrow> bool" where
  "is_space c \<longleftrightarrow> c \<in> {CHR '' '', CHR 0x09, CHR 0x0A, CHR 0x0B, CHR 0x0C, CHR 0x0D}"

definition hex_digit :: "char \<Rightarrow> nat option" where
  "hex_digit c =
     (if is_digit c then Some (char_digit c)
      else if CHR ''a'' \<le> c \<and> c \<le> CHR ''f'' then Some (of_char c - 87)
      else if CHR ''A'' \<le> c \<and> c \<le> CHR ''F'' then Some (of_char c - 55)
      else None)"

fun fromhex :: "string \<Rightarrow> py_error + string" where
  "fromhex [] = Inr []"
| "fromhex [c] = (if is_space c then Inr [] else Inl ValueError)"
| "fromhex (c # d # s) =
     (if is_space c then fromhex (d # s)
      else (case (hex_digit c, hex_digit d) of
              (Some x, Some y) \<Rightarrow> rmap (\<lambda>bs. char_of (16 * x + y) # bs) (fromhex s)
            | _ \<Rightarrow> Inl ValueError))"

definition hex_char :: "nat \<Rightarrow> char" where
  "hex_char n = (if n < 10 then digit_char n else char_of (87 + n))"

definition hex_str :: "string \<Rightarrow> string" where
  "hex_str bs = concat (map (\<lambda>b. [hex_char (of_char b div 16), hex_char (of_char b mod 16)]) bs)"

definition create_resolution_data :: "string list \<Rightarrow> string \<Rightarrow> py_error + resolution_data" where
  "create_resolution_data requirements sha256_hexdigest =
     rmap (\<lambda>b. \<lparr>rd_requires = requirements, rd_sha256 = b\<rparr>) (fromhex sha256_hexdigest)"

definition to_bytes :: "resolution_data \<Rightarrow> string" where
  "to_bytes d = rd_sha256 d @ str_join [tab] (rd_requires d)"

definition from_bytes :: "string \<Rightarrow> resolution_data" where
  "from_bytes buf =
     \<lparr>rd_requires = (if length buf = 32 then [] else split_on tab (drop 32 buf)), rd_sha256 = take 32 buf\<rparr>"

section \<open>Distributions\<close>

record distribution =
  pd_key :: distribution_key
  pd_value :: resolution_data

definition create_distribution :: "distribution_key \<Rightarrow> resolution_data \<Rightarrow> distribution" where
  "create_distribution key value = \<lparr>pd_key = key, pd_value = value\<rparr>"

definition sha256_hexdigest :: "distribution \<Rightarrow> string" where
  "sha256_hexdigest d = hex_str (rd_sha256 (pd_value d))"

text \<open>
  The order puts the name first, then the version as \<open>packaging\<close> orders it, then the key;
  \<open>parse\<close> is its parser, None where it raises \<open>InvalidVersion\<close>.
\<close>

definition parse_version :: "(string \<Rightarrow> 'ver option) \<Rightarrow> 'ver \<Rightarrow> string \<Rightarrow> 'ver" where
  "parse_version parse DEFAULT_VERSION version = (case parse version of None \<Rightarrow> DEFAULT_VERSION | Some v \<Rightarrow> v)"

definition distribution_less :: "(string \<Rightarrow> 'ver::linorder option) \<Rightarrow> 'ver \<Rightarrow> distribution \<Rightarrow> distribution \<Rightarrow> bool" where
  "distribution_less parse dflt d1 d2 =
     (let k1 = pd_key d1; k2 = pd_key d2;
          v1 = parse_version parse dflt (dk_version k1); v2 = parse_version parse dflt (dk_version k2)
      in dk_package_name k1 < dk_package_name k2
         \<or> dk_package_name k1 = dk_package_name k2 \<and> (v1 < v2 \<or> v1 = v2 \<and> key_less k1 k2))"

definition distribution_str :: "distribution \<Rightarrow> string" where
  "distribution_str d = dk_package_name (pd_key d) @ '' '' @ dk_version (pd_key d)"

definition generate_requirements :: "distribution list \<Rightarrow> string" where
  "generate_requirements ds =
     str_join newline (map (\<lambda>d. dk_package_name (pd_key d) @ ''=='' @ dk_version (pd_key d) @ '' --hash=sha256:'' @ sha256_hexdigest d) ds)"

section \<open>Building the table\<close>

text \<open>\<open>str.strip\<close> also removes the four separators before the space character.\<close>

definition is_str_space :: "char \<Rightarrow> bool" where
  "is_str_space c \<longleftrightarrow> is_space c \<or> c \<in> {CHR 0x1C, CHR 0x1D, CHR 0x1E, CHR 0x1F}"

definition strip :: "string \<Rightarrow> string" where
  "strip s = rev (dropWhile is_str_space (rev (dropWhile is_str_space s)))"

definition parse_requirement :: "(string \<Rightarrow> string + 'req) \<Rightarrow> string \<Rightarrow> package_error + 'req" where
  "parse_requirement parse requirement = rlift (InvalidRequirementsError requirement) (parse requirement)"

definition valid_requirement :: "(string \<Rightarrow> string + 'req) \<Rightarrow> string \<Rightarrow> bool" where
  "valid_requirement parse requirement =
     (if requirement = [] \<or> starts_with ''#'' requirement then False
      else (case parse_requirement parse requirement of Inl e \<Rightarrow> False | Inr r \<Rightarrow> True))"

definition builder_parse_requirements :: "(string \<Rightarrow> string + 'req) \<Rightarrow> string list \<Rightarrow> string list" where
  "builder_parse_requirements parse requirements = filter (valid_requirement parse) (map strip requirements)"

record dist_row =
  dr_key :: distribution_key
  dr_sha256_hexdigest :: string
  dr_requires :: "string list"
  dr_requires_dist :: "string list"

definition row_data :: "(string \<Rightarrow> string + 'req) \<Rightarrow> dist_row \<Rightarrow> py_error + resolution_data" where
  "row_data parse row =
     create_resolution_data
       (builder_parse_requirements parse (if dr_requires row \<noteq> [] then dr_requires row else dr_requires_dist row))
       (dr_sha256_hexdigest row)"

definition process_row ::
  "(string \<Rightarrow> string + 'req) \<Rightarrow> 'db batch_write \<Rightarrow> dist_row \<Rightarrow> 'db builder \<Rightarrow> py_error + 'db builder" where
  "process_row parse write row b =
     rbind (row_data parse row)
       (\<lambda>value. rbind (builder_put (to_ordered_bytes (dr_key row)) (to_bytes value) b) (item_handled (builder_flush write)))"

text \<open>
  The rows of an input file (\<open>distribution_data_builder.py\<close>), as they are after decoding: the key is
  made of the first fields.
\<close>

record input_row =
  ir_filename :: string
  ir_project_name :: string
  ir_version :: string
  ir_distribution_type :: string
  ir_sha256_hexdigest :: string
  ir_requires :: "string list"
  ir_requires_dist :: "string list"
  ir_requires_python :: string

definition input_dist_row :: "input_row \<Rightarrow> py_error + dist_row" where
  "input_dist_row i =
     rmap (\<lambda>key. \<lparr>dr_key = key, dr_sha256_hexdigest = ir_sha256_hexdigest i, dr_requires = ir_requires i, dr_requires_dist = ir_requires_dist i\<rparr>)
       (create_key (ir_filename i) (ir_project_name i) (ir_version i) (Value (ir_distribution_type i)) (ir_requires_python i))"

definition process_input_file ::
  "(string \<Rightarrow> string + 'req) \<Rightarrow> 'db batch_write \<Rightarrow> input_row list \<Rightarrow> 'db builder \<Rightarrow> py_error + 'db builder" where
  "process_input_file parse write =
     rfold (\<lambda>i b. rbind (input_dist_row i) (\<lambda>row. process_row parse write row b))"

definition build_depgraph ::
  "(string \<Rightarrow> string + 'req) \<Rightarrow> 'db batch_write \<Rightarrow> nat \<Rightarrow> 'db \<Rightarrow> input_row list list \<Rightarrow> py_error + 'db builder" where
  "build_depgraph parse write write_batch_size db files =
     run_builder (process_input_file parse write) (builder_flush write) db files (new_builder write_batch_size)"

section \<open>Querying the table\<close>

record dist_query =
  dq_package_name :: "string option"
  dq_version :: "string option"
  dq_distribution_type :: "string option"
  dq_requires_python :: "string option"
  dq_platform :: "string option"
  dq_abi :: "string option"
  dq_build :: "string option"

text \<open>The keyword arguments, in the order of the fields of a key.\<close>

definition query_kwargs :: "dist_query \<Rightarrow> (string \<times> string option) list" where
  "query_kwargs q =
     [(''package_name'', dq_package_name q), (''version'', dq_version q), (''distribution_type'', dq_distribution_type q),
      (''requires_python'', dq_requires_python q), (''platform'', dq_platform q), (''abi'', dq_abi q), (''build'', dq_build q)]"

definition compute_prefix_and_filter :: "(string \<times> string option) list \<Rightarrow> string list \<times> (string, string) dict" where
  "compute_prefix_and_filter kwargs =
     (let fixed = takeWhile (\<lambda>x. x \<noteq> None) (map snd kwargs)
      in (map the fixed, List.map_filter (\<lambda>(k, v). map_option (Pair k) v) (drop (length fixed) kwargs)))"

definition key_attributes :: "distribution_key \<Rightarrow> (string, string) dict" where
  "key_attributes k = zip [''package_name'', ''version'', ''distribution_type'', ''requires_python'', ''platform'', ''abi'', ''build''] (astuple k)"

definition filter_key :: "distribution_key \<Rightarrow> (string, string) dict \<Rightarrow> bool" where
  "filter_key key kwargs = list_all (\<lambda>(name, value). map_of (key_attributes key) name = Some value) kwargs"

definition scan_entry :: "(string, string) dict \<Rightarrow> string \<times> string \<Rightarrow> py_error + distribution list" where
  "scan_entry kwargs = (\<lambda>(key_bytes, value_bytes).
     rmap (\<lambda>key. if filter_key key kwargs then [create_distribution key (from_bytes value_bytes)] else [])
       (from_ordered_bytes key_bytes))"

definition get_distributions :: "'db iterate \<Rightarrow> 'db \<Rightarrow> dist_query \<Rightarrow> py_error + distribution list" where
  "get_distributions iterator db q =
     (case dq_package_name q of
        None \<Rightarrow> Inl ToolchainAssertion
      | Some name \<Rightarrow>
          (let (components, kwargs) = compute_prefix_and_filter (query_kwargs (q\<lparr>dq_package_name := Some (canonical_project_name name)\<rparr>));
               prefix = str_join [tab] components @ [tab]
           in rmap concat (rmap_list (scan_entry kwargs) (iterator db prefix))))"

section \<open>Values survive\<close>

lemma from_to_bytes:
  assumes "length (rd_sha256 d) = 32" "\<forall>r \<in> set (rd_requires d). r \<noteq> [] \<and> tab \<notin> set r"
  shows "from_bytes (to_bytes d) = d"
proof (cases "rd_requires d")
  case Nil
  then show ?thesis using assms(1) by (simp add: to_bytes_def from_bytes_def)
next
  case (Cons r rs)
  then have "r \<noteq> []" using assms(2) by simp
  then have "str_join [tab] (rd_requires d) \<noteq> []" using Cons by (cases rs; cases r) auto
  moreover have "split_on tab (str_join [tab] (rd_requires d)) = rd_requires d"
    using split_on_join [of "rd_requires d" tab] assms(2) Cons by simp
  ultimately show ?thesis using assms(1) by (simp add: to_bytes_def from_bytes_def)
qed

section \<open>Scanning by prefix\<close>

lemma starts_with_terminated:
  assumes "length ps \<le> length fs" "\<forall>x \<in> set (ps @ fs). c \<notin> set x"
  shows "starts_with (concat (map (\<lambda>x. x @ [c]) ps)) (concat (map (\<lambda>x. x @ [c]) fs)) \<longleftrightarrow> take (length ps) fs = ps"
  using assms
proof (induction ps arbitrary: fs)
  case (Cons p ps)
  then obtain f fs' where fs: "fs = f # fs'" by (cases fs) auto
  have "f @ c # v = p @ c # u \<longleftrightarrow> p = f \<and> v = u" for u v
    using Cons.prems(2) fs append_eq_append_conv_if by (auto simp: append_eq_append_conv2 append_eq_Cons_conv Cons_eq_append_conv)
  then have "starts_with (concat (map (\<lambda>x. x @ [c]) (p # ps))) (concat (map (\<lambda>x. x @ [c]) (f # fs')))
    \<longleftrightarrow> p = f \<and> starts_with (concat (map (\<lambda>x. x @ [c]) ps)) (concat (map (\<lambda>x. x @ [c]) fs'))"
    by (auto simp: starts_with_iff)
  then show ?case using Cons fs by auto
qed (simp add: starts_with_iff)

text \<open>What a query asks for: every argument that is given is the field of the key.\<close>

definition query_matches :: "dist_query \<Rightarrow> distribution_key \<Rightarrow> bool" where
  "query_matches q k = list_all2 (\<lambda>a f. a = None \<or> a = Some f) (map snd (query_kwargs q)) (astuple k)"

lemma filter_all:
  assumes "length names = length vs" "length vs = length fs" "list_all2 (\<lambda>n f. m n = Some f) names fs"
  shows "list_all (\<lambda>(n, v). m n = Some v) (List.map_filter (\<lambda>(k, v). map_option (Pair k) v) (zip names vs))
    \<longleftrightarrow> list_all2 (\<lambda>a f. a = None \<or> a = Some f) vs fs"
  using assms
proof (induction names vs fs rule: list_induct3)
  case (Cons n names v vs f fs)
  then show ?case by (cases v) (auto simp: List.map_filter_simps)
qed (simp add: List.map_filter_simps)

lemma fixed_and_filter:
  assumes "length names = length vs" "length vs = length fs" "list_all2 (\<lambda>n f. m n = Some f) names fs"
  shows "take (length (takeWhile (\<lambda>x. x \<noteq> None) vs)) fs = map the (takeWhile (\<lambda>x. x \<noteq> None) vs)
      \<and> list_all (\<lambda>(n, v). m n = Some v)
          (List.map_filter (\<lambda>(k, v). map_option (Pair k) v) (drop (length (takeWhile (\<lambda>x. x \<noteq> None) vs)) (zip names vs)))
    \<longleftrightarrow> list_all2 (\<lambda>a f. a = None \<or> a = Some f) vs fs"
  using assms
proof (induction names vs fs rule: list_induct3)
  case (Cons n names v vs f fs)
  show ?case
  proof (cases v)
    case None
    then show ?thesis using filter_all [of "n # names" "v # vs" "f # fs" m] Cons.hyps Cons.prems by simp
  next
    case (Some a)
    then show ?thesis using Cons by auto
  qed
qed (simp add: List.map_filter_simps)

lemma query_kwargs_zip:
  "query_kwargs q = zip [''package_name'', ''version'', ''distribution_type'', ''requires_python'', ''platform'', ''abi'', ''build'']
     (map snd (query_kwargs q))"
  by (simp add: query_kwargs_def)

lemma prefix_and_filter:
  assumes "compute_prefix_and_filter (query_kwargs q) = (components, kwargs)" "dq_package_name q = Some name"
  shows "components \<noteq> []" "length components \<le> 7"
    and "set components \<subseteq> (\<Union>a \<in> set (map snd (query_kwargs q)). set_option a)"
    and "take (length components) (astuple k) = components \<and> filter_key k kwargs \<longleftrightarrow> query_matches q k"
proof -
  let ?names = "[''package_name'', ''version'', ''distribution_type'', ''requires_python'', ''platform'', ''abi'', ''build'']"
  let ?fixed = "takeWhile (\<lambda>x. x \<noteq> None) (map snd (query_kwargs q))"
  have c: "components = map the ?fixed"
    and k: "kwargs = List.map_filter (\<lambda>(k, v). map_option (Pair k) v) (drop (length ?fixed) (zip ?names (map snd (query_kwargs q))))"
    using assms(1) by (simp_all add: compute_prefix_and_filter_def Let_def flip: query_kwargs_zip)
  show "components \<noteq> []" using c assms(2) by (simp add: query_kwargs_def)
  show "length components \<le> 7" using c length_takeWhile_le [of "\<lambda>x. x \<noteq> None" "map snd (query_kwargs q)"]
    by (simp add: query_kwargs_def)
  show "set components \<subseteq> (\<Union>a \<in> set (map snd (query_kwargs q)). set_option a)"
    using c by (force dest: set_takeWhileD)
  have "list_all2 (\<lambda>n f. map_of (key_attributes k) n = Some f) ?names (astuple k)"
    by (simp add: key_attributes_def astuple_def)
  from fixed_and_filter [OF _ _ this, of "map snd (query_kwargs q)"]
  show "take (length components) (astuple k) = components \<and> filter_key k kwargs \<longleftrightarrow> query_matches q k"
    unfolding filter_key_def query_matches_def k c by (simp add: query_kwargs_def astuple_def)
qed

definition plain_key :: "distribution_key \<Rightarrow> bool" where
  "plain_key k \<longleftrightarrow> (\<forall>f \<in> set (astuple k). tab \<notin> set f)"

lemma plain_key_inj: "plain_key k \<Longrightarrow> plain_key l \<Longrightarrow> to_ordered_bytes k = to_ordered_bytes l \<longleftrightarrow> k = l"
  by (metis from_to_ordered_bytes plain_key_def sum.inject(2))

lemma process_rows_settled:
  assumes "leveldb_iterates write iterator fresh" "settled write b0 = Some db0" "\<And>p. set (iterator db0 p) = {}"
  shows "rfold (process_row parse write) rows b0 = Inr b \<Longrightarrow> distinct (map dr_key rows) \<Longrightarrow> \<forall>r \<in> set rows. plain_key (dr_key r) \<Longrightarrow>
    \<exists>db. settled write b = Some db
      \<and> (\<forall>p. set (iterator db p) = {(to_ordered_bytes (dr_key r), to_bytes v) | r v. r \<in> set rows \<and> row_data parse r = Inr v
            \<and> starts_with p (to_ordered_bytes (dr_key r))})"
proof (induction rows arbitrary: b rule: rev_induct)
  case Nil
  then show ?case using assms by simp
next
  case (snoc r rows)
  from snoc.prems(1) obtain b1 where b1: "rfold (process_row parse write) rows b0 = Inr b1" "process_row parse write r b1 = Inr b"
    by (auto simp: rfold_append)
  from b1(2) obtain v where v: "row_data parse r = Inr v"
      "rbind (builder_put (to_ordered_bytes (dr_key r)) (to_bytes v) b1) (item_handled (builder_flush write)) = Inr b"
    by (auto simp: process_row_def)
  from snoc.IH [OF b1(1)] snoc.prems(2,3) obtain db1 where db1: "settled write b1 = Some db1"
      "\<And>p. set (iterator db1 p) = {(to_ordered_bytes (dr_key r), to_bytes v) | r v. r \<in> set rows \<and> row_data parse r = Inr v
            \<and> starts_with p (to_ordered_bytes (dr_key r))}"
    by auto
  from put_handled [OF assms(1) db1(1) v(2)] obtain db where db: "settled write b = Some db"
      "\<And>p. set (iterator db p) = {e \<in> set (iterator db1 p). fst e \<noteq> to_ordered_bytes (dr_key r)}
        \<union> (if starts_with p (to_ordered_bytes (dr_key r)) then {(to_ordered_bytes (dr_key r), to_bytes v)} else {})"
    by blast
  have new: "to_ordered_bytes (dr_key s) \<noteq> to_ordered_bytes (dr_key r)" if s: "s \<in> set rows" for s
  proof -
    have "dr_key s \<noteq> dr_key r" using snoc.prems(2) imageI [OF s, of dr_key] by auto
    then show ?thesis using plain_key_inj snoc.prems(3) s by auto
  qed
  have "set (iterator db p) = {(to_ordered_bytes (dr_key s), to_bytes w) | s w. s \<in> set (rows @ [r]) \<and> row_data parse s = Inr w
      \<and> starts_with p (to_ordered_bytes (dr_key s))}" for p
    unfolding db(2) db1(2) using v(1) new by auto
  then show ?case using db(1) by blast
qed

lemma process_files:
  "rfold (process_input_file parse write) files b = Inr b' \<Longrightarrow>
   \<exists>rows. rmap_list input_dist_row (concat files) = Inr rows \<and> rfold (process_row parse write) rows b = Inr b'"
proof (induction files arbitrary: b)
  case (Cons f files)
  have one: "\<exists>rows. rmap_list input_dist_row is = Inr rows \<and> rfold (process_row parse write) rows b = Inr b1"
    if "process_input_file parse write is b = Inr b1" for "is" b b1
    using that
  proof (induction "is" arbitrary: b)
    case (Cons i "is")
    then show ?case by (fastforce simp: process_input_file_def)
  qed (simp add: process_input_file_def)
  have app: "rmap_list g (xs @ ys) = rbind (rmap_list g xs) (\<lambda>us. rmap (\<lambda>vs. us @ vs) (rmap_list g ys))" for g :: "input_row \<Rightarrow> py_error + dist_row" and xs ys
    by (induction xs) (auto simp: rbind_def rmap_def split: sum.splits)
  obtain b1 where b1: "process_input_file parse write f b = Inr b1" "rfold (process_input_file parse write) files b1 = Inr b'"
    using Cons.prems by auto
  from one [OF b1(1)] Cons.IH [OF b1(2)] show ?case by (auto simp: app rfold_append)
qed simp

lemma table_entries:
  assumes "leveldb_iterates write iterator fresh" "build_depgraph parse write n fresh files = Inr b"
    and "rmap_list input_dist_row (concat files) = Inr rows" "distinct (map dr_key rows)" "\<forall>r \<in> set rows. plain_key (dr_key r)"
  shows "\<exists>db. bd_db b = Some db
    \<and> (\<forall>p. set (iterator db p) = {(to_ordered_bytes (dr_key r), to_bytes v) | r v. r \<in> set rows \<and> row_data parse r = Inr v
          \<and> starts_with p (to_ordered_bytes (dr_key r))})"
proof -
  let ?b0 = "(new_builder n)\<lparr>bd_db := Some fresh, bd_write_batch := Some []\<rparr>"
  obtain b1 where b1: "rfold (process_input_file parse write) files ?b0 = Inr b1" "builder_flush write b1 = Inr b"
    using assms(2) by (auto simp: build_depgraph_def run_builder_def)
  from process_files [OF b1(1)] assms(3) have rows: "rfold (process_row parse write) rows ?b0 = Inr b1" by auto
  have "set (iterator (write [] fresh) p) = {}" for p
    using write_Nil_iterates [OF assms(1)] assms(1) by (simp add: leveldb_iterates_def)
  from process_rows_settled [OF assms(1) settled_start this rows assms(4,5)] flush_settled [OF b1(2)] show ?thesis by auto
qed

lemma builder_requirements_ne: "r \<in> set (builder_parse_requirements parse reqs) \<Longrightarrow> r \<noteq> []"
  by (auto simp: builder_parse_requirements_def valid_requirement_def)

lemma prefix_of_key:
  assumes "components \<noteq> []" "length components \<le> 7" "\<forall>x \<in> set components. tab \<notin> set x" "plain_key k"
  shows "starts_with (str_join [tab] components @ [tab]) (to_ordered_bytes k) \<longleftrightarrow> take (length components) (astuple k) = components"
proof -
  have "length (astuple k) = 7" "astuple k \<noteq> []" by (simp_all add: astuple_def)
  then show ?thesis
    using starts_with_terminated [of components "astuple k" tab] assms
    by (auto simp: to_ordered_bytes_def join_terminated plain_key_def)
qed

text \<open>A row that can be stored: no field or requirement has a tab, and the digest has 32 bytes.\<close>

definition plain_row :: "(string \<Rightarrow> string + 'req) \<Rightarrow> dist_row \<Rightarrow> bool" where
  "plain_row parse r \<longleftrightarrow> plain_key (dr_key r)
     \<and> (\<forall>d. row_data parse r = Inr d \<longrightarrow> length (rd_sha256 d) = 32 \<and> (\<forall>x \<in> set (rd_requires d). tab \<notin> set x))"

lemma plain_row_value:
  assumes "plain_row parse r" "row_data parse r = Inr d"
  shows "from_bytes (to_bytes d) = d"
proof (rule from_to_bytes)
  show "length (rd_sha256 d) = 32" using assms by (simp add: plain_row_def)
  show "\<forall>x \<in> set (rd_requires d). x \<noteq> [] \<and> tab \<notin> set x"
    using assms builder_requirements_ne by (fastforce simp: plain_row_def row_data_def create_resolution_data_def)
qed

lemma scan_entries:
  assumes "\<And>e. e \<in> set es \<Longrightarrow> \<exists>k. from_ordered_bytes (fst e) = Inr k"
  shows "\<exists>ds. rmap concat (rmap_list (scan_entry kwargs) es) = Inr ds
    \<and> set ds = {create_distribution k (from_bytes v) | b k v. (b, v) \<in> set es \<and> from_ordered_bytes b = Inr k \<and> filter_key k kwargs}"
  using assms
proof (induction es)
  case (Cons e es)
  then obtain ds where "rmap concat (rmap_list (scan_entry kwargs) es) = Inr ds"
      and ds: "set ds = {create_distribution k (from_bytes v) | b k v. (b, v) \<in> set es \<and> from_ordered_bytes b = Inr k \<and> filter_key k kwargs}"
    by auto
  then obtain dss where dss: "rmap_list (scan_entry kwargs) es = Inr dss" "ds = concat dss" by auto
  obtain k where k: "from_ordered_bytes (fst e) = Inr k" using Cons.prems [of e] by auto
  let ?new = "if filter_key k kwargs then [create_distribution k (from_bytes (snd e))] else []"
  have "rmap concat (rmap_list (scan_entry kwargs) (e # es)) = Inr (?new @ ds)"
    using k dss by (simp add: scan_entry_def split_beta)
  moreover have "set (?new @ ds) = {create_distribution k (from_bytes v) | b k v. (b, v) \<in> set (e # es) \<and> from_ordered_bytes b = Inr k \<and> filter_key k kwargs}"
    using ds k by (cases e) auto
  ultimately show ?case by blast
qed simp

section \<open>What a query returns\<close>

definition canonical_query :: "string \<Rightarrow> dist_query \<Rightarrow> dist_query" where
  "canonical_query name q = q\<lparr>dq_package_name := Some (canonical_project_name name)\<rparr>"

definition plain_query :: "dist_query \<Rightarrow> bool" where
  "plain_query q \<longleftrightarrow> (\<forall>a \<in> set (map snd (query_kwargs q)). \<forall>x \<in> set_option a. tab \<notin> set x)"

lemma plain_row_key: "plain_row parse r \<Longrightarrow> from_ordered_bytes (to_ordered_bytes (dr_key r)) = Inr (dr_key r)"
  using from_to_ordered_bytes by (simp add: plain_row_def plain_key_def)

lemma scanned_rows:
  assumes "\<forall>r \<in> R. plain_row parse r"
  shows "{create_distribution k (from_bytes v) | b k v.
      (b, v) \<in> {(to_ordered_bytes (dr_key r), to_bytes v) | r v. r \<in> R \<and> row_data parse r = Inr v \<and> P r} \<and> from_ordered_bytes b = Inr k \<and> Q k}
    = {create_distribution (dr_key r) v | r v. r \<in> R \<and> row_data parse r = Inr v \<and> P r \<and> Q (dr_key r)}" (is "?A = ?B")
proof
  show "?A \<subseteq> ?B"
  proof
    fix d
    assume "d \<in> ?A"
    then obtain k r u where d: "d = create_distribution k (from_bytes (to_bytes u))" "from_ordered_bytes (to_ordered_bytes (dr_key r)) = Inr k" "Q k"
        and r: "r \<in> R" "row_data parse r = Inr u" "P r"
      by blast
    have "plain_row parse r" using assms r(1) by blast
    then have "k = dr_key r" "from_bytes (to_bytes u) = u" using d(2) plain_row_key [of parse r] plain_row_value [of parse r u] r(2) by simp_all
    then show "d \<in> ?B" using d(1,3) r by auto
  qed
  show "?B \<subseteq> ?A"
  proof
    fix d
    assume "d \<in> ?B"
    then obtain r u where r: "d = create_distribution (dr_key r) u" "r \<in> R" "row_data parse r = Inr u" "P r" "Q (dr_key r)" by blast
    have "plain_row parse r" using assms r(2) by blast
    then have "from_ordered_bytes (to_ordered_bytes (dr_key r)) = Inr (dr_key r)" "d = create_distribution (dr_key r) (from_bytes (to_bytes u))"
      using r(1,3) plain_row_key [of parse r] plain_row_value [of parse r u] by simp_all
    then show "d \<in> ?A" using r by blast
  qed
qed

lemma depgraph_query:
  assumes "leveldb_iterates write iterator fresh" "build_depgraph parse write n fresh files = Inr b"
    and "rmap_list input_dist_row (concat files) = Inr rows" "distinct (map dr_key rows)" "\<forall>r \<in> set rows. plain_row parse r"
    and "dq_package_name q = Some name" "plain_query (canonical_query name q)"
  shows "\<exists>db ds. bd_db b = Some db \<and> get_distributions iterator db q = Inr ds
    \<and> set ds = {create_distribution (dr_key r) v | r v. r \<in> set rows \<and> row_data parse r = Inr v
        \<and> query_matches (canonical_query name q) (dr_key r)}"
proof -
  let ?q = "canonical_query name q"
  obtain components kwargs where ck: "compute_prefix_and_filter (query_kwargs ?q) = (components, kwargs)" by force
  let ?prefix = "str_join [tab] components @ [tab]"
  have "dq_package_name ?q = Some (canonical_project_name name)" by (simp add: canonical_query_def)
  note pf = prefix_and_filter [OF ck this]
  have plain: "\<forall>x \<in> set components. tab \<notin> set x" using pf(3) assms(7) by (force simp: plain_query_def)
  have keys: "\<forall>r \<in> set rows. plain_key (dr_key r)" using assms(5) by (simp add: plain_row_def)
  obtain db where db: "bd_db b = Some db" and es: "\<And>p. set (iterator db p) = {(to_ordered_bytes (dr_key r), to_bytes v) | r v. r \<in> set rows
      \<and> row_data parse r = Inr v \<and> starts_with p (to_ordered_bytes (dr_key r))}"
    using table_entries [OF assms(1-4) keys] by blast
  have "\<exists>k. from_ordered_bytes (fst e) = Inr k" if e: "e \<in> set (iterator db ?prefix)" for e
    using e plain_row_key [of parse] assms(5) unfolding es by fastforce
  from scan_entries [OF this, of "iterator db ?prefix" kwargs]
  obtain ds where ds: "rmap concat (rmap_list (scan_entry kwargs) (iterator db ?prefix)) = Inr ds"
    "set ds = {create_distribution k (from_bytes v) | b k v. (b, v) \<in> set (iterator db ?prefix) \<and> from_ordered_bytes b = Inr k \<and> filter_key k kwargs}"
    by auto
  have "get_distributions iterator db q = Inr ds"
    using ds(1) ck assms(6) by (simp add: get_distributions_def canonical_query_def)
  moreover have "starts_with ?prefix (to_ordered_bytes (dr_key r)) \<and> filter_key (dr_key r) kwargs \<longleftrightarrow> query_matches ?q (dr_key r)"
    if r: "r \<in> set rows" for r
    using prefix_of_key [OF pf(1,2) plain] keys r pf(4) by simp
  then have "set ds = {create_distribution (dr_key r) v | r v. r \<in> set rows \<and> row_data parse r = Inr v \<and> query_matches ?q (dr_key r)}"
    unfolding ds(2) es scanned_rows [OF assms(5)] by blast
  ultimately show ?thesis using db by blast
qed

text \<open>
  C8. What the builder writes is what a query finds. When the files have rows with different
  keys and are built into an empty database, in batches of any size, a query never raises and
  returns exactly the distributions of the rows whose key has every field that the query gives,
  although it scans only the keys with the longest prefix the query fixes.
\<close>

theorem built_table_queried:
  assumes "leveldb_iterates write iterator fresh" "build_depgraph parse write n fresh files = Inr b"
    and "rmap_list input_dist_row (concat files) = Inr rows" "distinct (map dr_key rows)" "\<forall>r \<in> set rows. plain_row parse r"
    and "dq_package_name q = Some name" "plain_query (canonical_query name q)"
  shows "\<exists>db ds. bd_db b = Some db \<and> get_distributions iterator db q = Inr ds
    \<and> set ds = {create_distribution (dr_key r) v | r v. r \<in> set rows \<and> row_data parse r = Inr v
        \<and> query_matches (canonical_query name q) (dr_key r)}"
  by (rule depgraph_query [OF assms])

definition flask_input :: "string \<Rightarrow> input_row" where
  "flask_input version = \<lparr>ir_filename = ''flask.tar.gz'', ir_project_name = ''Flask'', ir_version = version, ir_distribution_type = ''SDIST'',
     ir_sha256_hexdigest = concat (replicate 32 ''0f''), ir_requires = [], ir_requires_dist = [''click>=5.1'', ''# none'', '' jinja2''],
     ir_requires_python = ''>=3''\<rparr>"

definition flask_row :: "string \<Rightarrow> dist_row" where
  "flask_row version =
     \<lparr>dr_key = \<lparr>dk_package_name = ''flask'', dk_version = version, dk_distribution_type = ''SDIST'', dk_requires_python = ''>=3'',
        dk_platform = [], dk_abi = [], dk_build = []\<rparr>,
      dr_sha256_hexdigest = concat (replicate 32 ''0f''), dr_requires = [], dr_requires_dist = [''click>=5.1'', ''# none'', '' jinja2'']\<rparr>"

definition flask_data :: resolution_data where
  "flask_data = \<lparr>rd_requires = [''click>=5.1'', ''jinja2''], rd_sha256 = replicate 32 (char_of (15::nat))\<rparr>"

definition flask_query :: dist_query where
  "flask_query = \<lparr>dq_package_name = Some ''Flask'', dq_version = None, dq_distribution_type = None, dq_requires_python = None,
     dq_platform = Some [], dq_abi = None, dq_build = None\<rparr>"

lemma flask_input_row: "input_dist_row (flask_input v) = Inr (flask_row v)"
  by (simp add: input_dist_row_def flask_input_def flask_row_def create_key_def rx_group_def) code_simp

lemma flask_row_data: "row_data (Inr :: string \<Rightarrow> string + string) (flask_row v) = Inr flask_data"
  by (simp add: flask_row_def row_data_def) code_simp

lemma flask_plain_row: "row_data parse (flask_row v) = Inr flask_data \<Longrightarrow> tab \<notin> set v \<Longrightarrow> plain_row parse (flask_row v)"
  by (simp add: plain_row_def flask_data_def) (simp add: plain_key_def flask_row_def astuple_def)

theorem built_table_queried_witness:
  "\<exists>b db ds. build_depgraph (Inr :: string \<Rightarrow> string + string) list_write 1 [] [[flask_input ''1.0''], [flask_input ''1.1'']] = Inr b \<and> bd_db b = Some db
    \<and> get_distributions list_iterator db flask_query = Inr ds \<and> (\<lambda>d. dk_version (pd_key d)) ` set ds = {''1.0'', ''1.1''}"
proof -
  let ?parse = "Inr :: string \<Rightarrow> string + string" and ?rows = "[flask_row ''1.0'', flask_row ''1.1'']"
    and ?files = "[[flask_input ''1.0''], [flask_input ''1.1'']]"
  obtain b where b: "build_depgraph ?parse list_write 1 [] ?files = Inr b"
    by (simp add: build_depgraph_def run_builder_def process_input_file_def flask_input_row process_row_def flask_row_data builder_put_def
        item_handled_def builder_flush_def new_builder_def)
  have "rmap_list input_dist_row (concat ?files) = Inr ?rows" by (simp add: flask_input_row)
  moreover have "distinct (map dr_key ?rows)" by (simp add: flask_row_def)
  moreover have "\<forall>r \<in> set ?rows. plain_row ?parse r" using flask_plain_row [OF flask_row_data] by simp
  moreover have "dq_package_name flask_query = Some ''Flask''" by (simp add: flask_query_def)
  moreover have "plain_query (canonical_query ''Flask'' flask_query)" by code_simp
  ultimately obtain db ds where ds: "bd_db b = Some db" "get_distributions list_iterator db flask_query = Inr ds"
      "set ds = {create_distribution (dr_key r) v | r v. r \<in> set ?rows \<and> row_data ?parse r = Inr v
        \<and> query_matches (canonical_query ''Flask'' flask_query) (dr_key r)}"
    using built_table_queried [OF list_iterates b] by blast
  have "query_matches (canonical_query ''Flask'' flask_query) (dr_key (flask_row v))" for v
    by (simp add: query_matches_def query_kwargs_def canonical_query_def flask_query_def flask_row_def astuple_def) code_simp
  then have "set ds = (\<lambda>r. create_distribution (dr_key r) flask_data) ` set ?rows"
    unfolding ds(3) using flask_row_data by auto
  then have "(\<lambda>d. dk_version (pd_key d)) ` set ds = {''1.0'', ''1.1''}" by (simp add: create_distribution_def flask_row_def)
  then show ?thesis using b ds(1,2) by blast
qed

text \<open>A requirement with a tab in it is read back as two.\<close>

lemma tab_splits_requirement:
  "rd_requires (from_bytes (to_bytes \<lparr>rd_requires = [''click'' @ [tab] @ ''>=5''], rd_sha256 = replicate 32 CHR ''x''\<rparr>)) = [''click'', ''>=5'']"
  by code_simp

end
