(* ===== verification/Dynamo_Mutex.thy ===== *)
theory Dynamo_Mutex
  imports Prelude
begin

text \<open>
  The distributed lock of \<open>util/dynamodb_mutex/mutex.py\<close> and the conditional write of
  \<open>aws/dynamodb.py\<close> it is built on. DynamoDB itself is a parameter: \<open>put\<close> and \<open>get\<close> are the
  two requests the code sends to it, on a state of the table of any type. The locale
  \<open>conditional_store\<close> states what their documentation promises of them, and the theorems on
  the lock hold for every service that keeps it.

  Times are microseconds since the epoch; the table stores whole seconds. A service error
  other than a failed condition is an exception. Every operation returns its result or
  exception together with the table it leaves.
\<close>

section \<open>The table\<close>

record lock_item =
  li_lockname :: string
  li_expire_ts :: nat
  li_holder :: string
  li_ttl :: "nat option"

text \<open>The two condition expressions of \<open>TableDef\<close>, with their values.\<close>

datatype put_condition = CHECK_HOLDER string | PRUNE_EXPIRED nat

fun condition_holds :: "put_condition \<Rightarrow> lock_item option \<Rightarrow> bool" where
  "condition_holds c None = True"
| "condition_holds (CHECK_HOLDER h) (Some i) = (li_holder i = h)"
| "condition_holds (PRUNE_EXPIRED now_ts) (Some i) = (li_expire_ts i < now_ts)"

datatype reply = Written | ConditionalCheckFailed | ServiceError

type_synonym 's put_request = "lock_item \<Rightarrow> put_condition \<Rightarrow> 's \<Rightarrow> reply \<times> 's"
type_synonym 's get_request = "string \<Rightarrow> 's \<Rightarrow> lock_item option"

datatype mutex_error = InvalidHolder | ClientError | AcquireLockFailedError string

definition put_item :: "'s put_request \<Rightarrow> lock_item \<Rightarrow> put_condition \<Rightarrow> 's \<Rightarrow> (mutex_error + bool) \<times> 's" where
  "put_item put record expression s =
     (case put record expression s of
        (Written, s') \<Rightarrow> (Inr True, s')
      | (ConditionalCheckFailed, s') \<Rightarrow> (Inr False, s')
      | (ServiceError, s') \<Rightarrow> (Inl ClientError, s'))"

section \<open>The lock table\<close>

definition NO_HOLDER :: string where
  "NO_HOLDER = ''__empty__''"

definition is_held :: "lock_item \<Rightarrow> bool" where
  "is_held i = (li_holder i \<noteq> NO_HOLDER)"

definition seconds :: "nat \<Rightarrow> nat" where
  "seconds t = t div 1000000"

definition row_ttl :: nat where
  "row_ttl = 6 * 60 * 60 * 1000000"

definition check_holder :: "string \<Rightarrow> mutex_error + unit" where
  "check_holder holder = (if holder = NO_HOLDER \<or> holder = [] then Inl InvalidHolder else Inr ())"

definition lock_record :: "string \<Rightarrow> string \<Rightarrow> nat \<Rightarrow> nat \<Rightarrow> lock_item" where
  "lock_record lock_name holder timeout now =
     (let expire = now + timeout; ttl = expire + row_ttl
      in \<lparr>li_lockname = lock_name, li_expire_ts = seconds expire, li_holder = holder, li_ttl = Some (seconds ttl)\<rparr>)"

definition write_lock_item :: "'s put_request \<Rightarrow> string \<Rightarrow> string \<Rightarrow> nat \<Rightarrow> nat \<Rightarrow> 's \<Rightarrow> (mutex_error + bool) \<times> 's" where
  "write_lock_item put lock_name holder timeout now s =
     (case check_holder holder of
        Inl e \<Rightarrow> (Inl e, s)
      | Inr _ \<Rightarrow> put_item put (lock_record lock_name holder timeout now) (CHECK_HOLDER NO_HOLDER) s)"

definition get_cleared_lock :: "string \<Rightarrow> lock_item" where
  "get_cleared_lock lock_name = \<lparr>li_lockname = lock_name, li_expire_ts = 0, li_holder = NO_HOLDER, li_ttl = None\<rparr>"

definition clear_lock_item :: "'s put_request \<Rightarrow> string \<Rightarrow> string \<Rightarrow> 's \<Rightarrow> (mutex_error + bool) \<times> 's" where
  "clear_lock_item put lock_name holder s =
     (case check_holder holder of
        Inl e \<Rightarrow> (Inl e, s)
      | Inr _ \<Rightarrow> put_item put (get_cleared_lock lock_name) (CHECK_HOLDER holder) s)"

definition prune_expired :: "'s put_request \<Rightarrow> string \<Rightarrow> string \<Rightarrow> nat \<Rightarrow> 's \<Rightarrow> (mutex_error + bool) \<times> 's" where
  "prune_expired put lock_name holder now s =
     (case check_holder holder of
        Inl e \<Rightarrow> (Inl e, s)
      | Inr _ \<Rightarrow> put_item put (get_cleared_lock lock_name) (PRUNE_EXPIRED (seconds now)) s)"

section \<open>The mutex\<close>

record mutex =
  mx_lockname :: string
  mx_holder :: string
  mx_timeout :: nat

text \<open>\<open>lock\<close> reads the clock twice, for the pruning and for the write.\<close>

definition lock :: "'s put_request \<Rightarrow> mutex \<Rightarrow> nat \<Rightarrow> nat \<Rightarrow> 's \<Rightarrow> (mutex_error + bool) \<times> 's" where
  "lock put m now1 now2 s =
     (case prune_expired put (mx_lockname m) (mx_holder m) now1 s of
        (Inl e, s1) \<Rightarrow> (Inl e, s1)
      | (Inr _, s1) \<Rightarrow> write_lock_item put (mx_lockname m) (mx_holder m) (mx_timeout m) now2 s1)"

definition mutex_release :: "'s put_request \<Rightarrow> mutex \<Rightarrow> 's \<Rightarrow> (mutex_error + bool) \<times> 's" where
  "mutex_release put m s = clear_lock_item put (mx_lockname m) (mx_holder m) s"

definition mutex_enter :: "'s put_request \<Rightarrow> 's get_request \<Rightarrow> mutex \<Rightarrow> nat \<Rightarrow> nat \<Rightarrow> 's \<Rightarrow> (mutex_error + unit) \<times> 's" where
  "mutex_enter put get m now1 now2 s =
     (case lock put m now1 now2 s of
        (Inl e, s') \<Rightarrow> (Inl e, s')
      | (Inr True, s') \<Rightarrow> (Inr (), s')
      | (Inr False, s') \<Rightarrow>
          (let holder = (case get (mx_lockname m) s' of None \<Rightarrow> ''NA'' | Some i \<Rightarrow> li_holder i)
           in (Inl (AcquireLockFailedError (mx_lockname m @ '' is held by '' @ [CHR 0x27] @ holder @ [CHR 0x27])), s')))"

definition is_locked :: "'s get_request \<Rightarrow> mutex \<Rightarrow> nat \<Rightarrow> 's \<Rightarrow> bool" where
  "is_locked get m now s =
     (case get (mx_lockname m) s of None \<Rightarrow> False | Some i \<Rightarrow> is_held i \<and> now < li_expire_ts i * 1000000)"

section \<open>The service\<close>

text \<open>
  What DynamoDB documents of a conditional put: it is written exactly when the condition
  holds of the item with its key, it replaces that item and no other, and a request that is
  rejected changes nothing.
\<close>

locale conditional_store =
  fixes put :: "'s put_request" and get :: "'s get_request"
  assumes written: "put i c s = (Written, s') \<Longrightarrow> condition_holds c (get (li_lockname i) s)
      \<and> (\<forall>n. get n s' = (if n = li_lockname i then Some i else get n s))"
    and rejected: "put i c s = (ConditionalCheckFailed, s') \<Longrightarrow> \<not> condition_holds c (get (li_lockname i) s) \<and> s' = s"
    and failed: "put i c s = (ServiceError, s') \<Longrightarrow> s' = s"
begin

lemma put_item_cases:
  "(\<exists>s'. put_item put i c s = (Inr True, s') \<and> condition_holds c (get (li_lockname i) s)
      \<and> (\<forall>n. get n s' = (if n = li_lockname i then Some i else get n s)))
   \<or> (put_item put i c s = (Inr False, s) \<and> \<not> condition_holds c (get (li_lockname i) s))
   \<or> put_item put i c s = (Inl ClientError, s)"
proof (cases "put i c s")
  case (Pair r s')
  then show ?thesis using written [of i c s s'] rejected [of i c s s'] failed [of i c s s'] by (cases r) (auto simp: put_item_def)
qed

lemma blocked_put: "\<not> condition_holds c (get (li_lockname i) s) \<Longrightarrow> snd (put_item put i c s) = s \<and> fst (put_item put i c s) \<noteq> Inr True"
  using put_item_cases [of i c s] by auto

lemma other_put: "n \<noteq> li_lockname i \<Longrightarrow> get n (snd (put_item put i c s)) = get n s"
  using put_item_cases [of i c s] by auto

end

text \<open>A table that keeps the promises: a dictionary of items.\<close>

definition table_put :: "(string, lock_item) dict put_request" where
  "table_put i c s = (if condition_holds c (map_of s (li_lockname i)) then (Written, AList.update (li_lockname i) i s)
     else (ConditionalCheckFailed, s))"

definition table_get :: "(string, lock_item) dict get_request" where
  "table_get n s = map_of s n"

interpretation table: conditional_store table_put table_get
  by unfold_locales (auto simp: table_put_def table_get_def split: if_splits)

section \<open>Mutual exclusion\<close>

text \<open>
  One request of a process to the table, at a time. The processes other than the holder
  \<open>a\<close> may prune, write and clear any lock, and the service may drop an item after its time
  to live. Each request is a step of its own, so that the two requests of \<open>lock\<close> interleave
  with those of other processes.
\<close>

inductive other_step :: "'s put_request \<Rightarrow> 's get_request \<Rightarrow> string \<Rightarrow> nat \<Rightarrow> 's \<Rightarrow> 's \<Rightarrow> bool"
  for put :: "'s put_request" and get :: "'s get_request" and a :: string where
  prune: "other_step put get a now s (snd (prune_expired put n b now s))"
| write_row: "other_step put get a now s (snd (write_lock_item put n b timeout now s))"
| clear: "b \<noteq> a \<Longrightarrow> other_step put get a now s (snd (clear_lock_item put n b s))"
| drop_row: "get n s = Some i \<Longrightarrow> li_ttl i = Some t \<Longrightarrow> t < seconds now \<Longrightarrow>
    (\<forall>m. get m s' = (if m = n then None else get m s)) \<Longrightarrow> other_step put get a now s s'"

inductive_cases other_stepE: "other_step put get a now s s'"

text \<open>Steps at the times of a list.\<close>

fun other_steps :: "'s put_request \<Rightarrow> 's get_request \<Rightarrow> string \<Rightarrow> nat list \<Rightarrow> 's \<Rightarrow> 's \<Rightarrow> bool" where
  "other_steps put get a [] s s' = (s' = s)"
| "other_steps put get a (t # ts) s s' = (\<exists>u. other_step put get a t s u \<and> other_steps put get a ts u s')"

text \<open>\<open>holds\<close>: the item says that \<open>a\<close> has the lock up to a time, and outlives it.\<close>

definition holds_lock :: "string \<Rightarrow> lock_item \<Rightarrow> bool" where
  "holds_lock a i \<longleftrightarrow> li_holder i = a \<and> a \<noteq> NO_HOLDER \<and> a \<noteq> [] \<and> (\<exists>t. li_ttl i = Some t \<and> li_expire_ts i \<le> t)"

lemma seconds_mono: "t \<le> u \<Longrightarrow> seconds t \<le> seconds u"
  by (simp add: seconds_def div_le_mono)

lemma lock_record_holds: "check_holder a = Inr () \<Longrightarrow> holds_lock a (lock_record n a timeout now)"
  by (auto simp: holds_lock_def lock_record_def check_holder_def Let_def intro: seconds_mono split: if_splits)

context conditional_store
begin

lemma held_put:
  assumes "get n s = Some i" "\<not> condition_holds c (Some i)"
  shows "get n (snd (put_item put j c s)) = Some i"
  using blocked_put [of c j s] other_put [of n j c s] assms by (cases "n = li_lockname j") auto

lemma other_step_keeps:
  assumes "other_step put get a now s s'" "get n s = Some i" "holds_lock a i" "seconds now \<le> li_expire_ts i"
  shows "get n s' = Some i"
  using assms(1)
proof (cases rule: other_step.cases)
  case (prune m b)
  then show ?thesis using assms(2,4) held_put [OF assms(2), of "PRUNE_EXPIRED (seconds now)"]
    by (auto simp: prune_expired_def split: sum.splits)
next
  case (write_row m b timeout)
  then show ?thesis using assms(2,3) held_put [OF assms(2), of "CHECK_HOLDER NO_HOLDER"]
    by (auto simp: write_lock_item_def holds_lock_def split: sum.splits)
next
  case (clear b m)
  then show ?thesis using assms(2,3) held_put [OF assms(2), of "CHECK_HOLDER b"]
    by (auto simp: clear_lock_item_def holds_lock_def split: sum.splits)
next
  case (drop_row m j t)
  then show ?thesis using assms(2-4) by (auto simp: holds_lock_def)
qed

lemma other_steps_keep:
  assumes "other_steps put get a ts s s'" "get n s = Some i" "holds_lock a i" "\<forall>t \<in> set ts. seconds t \<le> li_expire_ts i"
  shows "get n s' = Some i"
  using assms
proof (induction ts arbitrary: s)
  case (Cons t ts)
  then obtain u where "other_step put get a t s u" "other_steps put get a ts u s'" by auto
  then show ?case using Cons.IH other_step_keeps [of a t s u n i] Cons.prems(2-4) by simp
qed simp

lemma lock_blocked:
  assumes "get (mx_lockname m) s = Some i" "holds_lock a i" "seconds now1 \<le> li_expire_ts i"
  shows "fst (lock put m now1 now2 s) \<noteq> Inr True" "snd (lock put m now1 now2 s) = s"
proof -
  have p: "snd (prune_expired put (mx_lockname m) (mx_holder m) now1 s) = s"
    using assms(1,3) blocked_put [of "PRUNE_EXPIRED (seconds now1)" "get_cleared_lock (mx_lockname m)" s]
    by (auto simp: prune_expired_def get_cleared_lock_def split: sum.splits)
  have w: "fst (write_lock_item put (mx_lockname m) (mx_holder m) (mx_timeout m) now2 s) \<noteq> Inr True
    \<and> snd (write_lock_item put (mx_lockname m) (mx_holder m) (mx_timeout m) now2 s) = s"
    using assms(1,2) blocked_put [of "CHECK_HOLDER NO_HOLDER" "lock_record (mx_lockname m) (mx_holder m) (mx_timeout m) now2" s]
    by (auto simp: write_lock_item_def lock_record_def holds_lock_def Let_def split: sum.splits)
  show "fst (lock put m now1 now2 s) \<noteq> Inr True" "snd (lock put m now1 now2 s) = s"
    using p w by (auto simp: lock_def split: prod.splits sum.splits)
qed

lemma lock_True:
  assumes "lock put m now1 now2 s = (Inr True, s')"
  shows "get (mx_lockname m) s' = Some (lock_record (mx_lockname m) (mx_holder m) (mx_timeout m) now2)" "check_holder (mx_holder m) = Inr ()"
proof -
  obtain s1 where w: "write_lock_item put (mx_lockname m) (mx_holder m) (mx_timeout m) now2 s1 = (Inr True, s')"
    using assms by (auto simp: lock_def split: prod.splits sum.splits)
  then show c: "check_holder (mx_holder m) = Inr ()" by (auto simp: write_lock_item_def split: sum.splits)
  then show "get (mx_lockname m) s' = Some (lock_record (mx_lockname m) (mx_holder m) (mx_timeout m) now2)"
    using w put_item_cases [of "lock_record (mx_lockname m) (mx_holder m) (mx_timeout m) now2" "CHECK_HOLDER NO_HOLDER" s1]
    by (auto simp: write_lock_item_def lock_record_def Let_def)
qed

end

text \<open>
  C4. The lock excludes. After \<open>a\<close> has taken a lock, no interleaving of requests of other
  processes takes it from \<open>a\<close> before it expires: the item is still that of \<open>a\<close>, an attempt
  of any process to lock at such a time does not succeed, and it changes nothing.
\<close>

theorem mutual_exclusion:
  assumes "conditional_store put get"
    and "lock put a now1 now2 s = (Inr True, s1)"
    and "other_steps put get (mx_holder a) ts s1 s2"
    and "\<forall>t \<in> set (now3 # ts). seconds t \<le> seconds (now2 + mx_timeout a)"
    and "mx_lockname b = mx_lockname a"
  shows "get (mx_lockname a) s2 = Some (lock_record (mx_lockname a) (mx_holder a) (mx_timeout a) now2)
    \<and> fst (lock put b now3 now4 s2) \<noteq> Inr True \<and> snd (lock put b now3 now4 s2) = s2"
proof -
  let ?i = "lock_record (mx_lockname a) (mx_holder a) (mx_timeout a) now2"
  have e: "li_expire_ts ?i = seconds (now2 + mx_timeout a)" by (simp add: lock_record_def Let_def)
  note t = conditional_store.lock_True [OF assms(1,2)]
  have h: "holds_lock (mx_holder a) ?i" by (rule lock_record_holds [OF t(2)])
  have g: "get (mx_lockname a) s2 = Some ?i"
    by (rule conditional_store.other_steps_keep [OF assms(1,3) t(1) h]) (use assms(4) e in simp)
  have "seconds now3 \<le> li_expire_ts ?i" using assms(4) e by simp
  then show ?thesis using conditional_store.lock_blocked [OF assms(1) _ h, of b s2 now3 now4] g assms(5) by simp
qed

definition mutex_a :: mutex where
  "mutex_a = \<lparr>mx_lockname = ''db'', mx_holder = ''a'', mx_timeout = 5000000\<rparr>"

definition mutex_b :: mutex where
  "mutex_b = \<lparr>mx_lockname = ''db'', mx_holder = ''b'', mx_timeout = 5000000\<rparr>"

definition locked_by_a :: "(string, lock_item) dict" where
  "locked_by_a = snd (lock table_put mutex_a 1000000 1000000 [])"

lemmas mutex_run_simps = lock_def prune_expired_def write_lock_item_def check_holder_def put_item_def table_put_def table_get_def
  get_cleared_lock_def lock_record_def seconds_def row_ttl_def NO_HOLDER_def mutex_a_def mutex_b_def locked_by_a_def Let_def

theorem mutual_exclusion_witness:
  "fst (lock table_put mutex_b 6000000 6000000 locked_by_a) \<noteq> Inr True"
proof -
  have l: "lock table_put mutex_a 1000000 1000000 [] = (Inr True, locked_by_a)" by (simp add: mutex_run_simps)
  have s: "other_steps table_put table_get (mx_holder mutex_a) [] locked_by_a locked_by_a" by simp
  have t: "\<forall>t \<in> set [6000000 :: nat]. seconds t \<le> seconds (1000000 + mx_timeout mutex_a)" by (simp add: mutex_run_simps)
  have n: "mx_lockname mutex_b = mx_lockname mutex_a" by (simp add: mutex_run_simps)
  show ?thesis using mutual_exclusion [OF table.conditional_store_axioms l s t n] by blast
qed

text \<open>
  C24. A lock whose item is absent, cleared or expired can be taken: when the service answers,
  \<open>lock\<close> returns true and the item names the caller, and a release by the caller clears it.
\<close>

theorem lock_available:
  assumes "conditional_store put get" "\<And>i c t. fst (put i c t) \<noteq> ServiceError" "check_holder (mx_holder m) = Inr ()"
    and "case get (mx_lockname m) s of None \<Rightarrow> True | Some i \<Rightarrow> li_holder i = NO_HOLDER \<or> li_expire_ts i < seconds now1"
  shows "\<exists>s1 s2. lock put m now1 now2 s = (Inr True, s1)
    \<and> get (mx_lockname m) s1 = Some (lock_record (mx_lockname m) (mx_holder m) (mx_timeout m) now2)
    \<and> mutex_release put m s1 = (Inr True, s2) \<and> get (mx_lockname m) s2 = Some (get_cleared_lock (mx_lockname m))"
proof -
  have answers: "put_item put i c t \<noteq> (Inl ClientError, u)" for i c t u
    using assms(2) [of i c t] by (auto simp: put_item_def split: prod.splits reply.splits)
  note pc = conditional_store.put_item_cases [OF assms(1)]
  let ?c = "get_cleared_lock (mx_lockname m)" and ?r = "lock_record (mx_lockname m) (mx_holder m) (mx_timeout m) now2"
  have names: "li_lockname ?c = mx_lockname m" "li_lockname ?r = mx_lockname m" "li_holder ?c = NO_HOLDER" "li_holder ?r = mx_holder m"
    by (simp_all add: get_cleared_lock_def lock_record_def Let_def)
  obtain b s0 where p: "prune_expired put (mx_lockname m) (mx_holder m) now1 s = (Inr b, s0)"
    "condition_holds (CHECK_HOLDER NO_HOLDER) (get (mx_lockname m) s0)"
    using pc [of ?c "PRUNE_EXPIRED (seconds now1)" s] answers assms(3,4) names
    by (auto simp: prune_expired_def split: option.splits)
  obtain s1 where w: "write_lock_item put (mx_lockname m) (mx_holder m) (mx_timeout m) now2 s0 = (Inr True, s1)"
    "get (mx_lockname m) s1 = Some ?r"
    using pc [of ?r "CHECK_HOLDER NO_HOLDER" s0] answers assms(3) p(2) names by (auto simp: write_lock_item_def)
  obtain s2 where c: "mutex_release put m s1 = (Inr True, s2)" "get (mx_lockname m) s2 = Some ?c"
    using pc [of ?c "CHECK_HOLDER (mx_holder m)" s1] answers assms(3) w(2) names by (auto simp: mutex_release_def clear_lock_item_def)
  show ?thesis using p(1) w c by (auto simp: lock_def)
qed

theorem lock_available_witness:
  "\<exists>s1. lock table_put mutex_b 7000000 7000000 locked_by_a = (Inr True, s1)"
proof -
  have p: "\<And>i c t. fst (table_put i c t) \<noteq> ServiceError" by (simp add: table_put_def)
  have h: "check_holder (mx_holder mutex_b) = Inr ()" by (simp add: mutex_run_simps)
  have e: "case table_get (mx_lockname mutex_b) locked_by_a of None \<Rightarrow> True | Some i \<Rightarrow> li_holder i = NO_HOLDER \<or> li_expire_ts i < seconds 7000000"
    by (simp add: mutex_run_simps)
  show ?thesis using lock_available [OF table.conditional_store_axioms p h e, of 7000000] by blast
qed

end
