(* ===== verification/Hierarchical_Digraph.thy ===== *)
theory Hierarchical_Digraph
  imports Prelude
begin

text \<open>
  \<open>util/hierarchicaldigraph/hierarchicaldigraph.py\<close>: a directed graph on labels that also
  form a tree, the tree being that of the prefixes of a label up to a separator. A visible
  graph shows some nodes of the tree; expanding and collapsing change which. The theorems
  say that every leaf is always shown by exactly one visible node, which edges are shown, and
  that collapsing undoes expanding.

  Python sets are sets. Where the code iterates over one, the model does so in the order of
  the labels, which no result depends on. The search for non-trivial children is bounded by
  fuel; running out of it is None, and stands for the recursion that does not end.
\<close>

section \<open>Rolling up\<close>

abbreviation sep :: char where
  "sep \<equiv> CHR ''/''"

definition roll_step :: "string \<Rightarrow> string \<times> string set \<Rightarrow> string \<times> string set" where
  "roll_step part = (\<lambda>(rollup_label, ret).
     let rollup_label = (if rollup_label \<noteq> [] then str_join [sep] [rollup_label, part] else part)
     in (rollup_label, insert rollup_label ret))"

definition roll_up_node :: "string \<Rightarrow> string set" where
  "roll_up_node label = snd (fold roll_step (split_on sep label) ([], {}))"

definition roll_up_nodes :: "string set \<Rightarrow> string set" where
  "roll_up_nodes labels = (\<Union>label \<in> labels. roll_up_node label)"

type_synonym edge_dict = "(string, string set) dict"

definition add_edge :: "string \<Rightarrow> string \<Rightarrow> edge_dict \<Rightarrow> edge_dict" where
  "add_edge src dst es = AList.update src (insert dst (case map_of es src of None \<Rightarrow> {} | Some ds \<Rightarrow> ds)) es"

definition add_all_rollups :: "string \<Rightarrow> string \<Rightarrow> edge_dict \<Rightarrow> edge_dict" where
  "add_all_rollups src dst es =
     fold (\<lambda>s. fold (add_edge s) (sorted_list_of_set (roll_up_node dst))) (sorted_list_of_set (roll_up_node src)) es"

definition roll_up_edges :: "edge_dict \<Rightarrow> edge_dict" where
  "roll_up_edges edges = fold (\<lambda>(src, dsts). fold (add_all_rollups src) (sorted_list_of_set dsts)) edges []"

section \<open>The graph\<close>

record hdigraph =
  leaf_nodes :: "string set"
  all_rolled_up_nodes :: "string set"
  all_rolled_up_edges :: edge_dict

definition new_hdigraph :: "string set \<Rightarrow> edge_dict \<Rightarrow> hdigraph" where
  "new_hdigraph labels edges =
     \<lparr>leaf_nodes = labels, all_rolled_up_nodes = roll_up_nodes labels, all_rolled_up_edges = roll_up_edges edges\<rparr>"

definition find_children :: "hdigraph \<Rightarrow> string \<Rightarrow> string set" where
  "find_children g parent =
     {node \<in> all_rolled_up_nodes g. (parent = [] \<or> starts_with (parent @ [sep]) node) \<and> sep \<notin> set (drop (length parent + 1) node)}"

fun find_non_trivial_children :: "nat \<Rightarrow> hdigraph \<Rightarrow> string \<Rightarrow> string set option" where
  "find_non_trivial_children 0 g parent = None"
| "find_non_trivial_children (Suc n) g parent =
     (let ret = find_children g parent in
      if card ret = 1 then
        (case find_non_trivial_children n g (the_elem ret) of
           None \<Rightarrow> None
         | Some cs \<Rightarrow> Some (if card cs = 0 then ret else cs))
      else Some ret)"

text \<open>The longest label bounds the depth of the search.\<close>

definition depth_bound :: "hdigraph \<Rightarrow> nat" where
  "depth_bound g = Suc (Max (insert 0 (length ` all_rolled_up_nodes g)))"

definition find_descendants :: "hdigraph \<Rightarrow> string \<Rightarrow> string set" where
  "find_descendants g parent = {node \<in> all_rolled_up_nodes g. parent = [] \<or> starts_with (parent @ [sep]) node}"

section \<open>The visible graph\<close>

record visible_graph =
  vg_digraph :: hdigraph
  visible_nodes :: "string set"
  visible_edges :: edge_dict

definition new_visible_graph :: "hdigraph \<Rightarrow> string set \<Rightarrow> visible_graph" where
  "new_visible_graph g nodes =
     \<lparr>vg_digraph = g, visible_nodes = nodes,
      visible_edges = map (\<lambda>(src, dsts). (src, dsts \<inter> nodes)) (filter (\<lambda>(src, dsts). src \<in> nodes) (all_rolled_up_edges g))\<rparr>"

definition initial_graph :: "hdigraph \<Rightarrow> visible_graph option" where
  "initial_graph g = map_option (new_visible_graph g) (find_non_trivial_children (depth_bound g) g [])"

definition expand :: "string \<Rightarrow> visible_graph \<Rightarrow> visible_graph option" where
  "expand node vg =
     map_option (\<lambda>cs. new_visible_graph (vg_digraph vg) (visible_nodes vg - {node} \<union> cs))
       (find_non_trivial_children (depth_bound (vg_digraph vg)) (vg_digraph vg) node)"

definition collapse :: "string \<Rightarrow> visible_graph \<Rightarrow> visible_graph" where
  "collapse node vg =
     new_visible_graph (vg_digraph vg) (visible_nodes vg - find_descendants (vg_digraph vg) node \<union> {node})"

section \<open>Reading targets\<close>

record target =
  tg_address :: string
  tg_requirements :: "string list"
  tg_dependencies :: "string list"

definition target_to_label :: "target \<Rightarrow> string" where
  "target_to_label t = (case tg_requirements t of [r] \<Rightarrow> r | _ \<Rightarrow> tg_address t)"

definition edges_from_peek_data :: "target list \<Rightarrow> py_error + hdigraph" where
  "edges_from_peek_data targets =
     (let address_to_label = fold (\<lambda>t. AList.update (tg_address t) (target_to_label t)) targets [];
          label = (\<lambda>a. case map_of address_to_label a of None \<Rightarrow> Inl KeyError | Some l \<Rightarrow> Inr l)
      in rmap (new_hdigraph (set (map snd address_to_label)))
           (rfold (\<lambda>t es. rbind (label (tg_address t)) (\<lambda>src.
              rmap (\<lambda>ds. AList.update src (set ds) es) (rmap_list label (tg_dependencies t)))) targets []))"

section \<open>Ancestors\<close>

text \<open>\<open>below p x\<close>: \<open>x\<close> is a proper descendant of \<open>p\<close>, where the empty label is the root.\<close>

definition below :: "string \<Rightarrow> string \<Rightarrow> bool" where
  "below p x \<longleftrightarrow> p = [] \<or> (\<exists>t. x = p @ sep # t)"

definition rolls_to :: "string \<Rightarrow> string \<Rightarrow> bool" where
  "rolls_to n x \<longleftrightarrow> n \<noteq> [] \<and> (n = x \<or> below n x)"

definition wf_label :: "string \<Rightarrow> bool" where
  "wf_label x \<longleftrightarrow> x \<noteq> [] \<and> hd x \<noteq> sep"

lemma split_on_sep: "split_on c (n @ c # u) = split_on c n @ split_on c u"
  by (induction n) (auto split: list.splits)

lemma str_join_append: "xs \<noteq> [] \<Longrightarrow> ys \<noteq> [] \<Longrightarrow> str_join [c] (xs @ ys) = str_join [c] xs @ c # str_join [c] ys"
proof (induction "[c]" xs rule: str_join.induct)
  case (2 x)
  then show ?case by (cases ys) auto
qed auto

lemma str_join_ne: "ps \<noteq> [] \<Longrightarrow> hd ps \<noteq> [] \<Longrightarrow> str_join [c] ps \<noteq> []"
  by (induction "[c]" ps rule: str_join.induct) auto

lemma fold_roll_step:
  "ps \<noteq> [] \<Longrightarrow> hd ps \<noteq> [] \<Longrightarrow>
   fold roll_step ps ([], {}) = (str_join [sep] ps, {n. \<exists>k. 0 < k \<and> k \<le> length ps \<and> n = str_join [sep] (take k ps)})"
proof (induction ps rule: rev_induct)
  case (snoc p qs)
  show ?case
  proof (cases "qs = []")
    case True
    then show ?thesis by (auto simp: roll_step_def intro: exI [of _ 1])
  next
    case False
    have IH: "fold roll_step qs ([], {}) = (str_join [sep] qs, {n. \<exists>k. 0 < k \<and> k \<le> length qs \<and> n = str_join [sep] (take k qs)})"
      and ne: "str_join [sep] qs \<noteq> []"
      using snoc False str_join_ne [of qs] by simp_all
    have "fold roll_step (qs @ [p]) ([], {}) = (str_join [sep] (qs @ [p]),
        insert (str_join [sep] (qs @ [p])) {n. \<exists>k. 0 < k \<and> k \<le> length qs \<and> n = str_join [sep] (take k qs)})"
      using IH ne False by (simp add: roll_step_def Let_def str_join_append)
    moreover have "(\<exists>k. 0 < k \<and> k \<le> length (qs @ [p]) \<and> n = str_join [sep] (take k (qs @ [p]))) \<longleftrightarrow>
        n = str_join [sep] (qs @ [p]) \<or> (\<exists>k. 0 < k \<and> k \<le> length qs \<and> n = str_join [sep] (take k qs))" for n
      by (auto simp: le_Suc_eq intro: exI [of _ "Suc (length qs)"])
    ultimately show ?thesis by auto
  qed
qed simp

lemma split_first: "wf_label x \<Longrightarrow> hd (split_on sep x) \<noteq> []"
  by (cases x) (auto simp: wf_label_def split: list.splits)

lemma roll_up_node_set:
  assumes "wf_label x"
  shows "roll_up_node x = {n. rolls_to n x}"
proof -
  let ?ps = "split_on sep x"
  have "roll_up_node x = {n. \<exists>k. 0 < k \<and> k \<le> length ?ps \<and> n = str_join [sep] (take k ?ps)}"
    unfolding roll_up_node_def using fold_roll_step [OF split_on_ne split_first [OF assms]] by simp
  moreover have "(\<exists>k. 0 < k \<and> k \<le> length ?ps \<and> n = str_join [sep] (take k ?ps)) \<longleftrightarrow> rolls_to n x" for n
  proof
    assume "\<exists>k. 0 < k \<and> k \<le> length ?ps \<and> n = str_join [sep] (take k ?ps)"
    then obtain k where k: "0 < k" "k \<le> length ?ps" "n = str_join [sep] (take k ?ps)" by blast
    have "n \<noteq> []" using k split_first [OF assms] str_join_ne [of "take k ?ps" sep] by simp
    moreover have "n = x \<or> below n x"
    proof (cases "k = length ?ps")
      case True
      then show ?thesis using k(3) by (simp add: join_split_on)
    next
      case False
      then have "take k ?ps \<noteq> []" "drop k ?ps \<noteq> []" using k by simp_all
      then have "str_join [sep] ?ps = n @ sep # str_join [sep] (drop k ?ps)"
        using str_join_append [of "take k ?ps" "drop k ?ps" sep] k(3) by simp
      then show ?thesis by (auto simp: below_def join_split_on)
    qed
    ultimately show "rolls_to n x" by (simp add: rolls_to_def)
  next
    assume s: "rolls_to n x"
    show "\<exists>k. 0 < k \<and> k \<le> length ?ps \<and> n = str_join [sep] (take k ?ps)"
    proof (cases "n = x")
      case True
      then show ?thesis by (intro exI [of _ "length ?ps"]) (simp add: join_split_on)
    next
      case False
      then obtain t where "x = n @ sep # t" using s by (auto simp: rolls_to_def below_def)
      then have "?ps = split_on sep n @ split_on sep t" by (simp add: split_on_sep)
      then show ?thesis by (intro exI [of _ "length (split_on sep n)"]) (simp add: join_split_on)
    qed
  qed
  ultimately show ?thesis by simp
qed

lemma below_trans: "below p x \<Longrightarrow> below x y \<Longrightarrow> x \<noteq> [] \<Longrightarrow> below p y"
  by (auto simp: below_def)

lemma below_irrefl: "p \<noteq> [] \<Longrightarrow> \<not> below p p"
  by (auto simp: below_def)

lemma rolls_comparable: "rolls_to n x \<Longrightarrow> rolls_to m x \<Longrightarrow> n = m \<or> below n m \<or> below m n"
proof -
  assume "rolls_to n x" "rolls_to m x"
  then obtain t u where "x @ [sep] = n @ sep # t" "x @ [sep] = m @ sep # u"
    unfolding rolls_to_def below_def by (metis append.assoc append_Cons append_Nil)
  then have "n @ sep # t = m @ sep # u" by simp
  then show ?thesis by (auto simp: append_eq_append_conv2 below_def Cons_eq_append_conv append_eq_Cons_conv)
qed

lemma starts_with_below: "p = [] \<or> starts_with (p @ [sep]) x \<longleftrightarrow> below p x"
  by (auto simp: starts_with_iff below_def)

section \<open>Children\<close>

text \<open>
  The graphs the code is written for: labels that do not begin with the separator and of
  which none is the parent of another.
\<close>

definition wf_digraph :: "hdigraph \<Rightarrow> bool" where
  "wf_digraph g \<longleftrightarrow> finite (leaf_nodes g) \<and> (\<forall>x \<in> leaf_nodes g. wf_label x)
     \<and> (\<forall>x \<in> leaf_nodes g. \<forall>y \<in> leaf_nodes g. \<not> below x y) \<and> all_rolled_up_nodes g = roll_up_nodes (leaf_nodes g)"

lemma nodes_iff:
  assumes "wf_digraph g"
  shows "n \<in> all_rolled_up_nodes g \<longleftrightarrow> (\<exists>x \<in> leaf_nodes g. rolls_to n x)"
  using assms roll_up_node_set by (auto simp: wf_digraph_def roll_up_nodes_def)

lemma find_descendants_below: "find_descendants g p = {n \<in> all_rolled_up_nodes g. below p n}"
  by (simp only: find_descendants_def starts_with_below)

lemma find_children_below:
  "find_children g p = {n \<in> all_rolled_up_nodes g. below p n \<and> sep \<notin> set (drop (length p + 1) n)}"
  by (simp only: find_children_def starts_with_below)

lemma rolls_prefix: "rolls_to n x \<Longrightarrow> \<exists>t. x = n @ t"
  unfolding rolls_to_def below_def by (metis append_Nil2)

lemma finite_nodes:
  assumes "wf_digraph g"
  shows "finite (all_rolled_up_nodes g)"
proof -
  have "finite (roll_up_node x)" if x: "wf_label x" for x
  proof -
    have "roll_up_node x \<subseteq> {n. set n \<subseteq> set x \<and> length n \<le> length x}"
    proof
      fix n assume "n \<in> roll_up_node x"
      then obtain t where "x = n @ t" using roll_up_node_set [OF x] rolls_prefix by blast
      then show "n \<in> {n. set n \<subseteq> set x \<and> length n \<le> length x}" by simp
    qed
    moreover have "finite {n. set n \<subseteq> set x \<and> length n \<le> length x}" by (rule finite_lists_length_le) simp
    ultimately show ?thesis by (rule finite_subset)
  qed
  then show ?thesis using assms by (auto simp: wf_digraph_def roll_up_nodes_def)
qed

lemma node_wf: "wf_digraph g \<Longrightarrow> n \<in> all_rolled_up_nodes g \<Longrightarrow> wf_label n"
  by (auto simp: nodes_iff) (auto simp: wf_digraph_def wf_label_def rolls_to_def below_def hd_append split: if_splits)

lemma no_sep_prefix: "sep \<notin> set w \<Longrightarrow> t = w \<or> (\<exists>u. t = w @ sep # u) \<Longrightarrow> w = takeWhile (\<lambda>c. c \<noteq> sep) t"
  by (induction w arbitrary: t) auto

lemma takeWhile_sep: "t = takeWhile (\<lambda>c. c \<noteq> sep) t \<or> (\<exists>u. t = takeWhile (\<lambda>c. c \<noteq> sep) t @ sep # u)"
  by (induction t) auto

lemma child_root:
  assumes "wf_digraph g" "x \<in> leaf_nodes g"
  shows "n \<in> find_children g [] \<and> rolls_to n x \<longleftrightarrow> n = takeWhile (\<lambda>c. c \<noteq> sep) x"
proof
  have x: "wf_label x" using assms by (simp add: wf_digraph_def)
  assume n: "n \<in> find_children g [] \<and> rolls_to n x"
  then have "wf_label n" "sep \<notin> set (drop 1 n)" using node_wf [OF assms(1)] by (auto simp: find_children_below)
  then have "sep \<notin> set n" by (cases n) (auto simp: wf_label_def)
  then show "n = takeWhile (\<lambda>c. c \<noteq> sep) x" using n by (intro no_sep_prefix) (auto simp: rolls_to_def below_def)
next
  have x: "wf_label x" using assms by (simp add: wf_digraph_def)
  assume n: "n = takeWhile (\<lambda>c. c \<noteq> sep) x"
  then have ns: "sep \<notin> set n" using set_takeWhileD by fastforce
  have "n \<noteq> []" using x n by (cases x) (auto simp: wf_label_def)
  then have r: "rolls_to n x" using takeWhile_sep [of x] unfolding n [symmetric] rolls_to_def below_def by metis
  then have "n \<in> all_rolled_up_nodes g" using assms nodes_iff by blast
  then show "n \<in> find_children g [] \<and> rolls_to n x" using r ns by (auto simp: find_children_below below_def dest: in_set_dropD)
qed

lemma child_inner:
  assumes "wf_digraph g" "x \<in> leaf_nodes g" "p \<noteq> []" "x = p @ sep # t"
  shows "n \<in> find_children g p \<and> rolls_to n x \<longleftrightarrow> n = p @ sep # takeWhile (\<lambda>c. c \<noteq> sep) t"
proof
  assume n: "n \<in> find_children g p \<and> rolls_to n x"
  then obtain w where w: "n = p @ sep # w" "sep \<notin> set w" using assms(3) by (auto simp: find_children_below below_def)
  have "t = w \<or> (\<exists>u. t = w @ sep # u)" using n w assms(4) by (auto simp: rolls_to_def below_def)
  then show "n = p @ sep # takeWhile (\<lambda>c. c \<noteq> sep) t" using no_sep_prefix [OF w(2)] w(1) by simp
next
  define w where "w = takeWhile (\<lambda>c. c \<noteq> sep) t"
  assume "n = p @ sep # takeWhile (\<lambda>c. c \<noteq> sep) t"
  then have n: "n = p @ sep # w" by (simp add: w_def)
  have "t = w \<or> (\<exists>u. t = w @ sep # u)" unfolding w_def by (rule takeWhile_sep)
  then have r: "rolls_to n x" using n assms(4) by (auto simp: rolls_to_def below_def)
  then have "n \<in> all_rolled_up_nodes g" using assms nodes_iff by blast
  moreover have "sep \<notin> set w" using set_takeWhileD by (fastforce simp: w_def)
  ultimately show "n \<in> find_children g p \<and> rolls_to n x" using r n by (auto simp: find_children_below below_def)
qed

lemma children_cut:
  assumes "wf_digraph g" "x \<in> leaf_nodes g" "below p x"
  shows "\<exists>!n. n \<in> find_children g p \<and> rolls_to n x"
proof (cases "p = []")
  case True
  then show ?thesis using child_root [OF assms(1,2)] by simp
next
  case False
  then obtain t where "x = p @ sep # t" using assms(3) by (auto simp: below_def)
  then show ?thesis using child_inner [OF assms(1,2) False] by simp
qed

text \<open>What the search for non-trivial children returns: a cut through the leaves below the parent.\<close>

lemma non_trivial_children_cut:
  assumes "wf_digraph g" "find_non_trivial_children n g p = Some cs"
  shows "cs \<subseteq> {m \<in> all_rolled_up_nodes g. below p m} \<and> (\<forall>x \<in> leaf_nodes g. below p x \<longrightarrow> (\<exists>!m. m \<in> cs \<and> rolls_to m x))"
  using assms(2)
proof (induction n arbitrary: p cs)
  case (Suc n)
  have base: "find_children g p \<subseteq> {m \<in> all_rolled_up_nodes g. below p m}
    \<and> (\<forall>x \<in> leaf_nodes g. below p x \<longrightarrow> (\<exists>!m. m \<in> find_children g p \<and> rolls_to m x))"
    using children_cut [OF assms(1)] by (auto simp: find_children_below)
  show ?case
  proof (cases "cs = find_children g p")
    case True
    then show ?thesis using base by simp
  next
    case False
    then obtain c where c: "find_children g p = {c}" "find_non_trivial_children n g c = Some cs" "card cs \<noteq> 0"
      using Suc.prems by (auto simp: Let_def card_1_singleton_iff split: if_splits option.splits)
    note IH = Suc.IH [OF c(2)]
    have cp: "c \<in> all_rolled_up_nodes g" "below p c" "c \<noteq> []" using base c(1) node_wf [OF assms(1)] by (auto simp: wf_label_def)
    obtain m where "m \<in> cs" using c(3) by fastforce
    then have m: "m \<in> all_rolled_up_nodes g" "below c m" using IH by blast+
    obtain y where "y \<in> leaf_nodes g" "rolls_to m y" using nodes_iff [OF assms(1)] m(1) by blast
    then have y: "y \<in> leaf_nodes g" "below c y" using m(2) below_trans [of c m y] unfolding rolls_to_def by blast+
    have "\<exists>!m. m \<in> cs \<and> rolls_to m x" if x: "x \<in> leaf_nodes g" "below p x" for x
    proof -
      have "rolls_to c x" using base x c(1) by auto
      moreover have "c \<noteq> x" using y x(1) assms(1) by (auto simp: wf_digraph_def)
      ultimately have "below c x" by (simp add: rolls_to_def)
      then show ?thesis using IH x(1) by simp
    qed
    moreover have "cs \<subseteq> {m \<in> all_rolled_up_nodes g. below p m}" using IH cp below_trans by blast
    ultimately show ?thesis by simp
  qed
qed simp

lemma non_trivial_children_returns:
  assumes "wf_digraph g" "\<forall>m \<in> all_rolled_up_nodes g. length m < n + length p" "0 < n"
  shows "\<exists>cs. find_non_trivial_children n g p = Some cs"
  using assms(2,3)
proof (induction n arbitrary: p)
  case (Suc n)
  show ?case
  proof (cases "card (find_children g p) = 1")
    case True
    then obtain c where c: "find_children g p = {c}" by (auto simp: card_1_singleton_iff)
    then have "c \<in> all_rolled_up_nodes g" "below p c" by (auto simp: find_children_below)
    moreover from this have "length p < length c" using node_wf [OF assms(1), of c] by (auto simp: below_def wf_label_def)
    ultimately have "\<forall>m \<in> all_rolled_up_nodes g. length m < n + length c" "0 < n" using Suc.prems by fastforce+
    then show ?thesis using Suc.IH [of c] c by (auto simp: Let_def)
  qed (simp add: Let_def)
qed simp

lemma depth_bound_enough:
  assumes "wf_digraph g" "m \<in> all_rolled_up_nodes g"
  shows "length m < depth_bound g"
  using finite_nodes [OF assms(1)] assms(2) by (simp add: depth_bound_def less_Suc_eq_le)

lemma non_trivial_children_total:
  assumes "wf_digraph g"
  shows "\<exists>cs. find_non_trivial_children (depth_bound g) g p = Some cs"
  by (rule non_trivial_children_returns [OF assms]) (use depth_bound_enough [OF assms] trans_less_add1 in blast, simp add: depth_bound_def)

section \<open>Expanding and collapsing\<close>

text \<open>
  The steps of a viewer: expand a visible node that is not a leaf, or collapse a node that is
  not hidden inside a visible one.
\<close>

inductive view_step :: "visible_graph \<Rightarrow> visible_graph \<Rightarrow> bool" where
  expands: "n \<in> visible_nodes vg \<Longrightarrow> n \<notin> leaf_nodes (vg_digraph vg) \<Longrightarrow> expand n vg = Some vg' \<Longrightarrow> view_step vg vg'"
| collapses: "n \<in> all_rolled_up_nodes (vg_digraph vg) \<Longrightarrow> \<forall>v \<in> visible_nodes vg. \<not> below v n \<Longrightarrow> view_step vg (collapse n vg)"

definition view_ok :: "hdigraph \<Rightarrow> visible_graph \<Rightarrow> bool" where
  "view_ok g vg \<longleftrightarrow> wf_digraph g \<and> vg_digraph vg = g \<and> vg = new_visible_graph g (visible_nodes vg) \<and> visible_nodes vg \<subseteq> all_rolled_up_nodes g
     \<and> (\<forall>x \<in> leaf_nodes g. \<exists>!n. n \<in> visible_nodes vg \<and> rolls_to n x)"

lemma new_visible_graph_fields [simp]:
  "vg_digraph (new_visible_graph g V) = g" "visible_nodes (new_visible_graph g V) = V"
  by (simp_all add: new_visible_graph_def)

lemma shown_by:
  assumes "view_ok g vg" "x \<in> leaf_nodes g"
  obtains v where "v \<in> visible_nodes vg" "rolls_to v x" "\<And>m. m \<in> visible_nodes vg \<Longrightarrow> rolls_to m x \<Longrightarrow> m = v"
proof -
  have "\<exists>!n. n \<in> visible_nodes vg \<and> rolls_to n x" using assms by (simp add: view_ok_def)
  then show thesis by (elim ex1E) (use that in blast)
qed

lemma initial_ok:
  assumes "wf_digraph g" "initial_graph g = Some vg"
  shows "view_ok g vg"
proof -
  obtain cs where cs: "find_non_trivial_children (depth_bound g) g [] = Some cs" "vg = new_visible_graph g cs"
    using assms(2) by (auto simp: initial_graph_def)
  then show ?thesis using non_trivial_children_cut [OF assms(1) cs(1)] assms(1) by (auto simp: view_ok_def below_def)
qed

lemma expand_ok:
  assumes ok: "view_ok g vg" and n: "n \<in> visible_nodes vg" "n \<notin> leaf_nodes g" and e: "expand n vg = Some vg'"
  shows "view_ok g vg'"
proof -
  have g: "vg_digraph vg = g" "wf_digraph g" using ok by (simp_all add: view_ok_def)
  obtain cs where cs: "find_non_trivial_children (depth_bound g) g n = Some cs" "vg' = new_visible_graph g (visible_nodes vg - {n} \<union> cs)"
    using e g by (auto simp: expand_def)
  note cut = non_trivial_children_cut [OF g(2) cs(1)]
  have "n \<noteq> []" using ok n(1) node_wf [OF g(2)] by (auto simp: view_ok_def wf_label_def)
  have "\<exists>!m. m \<in> visible_nodes vg - {n} \<union> cs \<and> rolls_to m x" if x: "x \<in> leaf_nodes g" for x
  proof -
    obtain v where v: "v \<in> visible_nodes vg" "rolls_to v x" "\<And>m. m \<in> visible_nodes vg \<Longrightarrow> rolls_to m x \<Longrightarrow> m = v"
      by (rule shown_by [OF ok x]) (rule that)
    have through: "rolls_to n x" if "m \<in> cs" "rolls_to m x" for m
      using that cut \<open>n \<noteq> []\<close> below_trans [of n m x] by (auto simp: rolls_to_def)
    show ?thesis
    proof (cases "v = n")
      case True
      then have "below n x" using v(2) n(2) x by (auto simp: rolls_to_def)
      then obtain c where c: "c \<in> cs" "rolls_to c x" "\<And>m. m \<in> cs \<Longrightarrow> rolls_to m x \<Longrightarrow> m = c" using cut x by blast
      have "m = c" if "m \<in> visible_nodes vg - {n} \<union> cs" "rolls_to m x" for m
        using that v(3) [of m] c(3) [of m] True by blast
      then show ?thesis using c(1,2) by blast
    next
      case False
      have "m = v" if "m \<in> visible_nodes vg - {n} \<union> cs" "rolls_to m x" for m
        using that v(3) [of m] v(3) [of n] through [of m] n(1) False by blast
      then show ?thesis using v(1,2) False by blast
    qed
  qed
  then show ?thesis using ok cut cs(2) g by (auto simp: view_ok_def)
qed

lemma collapse_ok:
  assumes ok: "view_ok g vg" and n: "n \<in> all_rolled_up_nodes g" "\<forall>v \<in> visible_nodes vg. \<not> below v n"
  shows "view_ok g (collapse n vg)"
proof -
  have g: "vg_digraph vg = g" "wf_digraph g" "visible_nodes vg \<subseteq> all_rolled_up_nodes g" using ok by (simp_all add: view_ok_def)
  have ne: "n \<noteq> []" using node_wf [OF g(2) n(1)] by (simp add: wf_label_def)
  let ?V = "visible_nodes vg - find_descendants g n \<union> {n}"
  have mem: "m \<in> ?V \<longleftrightarrow> m = n \<or> m \<in> visible_nodes vg \<and> \<not> below n m" for m using g(3) by (auto simp: find_descendants_below)
  have "\<exists>!m. m \<in> ?V \<and> rolls_to m x" if x: "x \<in> leaf_nodes g" for x
  proof (cases "rolls_to n x")
    case True
    have "m = n" if "m \<in> ?V" "rolls_to m x" for m
      using that mem rolls_comparable [OF True that(2)] n(2) by blast
    then show ?thesis using True mem by (intro ex1I [of _ n]) blast+
  next
    case False
    obtain v where v: "v \<in> visible_nodes vg" "rolls_to v x" "\<And>m. m \<in> visible_nodes vg \<Longrightarrow> rolls_to m x \<Longrightarrow> m = v"
      by (rule shown_by [OF ok x]) (rule that)
    have "\<not> below n v"
    proof
      assume "below n v"
      then have "rolls_to n x" using v(2) ne below_trans [of n v x] by (auto simp: rolls_to_def)
      then show False using False by simp
    qed
    then show ?thesis using v False mem by (intro ex1I [of _ v]) blast+
  qed
  then show ?thesis using ok n(1) g unfolding collapse_def view_ok_def by auto
qed

lemma view_step_ok: "view_ok g vg \<Longrightarrow> view_step vg vg' \<Longrightarrow> view_ok g vg'"
proof (erule view_step.cases)
  fix n v w assume "view_ok g vg" "vg = v" "vg' = w" "n \<in> visible_nodes v" "n \<notin> leaf_nodes (vg_digraph v)" "expand n v = Some w"
  then show "view_ok g vg'" using expand_ok [of g v n w] by (simp add: view_ok_def)
next
  fix n v assume "view_ok g vg" "vg = v" "vg' = collapse n v" "n \<in> all_rolled_up_nodes (vg_digraph v)" "\<forall>w \<in> visible_nodes v. \<not> below w n"
  then show "view_ok g vg'" using collapse_ok [of g v n] by (simp add: view_ok_def)
qed

text \<open>The graphs built from labels and edges, and the views that start from them.\<close>

definition starts_view :: "hdigraph \<Rightarrow> visible_graph \<Rightarrow> bool" where
  "starts_view g vg \<longleftrightarrow> wf_digraph g \<and> initial_graph g = Some vg"

interpretation view: invariant_system "starts_view g" view_step "view_ok g" for g
  by unfold_locales (auto simp: starts_view_def intro: initial_ok view_step_ok)

definition good_labels :: "string set \<Rightarrow> bool" where
  "good_labels labels \<longleftrightarrow> finite labels \<and> (\<forall>x \<in> labels. wf_label x) \<and> (\<forall>x \<in> labels. \<forall>y \<in> labels. \<not> below x y)"

lemma good_labels_wf: "good_labels labels \<Longrightarrow> wf_digraph (new_hdigraph labels edges)"
  by (simp add: good_labels_def wf_digraph_def new_hdigraph_def)

lemma reachable_view:
  assumes "good_labels labels" "initial_graph (new_hdigraph labels edges) = Some vg" "view_step\<^sup>*\<^sup>* vg vg'"
  shows "view_ok (new_hdigraph labels edges) vg'"
  by (rule view.reachable_inv [OF _ assms(3)]) (use assms(1,2) good_labels_wf in \<open>simp add: starts_view_def\<close>)

text \<open>The graph the witnesses below use.\<close>

definition demo_labels :: "string set" where
  "demo_labels = {''a/b'', ''a/c'', ''d''}"

definition demo_edges :: edge_dict where
  "demo_edges = [(''a/b'', {''a/c'', ''d''})]"

definition demo_graph :: hdigraph where
  "demo_graph = new_hdigraph demo_labels demo_edges"

definition demo_view :: visible_graph where
  "demo_view = new_visible_graph demo_graph {''a'', ''d''}"

lemma demo_good: "good_labels demo_labels"
  by (auto simp: good_labels_def demo_labels_def wf_label_def below_def)

lemma demo_initial: "initial_graph demo_graph = Some demo_view"
  by code_simp

lemma demo_view_initial: "initial_graph (new_hdigraph demo_labels demo_edges) = Some demo_view"
  using demo_initial by (simp add: demo_graph_def)

text \<open>
  C6. The visible nodes partition the leaves. The initial view exists, and in every view
  reached from it by expanding visible inner nodes and collapsing nodes, each label is rolled
  up to exactly one visible node.
\<close>

theorem visible_nodes_partition:
  assumes "good_labels labels"
  shows "\<exists>vg. initial_graph (new_hdigraph labels edges) = Some vg
    \<and> (\<forall>vg'. view_step\<^sup>*\<^sup>* vg vg' \<longrightarrow> (\<forall>x \<in> labels. \<exists>!n. n \<in> visible_nodes vg' \<and> n \<in> roll_up_node x))"
proof -
  let ?g = "new_hdigraph labels edges"
  obtain cs where "find_non_trivial_children (depth_bound ?g) ?g [] = Some cs"
    using non_trivial_children_total [OF good_labels_wf [OF assms]] by blast
  then have i: "initial_graph ?g = Some (new_visible_graph ?g cs)" by (simp add: initial_graph_def)
  have "\<exists>!n. n \<in> visible_nodes vg' \<and> n \<in> roll_up_node x" if "view_step\<^sup>*\<^sup>* (new_visible_graph ?g cs) vg'" "x \<in> labels" for vg' x
  proof -
    have "x \<in> leaf_nodes ?g" "wf_label x" using that(2) assms by (simp_all add: new_hdigraph_def good_labels_def)
    then show ?thesis using reachable_view [OF assms i that(1)] roll_up_node_set by (simp add: view_ok_def)
  qed
  then show ?thesis using i by blast
qed

theorem visible_nodes_partition_witness: "\<exists>!n. n \<in> visible_nodes demo_view \<and> n \<in> roll_up_node ''a/c''"
proof -
  have "''a/c'' \<in> demo_labels" by (simp add: demo_labels_def)
  then show ?thesis using visible_nodes_partition [OF demo_good, of demo_edges] demo_view_initial by auto
qed

definition has_edge :: "edge_dict \<Rightarrow> string \<Rightarrow> string \<Rightarrow> bool" where
  "has_edge es a b \<longleftrightarrow> (\<exists>ds. map_of es a = Some ds \<and> b \<in> ds)"

lemma has_edge_add: "has_edge (add_edge s d es) a b \<longleftrightarrow> has_edge es a b \<or> a = s \<and> b = d"
  by (auto simp: has_edge_def add_edge_def split: option.splits)

lemma has_edge_fold: "has_edge (fold (add_edge s) ds es) a b \<longleftrightarrow> has_edge es a b \<or> a = s \<and> b \<in> set ds"
  by (induction ds arbitrary: es) (auto simp: has_edge_add)

lemma has_edge_fold2: "has_edge (fold (\<lambda>s. fold (add_edge s) ds) ss es) a b \<longleftrightarrow> has_edge es a b \<or> a \<in> set ss \<and> b \<in> set ds"
  by (induction ss arbitrary: es) (auto simp: has_edge_fold)

lemma finite_roll_up_node: "finite (roll_up_node x)"
proof -
  have "finite S \<Longrightarrow> finite (snd (fold roll_step ps (l, S)))" for ps l S
    by (induction ps arbitrary: l S) (auto simp: roll_step_def Let_def)
  then show ?thesis by (simp add: roll_up_node_def)
qed

lemma has_edge_rollups: "has_edge (add_all_rollups src dst es) a b \<longleftrightarrow> has_edge es a b \<or> a \<in> roll_up_node src \<and> b \<in> roll_up_node dst"
  by (simp add: add_all_rollups_def has_edge_fold2 finite_roll_up_node)

lemma has_edge_rollups_fold:
  "has_edge (fold (add_all_rollups src) ds es) a b \<longleftrightarrow> has_edge es a b \<or> (\<exists>dst \<in> set ds. a \<in> roll_up_node src \<and> b \<in> roll_up_node dst)"
  by (induction ds arbitrary: es) (auto simp: has_edge_rollups)

lemma roll_up_edges_iff:
  assumes "\<forall>(src, dsts) \<in> set edges. finite dsts"
  shows "has_edge (roll_up_edges edges) a b \<longleftrightarrow> (\<exists>src dsts dst. (src, dsts) \<in> set edges \<and> dst \<in> dsts \<and> a \<in> roll_up_node src \<and> b \<in> roll_up_node dst)"
proof -
  have "has_edge (fold (\<lambda>(src, dsts). fold (add_all_rollups src) (sorted_list_of_set dsts)) edges es) a b \<longleftrightarrow>
      has_edge es a b \<or> (\<exists>src dsts dst. (src, dsts) \<in> set edges \<and> dst \<in> dsts \<and> a \<in> roll_up_node src \<and> b \<in> roll_up_node dst)" for es
    using assms
  proof (induction edges arbitrary: es)
    case (Cons e edges)
    obtain s ds where e: "e = (s, ds)" "finite ds" using Cons.prems by (cases e) auto
    have "\<forall>(src, dsts) \<in> set edges. finite dsts" using Cons.prems by simp
    from Cons.IH [OF this, of "fold (add_all_rollups s) (sorted_list_of_set ds) es"]
    show ?case using e by (auto simp: has_edge_rollups_fold)
  qed simp
  from this [of "[]"] show ?thesis by (simp add: roll_up_edges_def has_edge_def)
qed

lemma map_of_restrict: "map_of (map (\<lambda>(s, ds). (s, ds \<inter> V)) (filter (\<lambda>(s, ds). s \<in> V) es)) a = (if a \<in> V then map_option (\<lambda>ds. ds \<inter> V) (map_of es a) else None)"
  by (induction es) auto

text \<open>
  C25. The visible edges are the roll-up of the edges of the graph, in every view reached from
  the initial one: there is an edge between two visible nodes exactly when some edge of the
  graph leads from a label that rolls up to the first to one that rolls up to the second.
\<close>

theorem visible_edges_rollup:
  assumes "good_labels labels" "initial_graph (new_hdigraph labels edges) = Some vg" "view_step\<^sup>*\<^sup>* vg vg'"
    and "\<forall>(src, dsts) \<in> set edges. finite dsts"
  shows "(\<exists>ds. map_of (visible_edges vg') a = Some ds \<and> b \<in> ds) \<longleftrightarrow>
    a \<in> visible_nodes vg' \<and> b \<in> visible_nodes vg'
    \<and> (\<exists>src dsts dst. (src, dsts) \<in> set edges \<and> dst \<in> dsts \<and> a \<in> roll_up_node src \<and> b \<in> roll_up_node dst)"
proof -
  let ?g = "new_hdigraph labels edges"
  have v: "vg' = new_visible_graph ?g (visible_nodes vg')" using reachable_view [OF assms(1-3)] by (simp add: view_ok_def)
  have "visible_edges vg' = map (\<lambda>(s, ds). (s, ds \<inter> visible_nodes vg')) (filter (\<lambda>(s, ds). s \<in> visible_nodes vg') (roll_up_edges edges))"
    by (subst v) (simp add: new_visible_graph_def new_hdigraph_def)
  then have "(\<exists>ds. map_of (visible_edges vg') a = Some ds \<and> b \<in> ds) \<longleftrightarrow>
      a \<in> visible_nodes vg' \<and> b \<in> visible_nodes vg' \<and> has_edge (roll_up_edges edges) a b"
    by (auto simp: map_of_restrict has_edge_def)
  then show ?thesis using roll_up_edges_iff [OF assms(4)] by simp
qed

theorem visible_edges_rollup_witness: "\<exists>ds. map_of (visible_edges demo_view) ''a'' = Some ds \<and> ''d'' \<in> ds"
proof -
  have "\<forall>(src, dsts) \<in> set demo_edges. finite dsts" by (simp add: demo_edges_def)
  note r = visible_edges_rollup [OF demo_good demo_view_initial rtranclp.rtrancl_refl this, of "''a''" "''d''"]
  have "''a'' \<in> visible_nodes demo_view" "''d'' \<in> visible_nodes demo_view" by (simp_all add: demo_view_def)
  moreover have "(''a/b'', {''a/c'', ''d''}) \<in> set demo_edges" by (simp add: demo_edges_def)
  moreover have "''a'' \<in> roll_up_node ''a/b''" "''d'' \<in> roll_up_node ''d''" by code_simp+
  ultimately show ?thesis unfolding r by blast
qed

text \<open>
  C26. Collapsing a node undoes expanding it, in every view reached from the initial one.
\<close>

theorem collapse_expand:
  assumes "good_labels labels" "initial_graph (new_hdigraph labels edges) = Some vg" "view_step\<^sup>*\<^sup>* vg vg'"
    and "n \<in> visible_nodes vg'"
  shows "\<exists>vg''. expand n vg' = Some vg'' \<and> collapse n vg'' = vg'"
proof -
  let ?g = "new_hdigraph labels edges"
  note wf = good_labels_wf [OF assms(1), of edges]
  have ok: "view_ok ?g vg'" by (rule reachable_view [OF assms(1-3)])
  then have v: "vg_digraph vg' = ?g" "vg' = new_visible_graph ?g (visible_nodes vg')" "visible_nodes vg' \<subseteq> all_rolled_up_nodes ?g"
    by (simp_all add: view_ok_def)
  obtain cs where cs: "find_non_trivial_children (depth_bound ?g) ?g n = Some cs" using non_trivial_children_total [OF wf] by blast
  have sub: "cs \<subseteq> find_descendants ?g n" using non_trivial_children_cut [OF wf cs] by (auto simp: find_descendants_below)
  have ne: "m \<noteq> []" if "m \<in> visible_nodes vg'" for m using that v(3) node_wf [OF wf] by (auto simp: wf_label_def)
  have "\<not> below n m" if m: "m \<in> visible_nodes vg'" for m
  proof
    assume b: "below n m"
    obtain x where x: "x \<in> leaf_nodes ?g" "rolls_to m x" using m v(3) nodes_iff [OF wf] by blast
    then have "rolls_to n x" using b ne [OF assms(4)] ne [OF m] below_trans [of n m x] unfolding rolls_to_def by blast
    moreover obtain w where "\<And>m. m \<in> visible_nodes vg' \<Longrightarrow> rolls_to m x \<Longrightarrow> m = w" by (rule shown_by [OF ok x(1)]) (rule that)
    ultimately have "n = m" using x(2) m assms(4) by blast
    then show False using b below_irrefl ne [OF m] by blast
  qed
  then have "visible_nodes vg' \<inter> find_descendants ?g n = {}" by (auto simp: find_descendants_below)
  then have "visible_nodes vg' - {n} \<union> cs - find_descendants ?g n \<union> {n} = visible_nodes vg'" using sub assms(4) by blast
  then have "collapse n (new_visible_graph ?g (visible_nodes vg' - {n} \<union> cs)) = vg'" using v(2) by (simp add: collapse_def)
  then show ?thesis using cs v(1) by (simp add: expand_def)
qed

theorem collapse_expand_witness: "\<exists>vg''. expand ''a'' demo_view = Some vg'' \<and> collapse ''a'' vg'' = demo_view"
proof -
  have "''a'' \<in> visible_nodes demo_view" by (simp add: demo_view_def)
  then show ?thesis by (rule collapse_expand [OF demo_good demo_view_initial rtranclp.rtrancl_refl])
qed

end
