(* ===== verification/List_Sort.thy ===== *)
theory List_Sort
  imports Packages "HOL-Library.Multiset"
begin

text \<open>
  Python's \<open>sorted\<close> with a comparison that may raise: the first run of the list is found, a
  descending one is reversed, and every further element is put in its place by a binary search.
  These are the comparisons of CPython for lists of fewer than 64 elements; a longer list is
  cut into several runs that are merged, and the model treats it as one. The order in which
  elements are compared matters only for the root package, where \<open>pv_lt\<close> can raise.
\<close>

section \<open>Operations\<close>

fun count_run ::
  "('a \<Rightarrow> 'a \<Rightarrow> py_error + bool) \<Rightarrow> bool \<Rightarrow> 'a \<Rightarrow> 'a list \<Rightarrow> py_error + ('a list \<times> 'a list)" where
  "count_run lt desc x [] = Inr ([], [])"
| "count_run lt desc x (y # ys) =
     rbind (lt y x) (\<lambda>b. if b = desc then rmap (\<lambda>(run, rest). (y # run, rest)) (count_run lt desc y ys)
                        else Inr ([], y # ys))"

fun first_run :: "('a \<Rightarrow> 'a \<Rightarrow> py_error + bool) \<Rightarrow> 'a list \<Rightarrow> py_error + ('a list \<times> 'a list)" where
  "first_run lt (x # y # ys) =
     rbind (lt y x) (\<lambda>desc. rmap (\<lambda>(run, rest). (if desc then rev (x # y # run) else x # y # run, rest))
       (count_run lt desc y ys))"
| "first_run lt xs = Inr (xs, [])"

function binary_position ::
  "('a \<Rightarrow> 'a \<Rightarrow> py_error + bool) \<Rightarrow> 'a \<Rightarrow> 'a list \<Rightarrow> nat \<Rightarrow> nat \<Rightarrow> py_error + nat" where
  "binary_position lt p xs l r =
     (if l < r
      then case lt p (xs ! (l + (r - l) div 2)) of
             Inl e \<Rightarrow> Inl e
           | Inr b \<Rightarrow> if b then binary_position lt p xs l (l + (r - l) div 2)
                     else binary_position lt p xs (Suc (l + (r - l) div 2)) r
      else Inr l)"
  by pat_completeness auto

termination by (relation "measure (\<lambda>(lt, p, xs, l, r). r - l)") auto

declare binary_position.simps [simp del]

definition insert_run :: "('a \<Rightarrow> 'a \<Rightarrow> py_error + bool) \<Rightarrow> 'a \<Rightarrow> 'a list \<Rightarrow> py_error + 'a list" where
  "insert_run lt p xs = rmap (\<lambda>l. take l xs @ p # drop l xs) (binary_position lt p xs 0 (length xs))"

definition list_sort :: "('a \<Rightarrow> 'a \<Rightarrow> py_error + bool) \<Rightarrow> 'a list \<Rightarrow> py_error + 'a list" where
  "list_sort lt xs = rbind (first_run lt xs) (\<lambda>(run, rest). rfold (insert_run lt) rest run)"

definition pv_sorted :: "'v::linorder package_version list \<Rightarrow> py_error + 'v package_version list" where
  "pv_sorted = list_sort pv_lt"

section \<open>Correctness where every comparison answers\<close>

lemma count_run_ok:
  assumes "sorted_wrt (\<lambda>x y. lt y x = Inr (y < x)) (x # xs)"
  shows "\<exists>run rest. count_run lt desc x xs = Inr (run, rest) \<and> xs = run @ rest
    \<and> sorted (if desc then rev (x # run) else x # run)"
  using assms
proof (induction xs arbitrary: x)
  case Nil
  then show ?case by simp
next
  case (Cons y ys)
  obtain run rest where r: "count_run lt desc y ys = Inr (run, rest)" "ys = run @ rest"
    "sorted (if desc then rev (y # run) else y # run)" using Cons.IH [of y] Cons.prems by auto
  have "lt y x = Inr (y < x)" using Cons.prems by simp
  with r show ?case
    by (cases "y < x"; cases desc) (auto simp: rbind_def rmap_def sorted_append)
qed

lemma first_run_ok:
  assumes "sorted_wrt (\<lambda>x y. lt y x = Inr (y < (x :: 'a::linorder))) xs"
  shows "\<exists>run rest. first_run lt xs = Inr (run, rest) \<and> sorted run \<and> mset xs = mset run + mset rest
    \<and> (\<forall>x \<in> set run. \<forall>y \<in> set rest. lt y x = Inr (y < x)) \<and> sorted_wrt (\<lambda>x y. lt y x = Inr (y < x)) rest"
proof (cases "(lt, xs)" rule: first_run.cases)
  case (1 lt' x y ys)
  then have lt: "lt' = lt" and xs: "xs = x # y # ys" by auto
  obtain run rest where r: "count_run lt (y < x) y ys = Inr (run, rest)" "ys = run @ rest"
    "sorted (if y < x then rev (y # run) else y # run)"
    using count_run_ok [of lt y ys "y < x"] assms xs by auto
  then show ?thesis using assms unfolding xs
    by (cases "y < x") (auto simp: rbind_def rmap_def sorted_append sorted_wrt_append)
qed (use assms in auto)

lemma sorted_take_le: "sorted xs \<Longrightarrow> m < length xs \<Longrightarrow> y \<in> set (take (Suc m) xs) \<Longrightarrow> y \<le> xs ! m"
  by (auto simp: in_set_conv_nth less_Suc_eq_le intro: sorted_nth_mono)

lemma sorted_drop_ge: "sorted xs \<Longrightarrow> m < length xs \<Longrightarrow> y \<in> set (drop m xs) \<Longrightarrow> xs ! m \<le> y"
  by (auto simp: in_set_conv_nth intro: sorted_nth_mono)

lemma binary_position_ok:
  fixes xs :: "'a::linorder list"
  assumes "\<forall>y \<in> set xs. lt p y = Inr (p < y)" "sorted xs"
    and "l \<le> r" "r \<le> length xs" "\<forall>y \<in> set (take l xs). y \<le> p" "\<forall>y \<in> set (drop r xs). p < y"
  shows "\<exists>k. binary_position lt p xs l r = Inr k
    \<and> (\<forall>y \<in> set (take k xs). y \<le> p) \<and> (\<forall>y \<in> set (drop k xs). p < y)"
  using assms(3-)
proof (induction "r - l" arbitrary: l r rule: less_induct)
  case less
  show ?case
  proof (cases "l < r")
    case False
    then show ?thesis using less.prems by (subst binary_position.simps) auto
  next
    case True
    let ?m = "l + (r - l) div 2"
    have m: "l \<le> ?m" "?m < r" using True by auto
    then have len: "?m < length xs" using less.prems by simp
    then have cmp: "lt p (xs ! ?m) = Inr (p < xs ! ?m)" using assms(1) by simp
    show ?thesis
    proof (cases "p < xs ! ?m")
      case True
      then have "\<forall>y \<in> set (drop ?m xs). p < y" using sorted_drop_ge [OF assms(2) len] by force
      then show ?thesis using less.hyps [of ?m l] less.prems m True cmp \<open>l < r\<close>
        by (subst binary_position.simps) (simp del: take_Suc)
    next
      case False
      then have "\<forall>y \<in> set (take (Suc ?m) xs). y \<le> p" using sorted_take_le [OF assms(2) len] by force
      then show ?thesis using less.hyps [of r "Suc ?m"] less.prems m False cmp \<open>l < r\<close>
        by (subst binary_position.simps) (simp del: take_Suc)
    qed
  qed
qed

lemma insert_run_ok:
  fixes xs :: "'a::linorder list"
  assumes "\<forall>y \<in> set xs. lt p y = Inr (p < y)" "sorted xs"
  shows "insert_run lt p xs = Inr (insort p xs)"
proof -
  obtain k where k: "binary_position lt p xs 0 (length xs) = Inr k"
    "\<forall>y \<in> set (take k xs). y \<le> p" "\<forall>y \<in> set (drop k xs). p < y"
    using binary_position_ok [of xs lt p 0 "length xs"] assms by auto
  let ?ys = "take k xs @ p # drop k xs"
  have "sorted (take k xs @ drop k xs)" using assms(2) by simp
  then have "sorted ?ys" using k(2,3) unfolding sorted_append by (auto simp: less_imp_le)
  moreover have "mset (take k xs) + mset (drop k xs) = mset xs" by (metis append_take_drop_id mset_append)
  then have "mset ?ys = mset (p # xs)" by simp
  ultimately have "sort (p # xs) = ?ys" by (intro properties_for_sort)
  then show ?thesis using k(1) assms(2) by (simp add: insert_run_def rmap_def sorted_sort_id)
qed

lemma insert_runs_ok:
  fixes xs :: "'a::linorder list"
  assumes "sorted run" "\<forall>x \<in> set run. \<forall>y \<in> set rest. lt y x = Inr (y < x)"
    "sorted_wrt (\<lambda>x y. lt y x = Inr (y < x)) rest"
  shows "\<exists>ys. rfold (insert_run lt) rest run = Inr ys \<and> sorted ys \<and> mset ys = mset run + mset (rest :: 'a list)"
  using assms
proof (induction rest arbitrary: run)
  case Nil
  then show ?case by simp
next
  case (Cons p rest)
  then have ins: "insert_run lt p run = Inr (insort p run)" by (intro insert_run_ok) auto
  have "\<exists>ys. rfold (insert_run lt) rest (insort p run) = Inr ys \<and> sorted ys
      \<and> mset ys = mset (insort p run) + mset rest"
    using Cons.prems by (intro Cons.IH) (auto simp: set_insort_key sorted_insort)
  then show ?case using ins by (auto simp: rbind_def)
qed

lemma list_sort_ok:
  assumes "sorted_wrt (\<lambda>x y. lt y x = Inr (y < (x :: 'a::linorder))) xs"
  shows "list_sort lt xs = Inr (sort xs)"
proof -
  obtain run rest where r: "first_run lt xs = Inr (run, rest)" "sorted run" "mset xs = mset run + mset rest"
    "\<forall>x \<in> set run. \<forall>y \<in> set rest. lt y x = Inr (y < x)" "sorted_wrt (\<lambda>x y. lt y x = Inr (y < x)) rest"
    using first_run_ok [OF assms] by auto
  obtain ys where "rfold (insert_run lt) rest run = Inr ys" "sorted ys" "mset ys = mset xs"
    using insert_runs_ok [OF r(2,4,5)] r(3) by auto
  then show ?thesis using r(1) by (simp add: list_sort_def rbind_def properties_for_sort)
qed

section \<open>Package versions\<close>

text \<open>A list in which the root stands last, if at all, is sorted, and the root comes first.\<close>

lemma pv_sorted_root_last:
  assumes "ROOT \<notin> set (butlast vs)"
  shows "pv_sorted vs = Inr (sort vs)"
proof -
  have "sorted_wrt (\<lambda>x y. pv_lt y x = Inr (y < x)) vs" using assms
    by (induction vs) (auto simp: pv_lt_less split: if_splits)
  then show ?thesis unfolding pv_sorted_def by (rule list_sort_ok)
qed

text \<open>A list that starts with the root is not: the second element is compared with it.\<close>

lemma pv_sorted_root_first: "pv_sorted (ROOT # PackageVersion n v # vs) = Inl TypeError"
  by (simp add: pv_sorted_def list_sort_def rbind_def)

end
