(* ===== verification/Maven_Version.thy ===== *)
theory Maven_Version
  imports Regex
begin

text \<open>
  Maven versions, \<open>packagerepo/maven/version/maven_semantic_version.py\<close>: the canonical parts
  of a version string and the comparison of versions. The substitutions with look-around are
  functions on neighbouring characters, since they insert text between two of them. Text is
  ASCII.
\<close>

section \<open>Parts\<close>

definition SPECIAL_CASE_STRINGS :: "(string, nat) dict" where
  "SPECIAL_CASE_STRINGS = [(''alpha'', 0), (''beta'', 1), (''milestone'', 2), (''rc'', 3), (''cr'', 3), (''snapshot'', 4),
     ([], 5), (''final'', 5), (''ga'', 5), (''sp'', 6)]"

definition NULL_VALUES :: "string list" where
  "NULL_VALUES = [''0'', [], ''final'', ''ga'']"

definition SEPARATORS :: "string list" where
  "SEPARATORS = [''-'', ''.'']"

record part =
  p_prefix :: string
  p_token :: string

definition isdigit :: "string \<Rightarrow> bool" where
  "isdigit s = (s \<noteq> [] \<and> (\<forall>c \<in> set s. is_digit c))"

definition is_alpha :: "string \<Rightarrow> bool" where
  "is_alpha s = (\<not> isdigit s)"

definition part_eq :: "part \<Rightarrow> part \<Rightarrow> bool" where
  "part_eq a b =
     (if p_prefix a \<noteq> p_prefix b then False
      else if isdigit (p_token a) \<and> isdigit (p_token b) then str_nat (p_token a) = str_nat (p_token b)
      else if is_alpha (p_token a) \<and> is_alpha (p_token b) then
        (case (map_of SPECIAL_CASE_STRINGS (p_token a), map_of SPECIAL_CASE_STRINGS (p_token b)) of
           (Some i, Some j) \<Rightarrow> i = j
         | _ \<Rightarrow> p_token a = p_token b)
      else False)"

definition alpha_less_than :: "part \<Rightarrow> part \<Rightarrow> bool" where
  "alpha_less_than a b =
     (if p_token a = p_token b then False
      else case (map_of SPECIAL_CASE_STRINGS (p_token a), map_of SPECIAL_CASE_STRINGS (p_token b)) of
             (Some i, Some j) \<Rightarrow> i < j
           | (Some i, None) \<Rightarrow> True
           | (None, Some j) \<Rightarrow> False
           | (None, None) \<Rightarrow> p_token a < p_token b)"

definition part_lt :: "part \<Rightarrow> part \<Rightarrow> py_error + bool" where
  "part_lt a b =
     (if is_alpha (p_token a) \<and> isdigit (p_token b) then Inr True
      else if isdigit (p_token a) \<and> is_alpha (p_token b) then Inr False
      else if isdigit (p_token a) \<and> isdigit (p_token b) then
        Inr (if p_prefix a = p_prefix b then str_nat (p_token a) < str_nat (p_token b) else p_prefix a < p_prefix b)
      else if is_alpha (p_token a) \<and> is_alpha (p_token b) then
        Inr (if p_prefix a = p_prefix b then alpha_less_than a b else p_prefix b < p_prefix a)
      else Inl TypeError)"

section \<open>Canonical parts\<close>

text \<open>
  A letter between a non-letter and a digit stands for a qualifier. A match consumes both
  neighbours, so a digit it has consumed is not the left neighbour of the next match.
\<close>

fun expand_letter :: "char \<Rightarrow> string \<Rightarrow> bool \<Rightarrow> string \<Rightarrow> string" where
  "expand_letter l w start (x # y # z # s) =
     (if start \<and> x = l \<and> is_digit y then w @ y # expand_letter l w False (z # s)
      else if \<not> is_letter x \<and> y = l \<and> is_digit z then x # w @ z # expand_letter l w False s
      else x # expand_letter l w False (y # z # s))"
| "expand_letter l w start [x, y] = (if start \<and> x = l \<and> is_digit y then w @ [y] else [x, y])"
| "expand_letter l w start s = s"

fun insert_between :: "(char \<Rightarrow> char \<Rightarrow> bool) \<Rightarrow> char \<Rightarrow> string \<Rightarrow> string" where
  "insert_between P c (x # y # s) = (if P x y then x # c # insert_between P c (y # s) else x # insert_between P c (y # s))"
| "insert_between P c s = s"

text \<open>\<open>re.split\<close> on runs of non-word characters, which the result includes.\<close>

fun split_nonword :: "string \<Rightarrow> string list" where
  "split_nonword [] = [[]]"
| "split_nonword (x # s) =
     (if is_word x then (case split_nonword s of p # ps \<Rightarrow> (x # p) # ps | [] \<Rightarrow> [[x]])
      else case s of
             [] \<Rightarrow> [[], [x], []]
           | y # _ \<Rightarrow> if is_word y then [] # [x] # split_nonword s
                      else (case split_nonword s of e # q # ps \<Rightarrow> e # (x # q) # ps | ps \<Rightarrow> ps))"

fun strip_nulls :: "string list \<Rightarrow> py_error + string list" where
  "strip_nulls [] = Inl IndexError"
| "strip_nulls (p # ps) = (if p \<in> set NULL_VALUES \<or> p \<in> set SEPARATORS then strip_nulls ps else Inr (p # ps))"

lemma rbind_cong [fundef_cong]: "m = m' \<Longrightarrow> (\<And>x. m' = Inr x \<Longrightarrow> f x = f' x) \<Longrightarrow> rbind m f = rbind m' f'"
  by (cases m') simp_all

lemma strip_nulls_length: "strip_nulls ps = Inr qs \<Longrightarrow> length qs \<le> length ps"
  by (induction ps) (auto split: if_splits)

text \<open>
  \<open>trim_trailing\<close> on the reversed list of parts: the last part is the first one here, and
  what follows the last hyphen is what precedes the first one here.
\<close>

function trim_rev :: "string list \<Rightarrow> py_error + string list" where
  "trim_rev ps = rbind (strip_nulls ps) (\<lambda>qs.
     case dropWhile (\<lambda>p. p \<noteq> ''-'') qs of
       [] \<Rightarrow> Inr qs
     | h # rest \<Rightarrow> rmap (\<lambda>trimmed. takeWhile (\<lambda>p. p \<noteq> ''-'') qs @ h # trimmed) (trim_rev rest))"
  by pat_completeness auto

termination
proof (relation "measure length", goal_cases)
  case (2 ps qs h rest)
  have "length (h # rest) \<le> length qs" unfolding 2(2) [symmetric] by (rule length_dropWhile_le)
  then show ?case using strip_nulls_length [OF 2(1)] by simp
qed simp

definition trim_trailing :: "string list \<Rightarrow> py_error + string list" where
  "trim_trailing parts = rmap rev (trim_rev (rev parts))"

fun part_pairs :: "string list \<Rightarrow> part list" where
  "part_pairs (p # t # ps) = \<lparr>p_prefix = p, p_token = t\<rparr> # part_pairs ps"
| "part_pairs _ = []"

definition split_version_string_parts :: "string \<Rightarrow> py_error + part list" where
  "split_version_string_parts version =
     (let v1 = expand_letter CHR ''a'' ''alpha'' True version;
          v2 = expand_letter CHR ''b'' ''beta'' True v1;
          v3 = expand_letter CHR ''m'' ''milestone'' True v2;
          v4 = insert_between (\<lambda>x y. is_digit x \<and> is_letter y \<or> is_letter x \<and> is_digit y) CHR ''-'' v3;
          v5 = insert_between (\<lambda>x y. \<not> is_word x \<and> \<not> is_word y) CHR ''0'' v4
      in rmap (\<lambda>parts. part_pairs ([] # parts)) (trim_trailing (split_nonword v5)))"

definition version_string_from_parts :: "part list \<Rightarrow> string" where
  "version_string_from_parts parts = concat (map (\<lambda>p. p_prefix p @ p_token p) parts)"

definition canonicalize_version_string :: "string \<Rightarrow> py_error + string" where
  "canonicalize_version_string version = rmap version_string_from_parts (split_version_string_parts version)"

section \<open>Versions\<close>

definition pad_value_for_part :: "part \<Rightarrow> part" where
  "pad_value_for_part p = (if p_prefix p = ''.'' then \<lparr>p_prefix = ''.'', p_token = ''0''\<rparr> else \<lparr>p_prefix = ''-'', p_token = []\<rparr>)"

definition pad_shorter :: "part list \<Rightarrow> part list \<Rightarrow> part list" where
  "pad_shorter shorter longer = shorter @ map pad_value_for_part (drop (length shorter) longer)"

definition pad_shorter_version :: "part list \<Rightarrow> part list \<Rightarrow> part list \<times> part list" where
  "pad_shorter_version xs ys =
     (if length xs < length ys then (pad_shorter xs ys, ys)
      else if length xs > length ys then (xs, pad_shorter ys xs)
      else (xs, ys))"

record maven_semver =
  mv_version :: string
  mv_parts :: "part list"

definition new_maven_semver :: "string \<Rightarrow> py_error + maven_semver" where
  "new_maven_semver version = rmap (\<lambda>parts. \<lparr>mv_version = version, mv_parts = parts\<rparr>) (split_version_string_parts version)"

definition maven_eq :: "maven_semver \<Rightarrow> maven_semver \<Rightarrow> bool" where
  "maven_eq a b = (case pad_shorter_version (mv_parts a) (mv_parts b) of (xs, ys) \<Rightarrow> \<forall>(x, y) \<in> set (zip xs ys). part_eq x y)"

fun parts_lt :: "(part \<times> part) list \<Rightarrow> py_error + bool" where
  "parts_lt [] = Inr False"
| "parts_lt ((x, y) # ps) = (if part_eq x y then parts_lt ps else part_lt x y)"

definition maven_lt :: "maven_semver \<Rightarrow> maven_semver \<Rightarrow> py_error + bool" where
  "maven_lt a b = (case pad_shorter_version (mv_parts a) (mv_parts b) of (xs, ys) \<Rightarrow> parts_lt (zip xs ys))"

text \<open>\<open>>\<close> as \<open>total_ordering\<close> derives it.\<close>

definition maven_gt :: "maven_semver \<Rightarrow> maven_semver \<Rightarrow> py_error + bool" where
  "maven_gt a b = rmap (\<lambda>lt. \<not> lt \<and> \<not> maven_eq a b) (maven_lt a b)"

section \<open>Comparison\<close>

text \<open>Two parts compare in exactly one of three ways.\<close>

definition one_of :: "bool \<Rightarrow> bool \<Rightarrow> bool \<Rightarrow> bool" where
  "one_of p q r \<longleftrightarrow> (p \<and> \<not> q \<and> \<not> r) \<or> (\<not> p \<and> q \<and> \<not> r) \<or> (\<not> p \<and> \<not> q \<and> r)"

lemma alpha_trichotomy:
  assumes "p_prefix a = p_prefix b" "is_alpha (p_token a)" "is_alpha (p_token b)"
  shows "one_of (alpha_less_than a b) (part_eq a b) (alpha_less_than b a)"
proof -
  have nd: "\<not> isdigit (p_token a)" "\<not> isdigit (p_token b)" using assms by (simp_all add: is_alpha_def)
  show ?thesis
    using assms(1) nd
    by (cases "map_of SPECIAL_CASE_STRINGS (p_token a)"; cases "map_of SPECIAL_CASE_STRINGS (p_token b)")
      (auto simp: one_of_def part_eq_def alpha_less_than_def is_alpha_def split: if_splits)
qed

lemma part_trichotomy:
  "\<exists>x y. part_lt a b = Inr x \<and> part_lt b a = Inr y \<and> one_of x (part_eq a b) y"
proof (cases "isdigit (p_token a) = isdigit (p_token b) \<and> is_alpha (p_token a) \<and> p_prefix a = p_prefix b")
  case True
  then have "is_alpha (p_token b)" unfolding is_alpha_def by blast
  with True alpha_trichotomy [of a b] show ?thesis by (simp add: part_lt_def is_alpha_def)
next
  case False
  then show ?thesis
    by (cases "isdigit (p_token a)"; cases "isdigit (p_token b)"; cases "p_prefix a = p_prefix b")
      (auto simp: part_lt_def part_eq_def is_alpha_def one_of_def)
qed

lemma part_eq_sym: "part_eq a b = part_eq b a"
  by (auto simp: part_eq_def split: option.splits)

lemma parts_trichotomy:
  "length xs = length ys \<Longrightarrow>
   \<exists>x y. parts_lt (zip xs ys) = Inr x \<and> parts_lt (zip ys xs) = Inr y \<and> one_of x (\<forall>(x, y) \<in> set (zip xs ys). part_eq x y) y"
proof (induction xs ys rule: list_induct2)
  case Nil
  show ?case by (intro exI [of _ False]) (simp add: one_of_def)
next
  case (Cons x xs y ys)
  show ?case
  proof (cases "part_eq x y")
    case True
    then show ?thesis using Cons part_eq_sym [of x y] by simp
  next
    case False
    obtain u v where "part_lt x y = Inr u" "part_lt y x = Inr v" "one_of u (part_eq x y) v" using part_trichotomy [of x y] by blast
    then show ?thesis using False part_eq_sym [of x y] by (simp add: one_of_def)
  qed
qed

lemma pad_swap: "pad_shorter_version ys xs = prod.swap (pad_shorter_version xs ys)"
  by (simp add: pad_shorter_version_def)

lemma pad_length: "pad_shorter_version xs ys = (us, vs) \<Longrightarrow> length us = length vs"
  by (auto simp: pad_shorter_version_def pad_shorter_def split: if_splits)

lemma maven_compare: "\<exists>lt gt. maven_lt a b = Inr lt \<and> maven_lt b a = Inr gt \<and> one_of lt (maven_eq a b) gt"
proof -
  obtain us vs where p: "pad_shorter_version (mv_parts a) (mv_parts b) = (us, vs)" by (cases "pad_shorter_version (mv_parts a) (mv_parts b)")
  then have q: "pad_shorter_version (mv_parts b) (mv_parts a) = (vs, us)" using pad_swap [of "mv_parts b" "mv_parts a"] by simp
  have "maven_eq a b \<longleftrightarrow> (\<forall>(x, y) \<in> set (zip us vs). part_eq x y)" "maven_lt a b = parts_lt (zip us vs)" "maven_lt b a = parts_lt (zip vs us)"
    using p q by (simp_all add: maven_eq_def maven_lt_def)
  then show ?thesis using parts_trichotomy [OF pad_length [OF p]] by simp
qed

text \<open>
  C31. Comparing two versions never raises, and exactly one of less, equal and greater holds
  of them, whichever of the two is asked.
\<close>

theorem maven_trichotomy:
  "\<exists>lt gt. maven_lt a b = Inr lt \<and> maven_lt b a = Inr gt \<and> maven_gt a b = Inr gt
    \<and> ((lt \<and> \<not> maven_eq a b \<and> \<not> gt) \<or> (\<not> lt \<and> maven_eq a b \<and> \<not> gt) \<or> (\<not> lt \<and> \<not> maven_eq a b \<and> gt))"
proof -
  obtain lt gt where c: "maven_lt a b = Inr lt" "maven_lt b a = Inr gt" "one_of lt (maven_eq a b) gt" using maven_compare by blast
  then have "maven_gt a b = Inr gt" by (auto simp: maven_gt_def one_of_def)
  then show ?thesis using c unfolding one_of_def by blast
qed



text \<open>
  A version whose leading part is null cannot be read: trimming removes the last part and
  then looks for another.
\<close>

theorem maven_zero_raises: "new_maven_semver ''0'' = Inl IndexError \<and> new_maven_semver ''0-SNAPSHOT'' = Inl IndexError"
  by code_simp

end
