(* ===== verification/Maven_Spec.thy ===== *)
theory Maven_Spec
  imports Maven_Version
begin

text \<open>
  Version requirements, \<open>packagerepo/maven/version/maven_semantic_version_spec.py\<close>: parsing of
  a requirement into ranges, hard and soft requirements, the versions it accepts and the one
  it prefers.
\<close>

section \<open>Ranges\<close>







section \<open>Requirements\<close>



text \<open>
  \<open>re.finditer\<close> for an expression that does not match the empty string. Each turn uses up a
  character, so the length of the text is enough fuel.
\<close>

fun rx_finditer :: "nat \<Rightarrow> regex \<Rightarrow> string \<Rightarrow> groups list" where
  "rx_finditer (Suc n) r (c # s) =
     (case rx_match r (c # s) of
        Some (g, t) \<Rightarrow> if length t \<le> length s then g # rx_finditer n r t else rx_finditer n r s
      | None \<Rightarrow> rx_finditer n r s)"
| "rx_finditer _ r s = []"

lemma finditer_fuel: "length s \<le> n \<Longrightarrow> rx_finditer n r s = rx_finditer (length s) r s"
proof (induction n arbitrary: s rule: less_induct)
  case (less n)
  show ?case
  proof (cases s)
    case (Cons c u)
    then obtain m where n: "n = Suc m" using less.prems by (cases n) auto
    have "rx_finditer m r t = rx_finditer (length u) r t" if "length t \<le> length u" for t
      using less.IH [of m t] less.IH [of "length u" t] that less.prems Cons n by fastforce
    then show ?thesis using Cons n by (auto split: option.splits)
  qed simp
qed










section \<open>Preference\<close>












end
