(* ===== verification/Module_Map.thy ===== *)
theory Module_Map
  imports Distribution_Key Leveldb_Builder
begin

text \<open>
  The table from modules to the distributions that provide them, \<open>lang/python/modules\<close>: the
  builder collects the modules of a batch in memory, on top of what earlier batches wrote, and
  writes them when the batch is flushed. The theorem says that nothing is lost at the borders of
  batches. Bytes are characters, and text is ASCII.
\<close>

section \<open>The builder\<close>

abbreviation nul :: char where
  "nul \<equiv> CHR 0x00"

type_synonym package_versions = "(string, string set) dict"

record 'db module_builder = "'db builder" +
  bd_module_map :: "(string, package_versions) dict"

text \<open>One entry per package, each a name and its versions.\<close>

definition split_entry :: "string \<Rightarrow> string \<times> string list" where
  "split_entry version_bytes = (let version_strs = split_on tab version_bytes in (hd version_strs, tl version_strs))"

definition split_value :: "string \<Rightarrow> (string \<times> string list) list" where
  "split_value value = map split_entry (split_on nul value)"

definition stored_versions :: "'db lookup \<Rightarrow> 'db \<Rightarrow> string \<Rightarrow> package_versions" where
  "stored_versions get db module =
     (case get db module of
        None \<Rightarrow> []
      | Some value \<Rightarrow> if value = [] then [] else fold (\<lambda>(p, vs). AList.update p (set vs)) (split_value value) [])"

definition get_initialized_data ::
  "'db lookup \<Rightarrow> string \<Rightarrow> 'db module_builder \<Rightarrow> py_error + (package_versions \<times> 'db module_builder)" where
  "get_initialized_data get module b =
     (let d = (case map_of (bd_module_map b) module of None \<Rightarrow> [] | Some d \<Rightarrow> d)
      in rmap (\<lambda>d. (d, b\<lparr>bd_module_map := AList.update module d (bd_module_map b)\<rparr>))
           (if d \<noteq> [] then Inr d
            else (case bd_db b of None \<Rightarrow> Inl AttributeError | Some db \<Rightarrow> Inr (stored_versions get db module))))"

definition version_str :: "string \<times> string set \<Rightarrow> string" where
  "version_str = (\<lambda>(package_name, versions). package_name @ [tab] @ str_join [tab] (sorted_list_of_set versions))"

definition module_value :: "package_versions \<Rightarrow> string" where
  "module_value d = str_join [nul] (map version_str (sort_key fst d))"

definition module_flush :: "'db batch_write \<Rightarrow> 'db module_builder \<Rightarrow> py_error + 'db module_builder" where
  "module_flush write b =
     rbind (rfold (\<lambda>(module, d). builder_put module (module_value d)) (bd_module_map b) b)
       (\<lambda>b1. builder_flush write (b1\<lparr>bd_module_map := []\<rparr>))"

definition add_module ::
  "'db lookup \<Rightarrow> 'db batch_write \<Rightarrow> distribution_key \<Rightarrow> string \<Rightarrow> 'db module_builder \<Rightarrow> py_error + 'db module_builder" where
  "add_module get write key module b =
     rbind (get_initialized_data get module b)
       (\<lambda>(d, b1).
          let versions = (case map_of d (dk_package_name key) of None \<Rightarrow> {} | Some vs \<Rightarrow> vs);
              d1 = AList.update (dk_package_name key) (insert (dk_version key) versions) d
          in item_handled (module_flush write) (b1\<lparr>bd_module_map := AList.update module d1 (bd_module_map b1)\<rparr>))"

definition process_modules ::
  "'db lookup \<Rightarrow> 'db batch_write \<Rightarrow> distribution_key \<times> string list \<Rightarrow> 'db module_builder \<Rightarrow> py_error + 'db module_builder" where
  "process_modules get write = (\<lambda>(key, modules). rfold (add_module get write key) modules)"

definition new_module_builder :: "nat \<Rightarrow> 'db module_builder" where
  "new_module_builder n = builder.extend (new_builder n) \<lparr>bd_module_map = []\<rparr>"

section \<open>The reader\<close>

definition get_distributions_for_module :: "'db lookup \<Rightarrow> 'db \<Rightarrow> string \<Rightarrow> (string \<times> string) list" where
  "get_distributions_for_module get db module =
     (case get db module of
        None \<Rightarrow> []
      | Some value \<Rightarrow>
          if value = [] then []
          else concat (map (\<lambda>(p, versions). map (\<lambda>v. (canonical_project_name p, v)) versions) (split_value value)))"

definition get_distributions_for_modules :: "'db lookup \<Rightarrow> 'db \<Rightarrow> string list \<Rightarrow> (string, (string \<times> string) list) dict" where
  "get_distributions_for_modules get db modules =
     fold (\<lambda>module d. AList.update module (get_distributions_for_module get db module) d) modules []"

section \<open>Reading what was written\<close>

definition plain_text :: "string \<Rightarrow> bool" where
  "plain_text s \<longleftrightarrow> tab \<notin> set s \<and> nul \<notin> set s"

definition good_entry :: "package_versions \<Rightarrow> bool" where
  "good_entry d \<longleftrightarrow> is_dict d \<and> d \<noteq> []
     \<and> (\<forall>(p, vs) \<in> set d. plain_text p \<and> finite vs \<and> vs \<noteq> {} \<and> (\<forall>v \<in> vs. plain_text v))"

definition entry_pairs :: "package_versions \<Rightarrow> (string \<times> string) set" where
  "entry_pairs d = {(p, v). \<exists>vs. map_of d p = Some vs \<and> v \<in> vs}"

lemma set_str_join: "set (str_join [c] xs) \<subseteq> insert c (\<Union>(set ` set xs))"
  by (induction "[c]" xs rule: str_join.induct) auto

lemma split_version_str:
  assumes "plain_text p" "finite vs" "vs \<noteq> {}" "\<forall>v \<in> vs. plain_text v"
  shows "split_entry (version_str (p, vs)) = (p, sorted_list_of_set vs)" "nul \<notin> set (version_str (p, vs))"
proof -
  have ne: "sorted_list_of_set vs \<noteq> []" using assms(2,3) by simp
  have "split_on tab (p @ tab # str_join [tab] (sorted_list_of_set vs)) = p # split_on tab (str_join [tab] (sorted_list_of_set vs))"
    by (rule split_on_append) (use assms(1) in \<open>simp add: plain_text_def\<close>)
  also have "split_on tab (str_join [tab] (sorted_list_of_set vs)) = sorted_list_of_set vs"
    by (rule split_on_join) (use assms(2,4) ne in \<open>auto simp: plain_text_def\<close>)
  finally show "split_entry (version_str (p, vs)) = (p, sorted_list_of_set vs)" by (simp add: split_entry_def version_str_def)
  have "nul \<notin> set (str_join [tab] (sorted_list_of_set vs))"
    using set_str_join [of tab "sorted_list_of_set vs"] assms(2,4) by (auto simp: plain_text_def)
  then show "nul \<notin> set (version_str (p, vs))" using assms(1) by (simp add: version_str_def plain_text_def)
qed

lemma split_module_value:
  assumes "good_entry d"
  shows "split_value (module_value d) = map (\<lambda>(p, vs). (p, sorted_list_of_set vs)) (sort_key fst d)" "module_value d \<noteq> []"
proof -
  have e: "plain_text p \<and> finite vs \<and> vs \<noteq> {} \<and> (\<forall>v \<in> vs. plain_text v)" if "(p, vs) \<in> set (sort_key fst d)" for p vs
    using that assms by (auto simp: good_entry_def)
  have "split_on nul (module_value d) = map version_str (sort_key fst d)"
    unfolding module_value_def
  proof (rule split_on_join)
    show "map version_str (sort_key fst d) \<noteq> []" using assms by (simp add: good_entry_def)
    show "\<forall>x \<in> set (map version_str (sort_key fst d)). nul \<notin> set x" using split_version_str(2) e by fastforce
  qed
  then show s: "split_value (module_value d) = map (\<lambda>(p, vs). (p, sorted_list_of_set vs)) (sort_key fst d)"
    using split_version_str(1) e by (auto simp: split_value_def)
  show "module_value d \<noteq> []"
  proof
    assume "module_value d = []"
    then have "split_value (module_value d) = [([], [])]" by (simp add: split_value_def split_entry_def)
    with s have "map (\<lambda>(p, vs). (p, sorted_list_of_set vs)) (sort_key fst d) = [([], [])]" by simp
    then obtain vs where v: "sort_key fst d = [([], vs)]" "sorted_list_of_set vs = []" by (auto simp: map_eq_Cons_conv)
    have "([], vs) \<in> set (sort_key fst d)" unfolding v(1) by simp
    from e [OF this] v(2) show False by auto
  qed
qed

lemma map_of_fold_update:
  "map_of (fold (\<lambda>(p, vs). AList.update p (f vs)) xs d) k = (case map_of (rev xs) k of None \<Rightarrow> map_of d k | Some vs \<Rightarrow> Some (f vs))"
  by (induction xs arbitrary: d rule: rev_induct) (auto split: option.splits if_splits)

lemma is_dict_fold_update: "is_dict d \<Longrightarrow> is_dict (fold (\<lambda>(p, vs). AList.update p (f vs)) xs d)"
  by (induction xs arbitrary: d) auto

text \<open>What a table holds for a module: packages and versions.\<close>

definition stored_pairs :: "'db lookup \<Rightarrow> 'db \<Rightarrow> string \<Rightarrow> (string \<times> string) set" where
  "stored_pairs get db module = entry_pairs (stored_versions get db module)"

definition table_ok :: "'db lookup \<Rightarrow> 'db \<Rightarrow> bool" where
  "table_ok get db \<longleftrightarrow> (\<forall>m v. get db m = Some v \<longrightarrow> (\<exists>d. good_entry d \<and> v = module_value d))"

lemma stored_versions_value:
  assumes "get db m = Some (module_value d)" "good_entry d"
  shows "map_of (stored_versions get db m) = map_of d" "is_dict (stored_versions get db m)"
proof -
  let ?xs = "map (\<lambda>(p, vs). (p, sorted_list_of_set vs)) (sort_key fst d)"
  have s: "stored_versions get db m = fold (\<lambda>(p, vs). AList.update p (set vs)) ?xs []"
    using assms(1) split_module_value [OF assms(2)] by (simp add: stored_versions_def)
  have keys: "distinct (map fst (rev (sort_key fst d)))"
    using assms(2) distinct_map_sort_filter [of fst d fst "\<lambda>_. True"] by (simp add: good_entry_def rev_map flip: rev_map)
  have fin: "(p, vs) \<in> set d \<Longrightarrow> finite vs" for p vs using assms(2) by (auto simp: good_entry_def)
  have "map_of (rev ?xs) p = map_option sorted_list_of_set (map_of d p)" for p
  proof -
    have "map_of (rev (sort_key fst d)) p = map_of d p"
      using map_of_inject_set [of "rev (sort_key fst d)" d] keys assms(2) by (simp add: good_entry_def)
    then show ?thesis by (simp add: rev_map map_of_map)
  qed
  then show "map_of (stored_versions get db m) = map_of d"
    unfolding s map_of_fold_update using fin map_of_SomeD by (fastforce simp: fun_eq_iff split: option.splits)
  show "is_dict (stored_versions get db m)" unfolding s by (rule is_dict_fold_update) simp
qed

lemma stored_good:
  assumes "table_ok get db"
  shows "stored_versions get db m = [] \<or> good_entry (stored_versions get db m)"
proof (cases "get db m")
  case None
  then show ?thesis by (simp add: stored_versions_def)
next
  case (Some v)
  then obtain d where d: "good_entry d" "v = module_value d" using assms by (auto simp: table_ok_def)
  note s = stored_versions_value [of get db m d, OF _ d(1)]
  have "set (stored_versions get db m) = set d"
    using s map_of_inject_set [of "stored_versions get db m" d] d Some by (simp add: good_entry_def)
  then show ?thesis using d(1) s(2) Some d(2) by (auto simp: good_entry_def)
qed

lemma entry_pairs_set: "is_dict d \<Longrightarrow> entry_pairs d = {(p, v). \<exists>vs. (p, vs) \<in> set d \<and> v \<in> vs}"
  by (simp add: entry_pairs_def map_of_eq_Some_iff)

lemma read_module:
  assumes "table_ok get db"
  shows "set (get_distributions_for_module get db m) = (\<lambda>(p, v). (canonical_project_name p, v)) ` stored_pairs get db m"
proof (cases "get db m")
  case None
  then show ?thesis by (simp add: get_distributions_for_module_def stored_pairs_def stored_versions_def entry_pairs_def)
next
  case (Some v)
  then obtain d where d: "good_entry d" "v = module_value d" using assms by (auto simp: table_ok_def)
  have map: "map_of (stored_versions get db m) = map_of d" by (rule stored_versions_value(1)) (use Some d in simp_all)
  have "stored_pairs get db m = entry_pairs d" unfolding stored_pairs_def entry_pairs_def map ..
  also have "\<dots> = {(p, v). \<exists>vs. (p, vs) \<in> set d \<and> v \<in> vs}" by (rule entry_pairs_set) (use d(1) in \<open>simp add: good_entry_def\<close>)
  finally have stored: "stored_pairs get db m = {(p, v). \<exists>vs. (p, vs) \<in> set d \<and> v \<in> vs}" .
  have sorted: "set (sorted_list_of_set vs) = vs" if "(p, vs) \<in> set d" for p vs
    by (rule set_sorted_list_of_set) (use that d(1) in \<open>auto simp: good_entry_def\<close>)
  have "get_distributions_for_module get db m =
      concat (map (\<lambda>(p, vs). map (\<lambda>v. (canonical_project_name p, v)) (sorted_list_of_set vs)) (sort_key fst d))"
    using Some d(2) split_module_value [OF d(1)] by (simp add: get_distributions_for_module_def split_beta' comp_def)
  then have "set (get_distributions_for_module get db m) = (\<Union>(p, vs) \<in> set d. Pair (canonical_project_name p) ` set (sorted_list_of_set vs))"
    by (simp add: split_beta')
  also have "\<dots> = (\<Union>(p, vs) \<in> set d. Pair (canonical_project_name p) ` vs)" using sorted by (intro SUP_cong) auto
  also have "\<dots> = (\<lambda>(p, v). (canonical_project_name p, v)) ` {(p, v). \<exists>vs. (p, vs) \<in> set d \<and> v \<in> vs}" by force
  finally show ?thesis unfolding stored .
qed

section \<open>Batches lose nothing\<close>

text \<open>What a builder knows of a module: its entry in memory, or else what is stored.\<close>

definition known_pairs :: "'db lookup \<Rightarrow> 'db module_builder \<Rightarrow> string \<Rightarrow> (string \<times> string) set" where
  "known_pairs get b m =
     (case map_of (bd_module_map b) m of
        Some d \<Rightarrow> entry_pairs d
      | None \<Rightarrow> (case bd_db b of None \<Rightarrow> {} | Some db \<Rightarrow> stored_pairs get db m))"

definition module_builder_ok :: "'db lookup \<Rightarrow> 'db module_builder \<Rightarrow> bool" where
  "module_builder_ok get b \<longleftrightarrow> (\<exists>db. bd_db b = Some db \<and> table_ok get db) \<and> bd_write_batch b = Some [] \<and> 0 < bd_write_batch_size b
     \<and> is_dict (bd_module_map b) \<and> (\<forall>m d. map_of (bd_module_map b) m = Some d \<longrightarrow> good_entry d)"

lemma put_modules:
  "bd_write_batch b = Some batch \<Longrightarrow>
   rfold (\<lambda>(m, d). builder_put m (module_value d)) ms b = Inr (b\<lparr>bd_write_batch := Some (batch @ map (\<lambda>(m, d). (m, module_value d)) ms)\<rparr>)"
  by (induction ms arbitrary: b batch) (auto simp: builder_put_def)

lemma module_flush_ok:
  assumes "leveldb_gets write get fresh" "module_builder_ok get b"
  shows "\<exists>b'. module_flush write b = Inr b' \<and> module_builder_ok get b' \<and> bd_module_map b' = [] \<and> known_pairs get b' = known_pairs get b"
proof -
  obtain db where db: "bd_db b = Some db" "table_ok get db" using assms(2) by (auto simp: module_builder_ok_def)
  let ?batch = "map (\<lambda>(m, d). (m, module_value d)) (bd_module_map b)"
  let ?db = "write ?batch db"
  let ?b' = "b\<lparr>bd_write_batch := Some [], bd_module_map := [], bd_db := Some ?db\<rparr>"
  have f: "module_flush write b = Inr ?b'"
    using put_modules [of b "[]" "bd_module_map b"] assms(2) db(1) by (simp add: module_flush_def builder_flush_def module_builder_ok_def)
  have "distinct (map fst (rev (bd_module_map b)))" using assms(2) by (simp add: module_builder_ok_def rev_map flip: rev_map)
  then have "map_of (rev (bd_module_map b)) m = map_of (bd_module_map b) m" for m
    using map_of_inject_set [of "rev (bd_module_map b)" "bd_module_map b"] assms(2) by (simp add: module_builder_ok_def)
  then have g: "get ?db m = (case map_of (bd_module_map b) m of None \<Rightarrow> get db m | Some d \<Rightarrow> Some (module_value d))" for m
    using assms(1) by (simp add: leveldb_gets_def rev_map map_of_map split: option.splits)
  have good: "map_of (bd_module_map b) m = Some d \<Longrightarrow> good_entry d" for m d using assms(2) by (simp add: module_builder_ok_def)
  have "\<exists>d. good_entry d \<and> v = module_value d" if v: "get ?db m = Some v" for m v
    using v good [of m] db(2) unfolding g table_ok_def by (cases "map_of (bd_module_map b) m") auto
  then have "table_ok get ?db" by (simp add: table_ok_def)
  then have ok: "module_builder_ok get ?b'" using assms(2) by (simp add: module_builder_ok_def)
  have "known_pairs get ?b' m = known_pairs get b m" for m
  proof (cases "map_of (bd_module_map b) m")
    case None
    then show ?thesis using g [of m] db(1) by (simp add: known_pairs_def stored_pairs_def stored_versions_def)
  next
    case (Some d)
    then have "map_of (stored_versions get ?db m) = map_of d" using stored_versions_value(1) [of get ?db m d] g good by simp
    then show ?thesis using Some by (simp add: known_pairs_def stored_pairs_def entry_pairs_def)
  qed
  then show ?thesis using f ok by (auto simp: fun_eq_iff)
qed

lemma add_version_good:
  assumes "d = [] \<or> good_entry d" "plain_text p" "plain_text v"
  defines "vs \<equiv> case map_of d p of None \<Rightarrow> {} | Some vs \<Rightarrow> vs"
  shows "good_entry (AList.update p (insert v vs) d)" "entry_pairs (AList.update p (insert v vs) d) = insert (p, v) (entry_pairs d)"
proof -
  have dict: "is_dict d" using assms(1) by (auto simp: good_entry_def)
  have old: "plain_text q \<and> finite ws \<and> ws \<noteq> {} \<and> (\<forall>w \<in> ws. plain_text w)" if "map_of d q = Some ws" for q ws
    using that assms(1) map_of_SomeD [OF that] by (auto simp: good_entry_def)
  have "finite vs \<and> (\<forall>w \<in> vs. plain_text w)" using old by (auto simp: vs_def split: option.splits)
  then have "plain_text q \<and> finite ws \<and> ws \<noteq> {} \<and> (\<forall>w \<in> ws. plain_text w)"
    if "map_of (AList.update p (insert v vs) d) q = Some ws" for q ws
    using that old assms(2,3) by (auto split: if_splits)
  moreover have "AList.update p (insert v vs) d \<noteq> []" by (cases d) auto
  ultimately show "good_entry (AList.update p (insert v vs) d)"
    unfolding good_entry_def using map_of_is_SomeI [OF is_dict_update [OF dict]] is_dict_update [OF dict] by blast
  show "entry_pairs (AList.update p (insert v vs) d) = insert (p, v) (entry_pairs d)"
    by (auto simp: entry_pairs_def vs_def split: option.splits if_splits)
qed

lemma item_handled_ok:
  assumes "leveldb_gets write get fresh" "module_builder_ok get b"
  shows "\<exists>b'. item_handled (module_flush write) b = Inr b' \<and> module_builder_ok get b' \<and> known_pairs get b' = known_pairs get b"
proof -
  let ?b = "b\<lparr>bd_num_items := bd_num_items b + 1\<rparr>"
  have "module_builder_ok get ?b" "known_pairs get ?b = known_pairs get b"
    using assms(2) by (simp_all add: module_builder_ok_def known_pairs_def fun_eq_iff split: option.split)
  with module_flush_ok [OF assms(1), of ?b] show ?thesis
    using assms(2) by (auto simp: item_handled_def Let_def module_builder_ok_def)
qed

lemma add_module_ok:
  assumes "leveldb_gets write get fresh" "module_builder_ok get b" "plain_text (dk_package_name key)" "plain_text (dk_version key)"
  shows "\<exists>b'. add_module get write key m b = Inr b' \<and> module_builder_ok get b'
    \<and> (\<forall>k. known_pairs get b' k = known_pairs get b k \<union> (if k = m then {(dk_package_name key, dk_version key)} else {}))"
proof -
  obtain db where db: "bd_db b = Some db" "table_ok get db" using assms(2) by (auto simp: module_builder_ok_def)
  obtain d where d: "get_initialized_data get m b = Inr (d, b\<lparr>bd_module_map := AList.update m d (bd_module_map b)\<rparr>)"
    and good: "d = [] \<or> good_entry d" and pairs: "entry_pairs d = known_pairs get b m"
  proof (cases "map_of (bd_module_map b) m")
    case None
    show thesis
      by (rule that [of "stored_versions get db m"])
        (use None db stored_good [OF db(2)] in \<open>auto simp: get_initialized_data_def known_pairs_def stored_pairs_def\<close>)
  next
    case (Some e)
    then have "good_entry e" using assms(2) by (simp add: module_builder_ok_def)
    then show thesis by (intro that [of e]) (use Some in \<open>auto simp: get_initialized_data_def known_pairs_def good_entry_def\<close>)
  qed
  let ?d = "AList.update (dk_package_name key) (insert (dk_version key) (case map_of d (dk_package_name key) of None \<Rightarrow> {} | Some vs \<Rightarrow> vs)) d"
  let ?b = "b\<lparr>bd_module_map := AList.update m ?d (AList.update m d (bd_module_map b))\<rparr>"
  note new = add_version_good [OF good assms(3,4)]
  have ok: "module_builder_ok get ?b" using assms(2) new(1) by (auto simp: module_builder_ok_def split: if_splits)
  have known: "known_pairs get ?b k = known_pairs get b k \<union> (if k = m then {(dk_package_name key, dk_version key)} else {})" for k
  proof (cases "k = m")
    case True
    then have "known_pairs get ?b k = insert (dk_package_name key, dk_version key) (entry_pairs d)" using new(2) by (simp add: known_pairs_def)
    then show ?thesis using True pairs by simp
  next
    case False
    then show ?thesis by (simp add: known_pairs_def split: option.split)
  qed
  have "add_module get write key m b = item_handled (module_flush write) ?b" using d by (simp add: add_module_def Let_def)
  with item_handled_ok [OF assms(1) ok] known show ?thesis by auto
qed

lemma add_modules_ok:
  assumes "leveldb_gets write get fresh" "plain_text (dk_package_name key)" "plain_text (dk_version key)"
  shows "module_builder_ok get b \<Longrightarrow> \<exists>b'. rfold (add_module get write key) ms b = Inr b' \<and> module_builder_ok get b'
    \<and> (\<forall>k. known_pairs get b' k = known_pairs get b k \<union> (if k \<in> set ms then {(dk_package_name key, dk_version key)} else {}))"
proof (induction ms arbitrary: b)
  case (Cons m ms)
  obtain b1 where b1: "add_module get write key m b = Inr b1" "module_builder_ok get b1"
    "\<And>k. known_pairs get b1 k = known_pairs get b k \<union> (if k = m then {(dk_package_name key, dk_version key)} else {})"
    using add_module_ok [OF assms(1) Cons.prems assms(2,3)] by blast
  obtain b2 where b2: "rfold (add_module get write key) ms b1 = Inr b2" "module_builder_ok get b2"
    "\<And>k. known_pairs get b2 k = known_pairs get b1 k \<union> (if k \<in> set ms then {(dk_package_name key, dk_version key)} else {})"
    using Cons.IH [OF b1(2)] by blast
  have "known_pairs get b2 k = known_pairs get b k \<union> (if k \<in> set (m # ms) then {(dk_package_name key, dk_version key)} else {})" for k
    unfolding b2(3) b1(3) by auto
  then show ?case using b1(1) b2(1,2) by auto
qed simp

lemma process_modules_ok:
  assumes "leveldb_gets write get fresh"
  shows "module_builder_ok get b \<Longrightarrow> \<forall>(key, ms) \<in> set rows. plain_text (dk_package_name key) \<and> plain_text (dk_version key) \<Longrightarrow>
    \<exists>b'. rfold (process_modules get write) rows b = Inr b' \<and> module_builder_ok get b'
      \<and> (\<forall>k. known_pairs get b' k = known_pairs get b k \<union> {(dk_package_name key, dk_version key) | key ms. (key, ms) \<in> set rows \<and> k \<in> set ms})"
proof (induction rows arbitrary: b)
  case (Cons row rows)
  obtain key ms where row: "row = (key, ms)" by (cases row)
  obtain b1 where b1: "process_modules get write row b = Inr b1" "module_builder_ok get b1"
    "\<And>k. known_pairs get b1 k = known_pairs get b k \<union> (if k \<in> set ms then {(dk_package_name key, dk_version key)} else {})"
    using add_modules_ok [OF assms _ _ Cons.prems(1), of key ms] Cons.prems(2) row by (auto simp: process_modules_def)
  obtain b2 where b2: "rfold (process_modules get write) rows b1 = Inr b2" "module_builder_ok get b2"
    "\<And>k. known_pairs get b2 k = known_pairs get b1 k \<union> {(dk_package_name key, dk_version key) | key ms. (key, ms) \<in> set rows \<and> k \<in> set ms}"
    using Cons.IH [OF b1(2)] Cons.prems(2) by auto
  have "known_pairs get b2 k = known_pairs get b k \<union> {(dk_package_name key, dk_version key) | key ms. (key, ms) \<in> set (row # rows) \<and> k \<in> set ms}" for k
    unfolding b2(3) b1(3) row by auto
  then show ?case using b1(1) b2(1,2) by auto
qed simp

text \<open>
  C13. The table of modules is complete whatever the size of a batch. Building it from rows into an
  empty database never raises, and reading a module gives exactly the packages and versions of
  the rows that have the module, also where a module occurs in several batches.
\<close>

theorem module_map_complete:
  assumes "leveldb_gets write get fresh" "0 < n"
    and "\<forall>(key, ms) \<in> set rows. plain_text (dk_package_name key) \<and> plain_text (dk_version key)"
  shows "\<exists>b db. run_builder (process_modules get write) (module_flush write) fresh rows (new_module_builder n) = Inr b \<and> bd_db b = Some db
    \<and> (\<forall>module. set (get_distributions_for_module get db module)
        = {(canonical_project_name (dk_package_name key), dk_version key) | key ms. (key, ms) \<in> set rows \<and> module \<in> set ms})"
proof -
  let ?b0 = "(new_module_builder n)\<lparr>bd_db := Some fresh, bd_write_batch := Some []\<rparr>"
  have f: "get fresh k = None" for k using assms(1) by (simp add: leveldb_gets_def)
  have m: "bd_module_map ?b0 = []" "bd_db ?b0 = Some fresh" "bd_write_batch ?b0 = Some []" "bd_write_batch_size ?b0 = n"
    by (simp_all add: new_module_builder_def new_builder_def builder.extend_def)
  have ok: "module_builder_ok get ?b0" using m f assms(2) by (simp add: module_builder_ok_def table_ok_def)
  have none: "known_pairs get ?b0 k = {}" for k using m f by (simp add: known_pairs_def stored_pairs_def stored_versions_def entry_pairs_def)
  obtain b1 where b1: "rfold (process_modules get write) rows ?b0 = Inr b1" "module_builder_ok get b1"
    "\<And>k. known_pairs get b1 k = {(dk_package_name key, dk_version key) | key ms. (key, ms) \<in> set rows \<and> k \<in> set ms}"
    using process_modules_ok [OF assms(1) ok assms(3)] none by auto
  obtain b where b: "module_flush write b1 = Inr b" "module_builder_ok get b" "bd_module_map b = []" "known_pairs get b = known_pairs get b1"
    using module_flush_ok [OF assms(1) b1(2)] by blast
  obtain db where db: "bd_db b = Some db" "table_ok get db" using b(2) by (auto simp: module_builder_ok_def)
  have "stored_pairs get db k = {(dk_package_name key, dk_version key) | key ms. (key, ms) \<in> set rows \<and> k \<in> set ms}" for k
    using fun_cong [OF b(4), of k] b(3) db(1) b1(3) by (simp add: known_pairs_def)
  then have "set (get_distributions_for_module get db module)
      = {(canonical_project_name (dk_package_name key), dk_version key) | key ms. (key, ms) \<in> set rows \<and> module \<in> set ms}" for module
    unfolding read_module [OF db(2)] by force
  then show ?thesis using b1(1) b(1) db(1) by (auto simp: run_builder_def)
qed

lemma rows_image: "{f key | key ms. (key, ms) \<in> set rows \<and> P ms} = (\<lambda>r. f (fst r)) ` set (filter (\<lambda>r. P (snd r)) rows)"
  by (auto simp: image_iff) blast+

theorem module_map_complete_witness:
  "\<exists>b db. run_builder (process_modules list_get list_write) (module_flush list_write) []
      [(flask_key ''1.0'', [''flask'', ''flask.json'']), (flask_key ''1.1'', [''flask''])] (new_module_builder 2) = Inr b \<and> bd_db b = Some db
    \<and> set (get_distributions_for_module list_get db ''flask'') = {(''flask'', ''1.0''), (''flask'', ''1.1'')}"
proof -
  let ?rows = "[(flask_key ''1.0'', [''flask'', ''flask.json'']), (flask_key ''1.1'', [''flask''])]"
  have p: "\<forall>(key, ms) \<in> set ?rows. plain_text (dk_package_name key) \<and> plain_text (dk_version key)"
    by (simp add: flask_key_def plain_text_def)
  have c: "canonical_project_name ''flask'' = ''flask''" by code_simp
  have "{(canonical_project_name (dk_package_name key), dk_version key) | key ms. (key, ms) \<in> set ?rows \<and> ''flask'' \<in> set ms}
      = {(''flask'', ''1.0''), (''flask'', ''1.1'')}"
    unfolding rows_image using c by (simp add: flask_key_def)
  with module_map_complete [OF list_gets _ p, of 2] show ?thesis by fastforce
qed

end
