(* ===== verification/Pypi_Terms.thy ===== *)
theory Pypi_Terms
  imports Terms
begin

text \<open>
  The terms on interpreters and platforms, \<open>satresolver/pypi/term.py\<close>: two subclasses of
  \<open>VersionConstraint\<close> whose subject is the name of a class, with their own comparison and
  operations. They keep the contract of terms, so what the locale of terms derives holds of
  them. The order of the terms and their representation as text are left out: sorting
  interpreters compares only their versions, which is not a total order.
\<close>

section \<open>Terms and their operations\<close>

datatype pypi_tm =
    PythonInterpreterConstraint "(string \<times> string) set" bool "(string \<times> string) set"
  | PlatformConstraint string "string set" "string set" bool

fun pypi_positive :: "pypi_tm \<Rightarrow> bool" where
  "pypi_positive (PythonInterpreterConstraint V b A) = b"
| "pypi_positive (PlatformConstraint p V A b) = b"

fun pypi_subject :: "pypi_tm \<Rightarrow> string" where
  "pypi_subject (PythonInterpreterConstraint V b A) = ''PythonInterpreter''"
| "pypi_subject (PlatformConstraint p V A b) = ''Platform''"

text \<open>Equality does not look at the set of all versions.\<close>

fun pypi_eq :: "pypi_tm \<Rightarrow> pypi_tm \<Rightarrow> bool" where
  "pypi_eq (PythonInterpreterConstraint V b A) (PythonInterpreterConstraint W c B) = (V = W \<and> b = c)"
| "pypi_eq (PlatformConstraint p V A b) (PlatformConstraint q W B c) = (p = q \<and> V = W \<and> b = c)"
| "pypi_eq s t = False"

definition allowed_of :: "bool \<Rightarrow> 'a set \<Rightarrow> 'a set \<Rightarrow> 'a set" where
  "allowed_of b V A = (if b then A \<inter> V else A - V)"

definition platform_str :: "string \<Rightarrow> bool \<Rightarrow> string" where
  "platform_str platform b = (if b then [] else ''not '') @ platform"

text \<open>The operations check the subjects first, so they only meet terms of their own class.\<close>

fun pypi_do_satisfies :: "pypi_tm \<Rightarrow> pypi_tm \<Rightarrow> py_error + bool" where
  "pypi_do_satisfies (PythonInterpreterConstraint V b A) (PythonInterpreterConstraint W c B) =
     Inr (if \<not> b \<and> c then False else allowed_of b V A \<subseteq> allowed_of c W B)"
| "pypi_do_satisfies (PlatformConstraint p V A b) (PlatformConstraint q W B c) =
     Inr (if \<not> b \<and> c then False else allowed_of b V A \<subseteq> allowed_of c W B)"
| "pypi_do_satisfies s t = Inl ValueError"

definition pypi_satisfies :: "pypi_tm \<Rightarrow> pypi_tm \<Rightarrow> py_error + bool" where
  "pypi_satisfies s t = (if pypi_subject s \<noteq> pypi_subject t then Inl ValueError else pypi_do_satisfies s t)"

fun pypi_inverse :: "pypi_tm \<Rightarrow> pypi_tm" where
  "pypi_inverse (PythonInterpreterConstraint V b A) = PythonInterpreterConstraint V (\<not> b) A"
| "pypi_inverse (PlatformConstraint p V A b) = PlatformConstraint p V A (\<not> b)"

fun interpreter_intersect :: "pypi_tm \<Rightarrow> pypi_tm \<Rightarrow> pypi_tm option" where
  "interpreter_intersect (PythonInterpreterConstraint V b A) (PythonInterpreterConstraint W c B) =
     (let (X, p) = (if \<not> b \<and> \<not> c then (V \<union> W, False) else (allowed_of b V A \<inter> allowed_of c W B, True))
      in if X = {} then None else Some (PythonInterpreterConstraint X p A))"
| "interpreter_intersect s t = None"

fun platform_intersect :: "pypi_tm \<Rightarrow> pypi_tm \<Rightarrow> pypi_tm option" where
  "platform_intersect (PlatformConstraint p V A b) (PlatformConstraint q W B c) =
     (let (X, d) = (if \<not> b \<and> \<not> c then (V \<union> W, False) else (allowed_of b V A \<inter> allowed_of c W B, True))
      in if X = {} then None else Some (PlatformConstraint p X A d))"
| "platform_intersect s t = None"

definition pypi_intersect :: "pypi_tm \<Rightarrow> pypi_tm \<Rightarrow> py_error + pypi_tm option" where
  "pypi_intersect s t =
     (if pypi_subject s \<noteq> pypi_subject t then Inl ValueError
      else Inr (if pypi_subject s = ''Platform'' then platform_intersect s t else interpreter_intersect s t))"

fun interpreter_difference :: "pypi_tm \<Rightarrow> pypi_tm \<Rightarrow> pypi_tm option" where
  "interpreter_difference (PythonInterpreterConstraint V b A) (PythonInterpreterConstraint W c B) =
     (let X = allowed_of b V A - allowed_of c W B in if X = {} then None else Some (PythonInterpreterConstraint X True A))"
| "interpreter_difference s t = None"

fun platform_difference :: "pypi_tm \<Rightarrow> pypi_tm \<Rightarrow> pypi_tm option" where
  "platform_difference (PlatformConstraint p V A b) (PlatformConstraint q W B c) =
     (let X = allowed_of b V A - allowed_of c W B in if X = {} then None else Some (PlatformConstraint p X A True))"
| "platform_difference s t = None"

definition pypi_difference :: "pypi_tm \<Rightarrow> pypi_tm \<Rightarrow> py_error + pypi_tm option" where
  "pypi_difference s t =
     (if pypi_subject s \<noteq> pypi_subject t then Inl ValueError
      else Inr (if pypi_subject s = ''Platform'' then platform_difference s t else interpreter_difference s t))"

section \<open>The contract of terms\<close>

text \<open>
  The outcomes a term allows: the subject is absent, or present as one of the versions that
  exist. \<open>I\<close> are the interpreters and \<open>P\<close> the platforms that exist.
\<close>

fun pypi_outcomes :: "pypi_tm \<Rightarrow> ((string \<times> string) + string) option set" where
  "pypi_outcomes (PythonInterpreterConstraint V b A) = (if b then {} else {None}) \<union> (Some \<circ> Inl) ` allowed_of b V A"
| "pypi_outcomes (PlatformConstraint p V A b) = (if b then {} else {None}) \<union> (Some \<circ> Inr) ` allowed_of b V A"

fun wf_pypi :: "(string \<times> string) set \<Rightarrow> string set \<Rightarrow> pypi_tm \<Rightarrow> bool" where
  "wf_pypi I P (PythonInterpreterConstraint V b A) = (A = I \<and> V \<noteq> {})"
| "wf_pypi I P (PlatformConstraint p V A b) = (A = P \<and> V \<noteq> {})"

lemma image_Un_Int_None:
  assumes "inj f" "\<And>x. f x \<noteq> n"
  shows "(if b then {} else {n}) \<union> f ` X \<subseteq> (if c then {} else {n}) \<union> f ` Y \<longleftrightarrow> (b \<or> \<not> c) \<and> X \<subseteq> Y"
    and "((if b then {} else {n}) \<union> f ` X) \<inter> ((if c then {} else {n}) \<union> f ` Y) = (if b \<or> c then {} else {n}) \<union> f ` (X \<inter> Y)"
proof -
  have n: "n \<notin> f ` Z" for Z using assms(2) by (metis imageE)
  have "f ` X \<subseteq> insert n (f ` Y) \<longleftrightarrow> f ` X \<subseteq> f ` Y" using assms(2) by auto
  then show "(if b then {} else {n}) \<union> f ` X \<subseteq> (if c then {} else {n}) \<union> f ` Y \<longleftrightarrow> (b \<or> \<not> c) \<and> X \<subseteq> Y"
    using inj_image_subset_iff [OF assms(1), of X Y] assms(2) by auto
  show "((if b then {} else {n}) \<union> f ` X) \<inter> ((if c then {} else {n}) \<union> f ` Y) = (if b \<or> c then {} else {n}) \<union> f ` (X \<inter> Y)"
    using image_Int [OF assms(1), of X Y] n by (cases b; cases c) auto
qed

lemma inj_outcome: "inj (Some \<circ> Inl)" "inj (Some \<circ> Inr)"
  by (auto simp: inj_def)

lemma outcome_present: "(Some \<circ> Inl) x \<noteq> None" "(Some \<circ> Inr) y \<noteq> None"
  by simp_all

lemmas outcome_subset = image_Un_Int_None(1) [OF inj_outcome(1) outcome_present(1)] image_Un_Int_None(1) [OF inj_outcome(2) outcome_present(2)]

lemmas outcome_Int = image_Un_Int_None(2) [OF inj_outcome(1) outcome_present(1)] image_Un_Int_None(2) [OF inj_outcome(2) outcome_present(2)]

lemma pypi_same_subject_cases:
  assumes "wf_pypi I P s" "wf_pypi I P t" "pypi_subject s = pypi_subject t"
  obtains (Interpreter) V b W c where "s = PythonInterpreterConstraint V b I" "t = PythonInterpreterConstraint W c I" "V \<noteq> {}" "W \<noteq> {}"
  | (Plat) p V b q W c where "s = PlatformConstraint p V P b" "t = PlatformConstraint q W P c" "V \<noteq> {}" "W \<noteq> {}"
  using assms by (cases s; cases t) auto

lemma pypi_satisfies_wf:
  assumes "wf_pypi I P s" "wf_pypi I P t" "pypi_subject s = pypi_subject t"
  shows "pypi_satisfies s t = Inr (pypi_outcomes s \<subseteq> pypi_outcomes t)"
proof (cases rule: pypi_same_subject_cases [OF assms])
  case (1 V b W c)
  show ?thesis unfolding 1 pypi_outcomes.simps outcome_subset by (simp add: pypi_satisfies_def)
next
  case (2 p V b q W c)
  show ?thesis unfolding 2 pypi_outcomes.simps outcome_subset by (simp add: pypi_satisfies_def)
qed

lemma pypi_intersect_wf:
  assumes "wf_pypi I P s" "wf_pypi I P t" "pypi_subject s = pypi_subject t"
  shows "\<exists>r. pypi_intersect s t = Inr r \<and> (r = None \<longleftrightarrow> pypi_outcomes s \<inter> pypi_outcomes t = {})
    \<and> (\<forall>u. r = Some u \<longrightarrow> wf_pypi I P u \<and> pypi_subject u = pypi_subject s \<and> pypi_outcomes u = pypi_outcomes s \<inter> pypi_outcomes t)"
proof (cases rule: pypi_same_subject_cases [OF assms])
  case (1 V b W c)
  then show ?thesis unfolding 1(1,2) pypi_outcomes.simps outcome_Int
    by (cases b; cases c) (auto simp: pypi_intersect_def allowed_of_def Let_def)
next
  case (2 p V b q W c)
  then show ?thesis unfolding 2(1,2) pypi_outcomes.simps outcome_Int
    by (cases b; cases c) (auto simp: pypi_intersect_def allowed_of_def Let_def)
qed

interpretation pypi: term_algebra "wf_pypi I P" pypi_subject pypi_outcomes pypi_satisfies pypi_intersect for I P
proof
  fix s t
  assume wf: "wf_pypi I P s" "wf_pypi I P t" "pypi_subject s = pypi_subject t"
  show "pypi_satisfies s t = Inr (pypi_outcomes s \<subseteq> pypi_outcomes t)" by (rule pypi_satisfies_wf [OF wf])
  obtain r where r: "pypi_intersect s t = Inr r" "r = None \<longleftrightarrow> pypi_outcomes s \<inter> pypi_outcomes t = {}"
    "\<forall>u. r = Some u \<longrightarrow> wf_pypi I P u \<and> pypi_subject u = pypi_subject s \<and> pypi_outcomes u = pypi_outcomes s \<inter> pypi_outcomes t"
    using pypi_intersect_wf [OF wf] by blast
  show "pypi_intersect s t = Inr None \<longleftrightarrow> pypi_outcomes s \<inter> pypi_outcomes t = {}" using r by simp
  show "\<exists>u. pypi_intersect s t = Inr (Some u) \<and> wf_pypi I P u \<and> pypi_subject u = pypi_subject s \<and> pypi_outcomes u = pypi_outcomes s \<inter> pypi_outcomes t"
    if ne: "pypi_outcomes s \<inter> pypi_outcomes t \<noteq> {}"
    using ne r by (cases r) auto
qed

lemma pypi_inverse_outcomes:
  "wf_pypi I P t \<Longrightarrow> pypi_outcomes (pypi_inverse t) =
     insert None (Some ` (if pypi_subject t = ''Platform'' then Inr ` P else Inl ` I)) - pypi_outcomes t"
  by (cases t) (auto simp: allowed_of_def)

end
