(* ===== verification/Python_Graph.thy ===== *)
theory Python_Graph
  imports Depgraph
begin

text \<open>
  The dependency graph of PyPI, \<open>satresolver/pypi/python_graph.py\<close>, with the configuration made
  from requirements (\<open>python_config.py\<close>): which platform tags a platform supports, which
  requirements apply, and which distributions of the table satisfy them. Requirements and
  versions are those of \<open>pkg_resources\<close>; what the code calls of it are the fields of
  \<open>requirement_ops\<close>. Sets are lists without duplicates in the order of their iteration, which
  Python leaves open. An operation that fills the caches returns them with its result or
  exception. Platform tags have no percent sign.
\<close>

section \<open>Platform tags\<close>

definition ALL_PYTHON_INTERPRETERS :: "string list" where
  "ALL_PYTHON_INTERPRETERS = [''3.7.2'', ''3.3'', ''2.7.6'', ''2.4'']"

definition ALL_PLATFORM_TAGS :: "string list" where
  "ALL_PLATFORM_TAGS =
     [''win_amd64'', ''any'', ''manylinux1_i686'', ''manylinux1_x86_64'', ''macosx_10_10_x86_64'', ''macosx_10_9_x86_64'',
      ''macosx_10_6_intel'', ''macosx_10_9_intel'', ''macosx_10_10_intel'', ''macosx_10_11_intel'', ''macosx_10_11_x86_64'',
      ''win32'', ''macosx_10_12_intel'', ''macosx_10_12_x86_64'', ''macosx_10_5_x86_64'', ''macosx_10_13_x86_64'',
      ''win64'', ''macosx_10_7_x86_64'', ''linux_armv7l'', ''macosx_10_6_x86_64'', ''macosx_10_5_intel'', ''macosx_10_14_x86_64'',
      '''', ''macosx_10_7_intel'', ''macosx_10_8_intel'', ''macosx_10_8_x86_64'', ''macosx_10_13_intel'', ''manylinux2010_x86_64'',
      ''macosx_10_14_intel'', ''linux_armv6l'', ''macosx_10_4_x86_64'', ''macosx_10_6_i386'', ''macosx_10_6_universal'',
      ''macosx_10_10_i386'', ''macosx_10_11_i386'', ''macosx_10_12_i386'', ''macosx_10_9_universal'', ''macosx'',
      ''macosx_10_5_fat'', ''linux_x86_64'', ''macosx_10_7_i386'', ''macosx_10_15_intel'', ''macosx_10_09_x86_64'',
      ''macosx_10_9_i386'']"

definition arch_groups :: "(string, string list) dict" where
  "arch_groups = [(''fat'', [''i386'', ''ppc'']), (''intel'', [''x86_64'', ''i386'']), (''fat64'', [''x86_64'', ''ppc64'']),
     (''fat32'', [''x86_64'', ''i386'', ''ppc''])]"

text \<open>
  \<open>_supports_arch\<close>: first the four architectures, then the groups. The members of a group are
  architectures, so the recursion of the code has depth two.
\<close>

definition supports_base :: "nat \<Rightarrow> nat \<Rightarrow> string \<Rightarrow> bool option" where
  "supports_base major minor arch =
     (if arch = ''ppc'' then Some ((major, minor) \<le> (10, 5))
      else if arch = ''ppc64'' then Some ((major, minor) = (10, 5))
      else if arch = ''i386'' then Some ((major, minor) \<ge> (10, 4))
      else if arch = ''x86_64'' then Some ((major, minor) \<ge> (10, 5))
      else None)"

definition supports_arch :: "nat \<Rightarrow> nat \<Rightarrow> string \<Rightarrow> bool" where
  "supports_arch major minor arch =
     (case supports_base major minor arch of
        Some b \<Rightarrow> b
      | None \<Rightarrow>
          (case map_of arch_groups arch of
             None \<Rightarrow> False
           | Some gs \<Rightarrow> list_ex (\<lambda>ga. supports_base major minor ga = Some True) gs))"

definition get_darwin_arches :: "nat \<Rightarrow> nat \<Rightarrow> string \<Rightarrow> string list" where
  "get_darwin_arches major minor machine =
     (if supports_arch major minor machine then [machine] else [])
     @ map fst (filter (\<lambda>(garch, gs). machine \<in> set gs \<and> supports_arch major minor garch) arch_groups)
     @ [''universal'']"

definition osx_arch_pat :: regex where
  "osx_arch_pat = Seq (Group ''name'' (Plus any_char)) (Seq (Lit CHR ''_'') (Seq (Group ''major'' (Plus is_digit)) (Seq (Lit CHR ''_'')
     (Seq (Group ''minor'' (Plus is_digit)) (Seq (Lit CHR ''_'') (Group ''arch'' (Plus any_char)))))))"

definition darwin_tags :: "string \<Rightarrow> string \<Rightarrow> nat \<Rightarrow> string \<Rightarrow> string list" where
  "darwin_tags name major minor arch =
     concat (map (\<lambda>m. map (\<lambda>a. name @ ''_'' @ major @ ''_'' @ nat_str m @ ''_'' @ a) (get_darwin_arches (str_nat major) m arch))
       (rev [0..<minor + 1]))"

text \<open>\<open>str.partition\<close> at the first underscore.\<close>

definition partition_underscore :: "string \<Rightarrow> string \<times> string \<times> string" where
  "partition_underscore s =
     (let p = takeWhile (\<lambda>c. c \<noteq> CHR ''_'') s
      in if CHR ''_'' \<in> set s then (p, ''_'', drop (length p + 1) s) else (s, [], []))"

definition get_supported_platform_tags :: "string \<Rightarrow> string list" where
  "get_supported_platform_tags platform =
     remdups
       (let (arch_prefix, arch_sep, arch_suffix) = partition_underscore platform
        in if starts_with ''macosx'' platform then
             (case rx_match osx_arch_pat platform of
                Some (g, _) \<Rightarrow>
                  (let f = (\<lambda>n. case rx_group g n of None \<Rightarrow> [] | Some v \<Rightarrow> v)
                   in darwin_tags (f ''name'') (f ''major'') (str_nat (f ''minor'')) (f ''arch''))
              | None \<Rightarrow> [platform])
           else if arch_prefix = ''manylinux2014'' then
             platform # (if arch_suffix \<in> {''i686'', ''x86_64''}
               then [''manylinux2010'' @ arch_sep @ arch_suffix, ''manylinux1'' @ arch_sep @ arch_suffix] else [])
           else if arch_prefix = ''manylinux2010'' then [platform, ''manylinux1'' @ arch_sep @ arch_suffix]
           else [platform])"

definition DEFAULT_ABI_MAP :: "(string, string list) dict" where
  "DEFAULT_ABI_MAP = [(''3.3'', [''cp33m'', ''abi3'']), (''3.4'', [''cp34m'', ''abi3'']), (''3.5'', [''cp35m'', ''abi3'']),
     (''3.6'', [''cp36m'', ''abi3'']), (''3.7'', [''cp37m'', ''abi3'']), (''3.8'', [''cp38'', ''abi3''])]"

definition get_abi_for_python_version :: "string \<Rightarrow> string list" where
  "get_abi_for_python_version python_version =
     (case map_of DEFAULT_ABI_MAP python_version of None \<Rightarrow> [''abi3''] | Some abis \<Rightarrow> abis)"

section \<open>Markers\<close>

text \<open>
  A parsed marker is a list of conditions, connectives and nested lists. A connective is a
  string; any other string would be taken apart as a condition.
\<close>

datatype marker = Sub "marker list" | Word string | Cond string string string

record 'req requirement_ops =
  ro_parse :: "string \<Rightarrow> string + 'req"
  ro_contains :: "'req \<Rightarrow> string \<Rightarrow> bool"
  ro_project_name :: "'req \<Rightarrow> string"
  ro_marker :: "'req \<Rightarrow> marker list option"
  ro_specs :: "'req \<Rightarrow> (string \<times> string) list"
  ro_str :: "'req \<Rightarrow> string"

record python_graph =
  pg_abis :: "string list"
  pg_valid_abis :: "string set"
  pg_requires_python :: string
  pg_platform :: string
  pg_platforms :: "string list"

definition new_python_graph :: "string \<Rightarrow> string \<Rightarrow> string list option \<Rightarrow> python_graph" where
  "new_python_graph requires_python platform valid_abis =
     (let abis = (case valid_abis of None \<Rightarrow> [] | Some as \<Rightarrow> as)
      in \<lparr>pg_abis = abis, pg_valid_abis = {''none'', []} \<union> set abis, pg_requires_python = requires_python,
          pg_platform = platform, pg_platforms = get_supported_platform_tags platform\<rparr>)"

definition platform_match :: "python_graph \<Rightarrow> string \<Rightarrow> bool" where
  "platform_match g platform = (if platform \<in> {''any'', []} then True else platform \<in> set (pg_platforms g))"

definition check_marker :: "'req requirement_ops \<Rightarrow> python_graph \<Rightarrow> string \<Rightarrow> string \<Rightarrow> string \<Rightarrow> bool" where
  "check_marker ro g variable op value =
     (if variable = ''extra'' then False
      else if variable = ''python_version'' then
        (case ro_parse ro (''python'' @ op @ value) of
           Inl e \<Rightarrow> False
         | Inr req \<Rightarrow> ro_contains ro req (pg_requires_python g))
      else if variable \<in> {''sys_platform'', ''platform_system''} then platform_match g value
      else True)"

fun check_markers_expression :: "(string \<Rightarrow> string \<Rightarrow> string \<Rightarrow> bool) \<Rightarrow> marker list \<Rightarrow> bool option \<Rightarrow> bool option" where
  "check_markers_expression check [] r = r"
| "check_markers_expression check (Sub ms # rest) r =
     check_markers_expression check rest (check_markers_expression check ms None)"
| "check_markers_expression check (Word w # rest) r =
     (if w = ''or'' then
        (case r of Some True \<Rightarrow> Some True | Some False \<Rightarrow> check_markers_expression check rest r | None \<Rightarrow> Some False)
      else if w = ''and'' then
        (case r of Some True \<Rightarrow> check_markers_expression check rest r | Some False \<Rightarrow> Some False | None \<Rightarrow> Some False)
      else check_markers_expression check rest (Some (case w of [a, b, c] \<Rightarrow> check [a] [b] [c] | _ \<Rightarrow> False)))"
| "check_markers_expression check (Cond variable op value # rest) r =
     check_markers_expression check rest (Some (check variable op value))"

definition should_include :: "'req requirement_ops \<Rightarrow> python_graph \<Rightarrow> 'req \<Rightarrow> bool" where
  "should_include ro g req =
     (case ro_marker ro req of
        None \<Rightarrow> True
      | Some ms \<Rightarrow> check_markers_expression (check_marker ro g) ms None = Some True)"

section \<open>Versions and the graph\<close>

datatype python_version =
    PythonInterpreter string string
  | Platform string
  | ABI string
  | Dist distribution

fun python_subject :: "python_version \<Rightarrow> string" where
  "python_subject (PythonInterpreter i v) = ''PythonInterpreter''"
| "python_subject (Platform p) = ''Platform''"
| "python_subject (ABI a) = ''ABI''"
| "python_subject (Dist d) = dk_package_name (pd_key d)"

text \<open>The attribute \<open>version\<close>, which platforms and ABIs do not have.\<close>

fun version_attr :: "python_version \<Rightarrow> py_error + string" where
  "version_attr (PythonInterpreter i v) = Inr v"
| "version_attr (Platform p) = Inl AttributeError"
| "version_attr (ABI a) = Inl AttributeError"
| "version_attr (Dist d) = Inr (dk_version (pd_key d))"

datatype pypi_error = PackageErr package_error | PyError py_error

type_synonym python_dependencies = "(string, python_version list) dict"

record python_cache =
  pc_packages :: "(string, python_version list) dict"
  pc_exceptions :: "(string, package_error) dict"
  pc_root :: "python_dependencies option"

type_synonym 'a cached = "python_cache \<Rightarrow> (pypi_error + 'a) \<times> python_cache"

definition name_query :: "string \<Rightarrow> dist_query" where
  "name_query package_name = \<lparr>dq_package_name = Some package_name, dq_version = None, dq_distribution_type = None,
     dq_requires_python = None, dq_platform = None, dq_abi = None, dq_build = None\<rparr>"

definition valid_python_requirement :: "'req requirement_ops \<Rightarrow> python_graph \<Rightarrow> string \<Rightarrow> bool" where
  "valid_python_requirement ro g requires_python =
     (if requires_python = [] then True
      else (case ro_parse ro (''python'' @ requires_python) of Inl e \<Rightarrow> False | Inr req \<Rightarrow> ro_contains ro req (pg_requires_python g)))"

definition compatible :: "'req requirement_ops \<Rightarrow> python_graph \<Rightarrow> distribution \<Rightarrow> bool" where
  "compatible ro g d \<longleftrightarrow> dk_abi (pd_key d) \<in> pg_valid_abis g \<and> platform_match g (dk_platform (pd_key d))
     \<and> valid_python_requirement ro g (dk_requires_python (pd_key d))"

definition fetch_distributions_from_leveldb ::
  "'req requirement_ops \<Rightarrow> 'db iterate \<Rightarrow> 'db \<Rightarrow> python_graph \<Rightarrow> string \<Rightarrow> py_error + distribution list" where
  "fetch_distributions_from_leveldb ro iterator db g package_name =
     rmap (\<lambda>ds. remdups (filter (compatible ro g) ds)) (get_distributions iterator db (name_query package_name))"

definition python_fetch_all_versions_for ::
  "'req requirement_ops \<Rightarrow> 'db iterate \<Rightarrow> 'db \<Rightarrow> python_graph \<Rightarrow> string \<Rightarrow> pypi_error + python_version list" where
  "python_fetch_all_versions_for ro iterator db g package_name =
     (if package_name = ''PythonInterpreter'' then Inr (map (PythonInterpreter ''python'') ALL_PYTHON_INTERPRETERS)
      else if package_name = ''Platform'' then Inr (map Platform ALL_PLATFORM_TAGS)
      else rbind (rlift PyError (fetch_distributions_from_leveldb ro iterator db g package_name))
        (\<lambda>ds. if ds = [] then Inl (PackageErr (PackageNotFoundError (''No distributions found for '' @ package_name) package_name))
              else Inr (map Dist ds)))"

text \<open>\<open>all_versions\<close> of the base class, on the caches of this graph.\<close>

definition python_all_versions ::
  "'req requirement_ops \<Rightarrow> 'db iterate \<Rightarrow> 'db \<Rightarrow> python_graph \<Rightarrow> string \<Rightarrow> python_version list cached" where
  "python_all_versions ro iterator db g name c =
     (case python_fetch_all_versions_for ro iterator db g name of
        Inr vs \<Rightarrow> (Inr vs, c\<lparr>pc_packages := AList.update name vs (pc_packages c)\<rparr>)
      | Inl (PackageErr e) \<Rightarrow>
          if is_not_found e then (Inr [], c\<lparr>pc_exceptions := AList.update name e (pc_exceptions c)\<rparr>) else (Inl (PackageErr e), c)
      | Inl (PyError e) \<Rightarrow> (Inl (PyError e), c))"

fun parse_requirements :: "'req requirement_ops \<Rightarrow> string list \<Rightarrow> package_error + 'req list" where
  "parse_requirements ro [] = Inr []"
| "parse_requirements ro (requirement # rest) =
     (let s = str_lower (strip requirement)
      in if requirement = [] \<or> starts_with ''#'' s then parse_requirements ro rest
         else rbind (parse_requirement (ro_parse ro) s) (\<lambda>r. rmap (\<lambda>rs. r # rs) (parse_requirements ro rest)))"

definition valid_distributions :: "'req requirement_ops \<Rightarrow> 'req \<Rightarrow> python_version list \<Rightarrow> py_error + python_version list" where
  "valid_distributions ro req vs =
     rmap (\<lambda>us. map fst (filter (\<lambda>(v, u). ro_contains ro req u) (zip vs us))) (rmap_list version_attr vs)"

fun deps_from_requirements ::
  "'req requirement_ops \<Rightarrow> 'db iterate \<Rightarrow> 'db \<Rightarrow> python_graph \<Rightarrow> 'req list \<Rightarrow> python_dependencies \<Rightarrow> python_dependencies cached" where
  "deps_from_requirements ro iterator db g [] deps c = (Inr deps, c)"
| "deps_from_requirements ro iterator db g (req # reqs) deps c =
     (if \<not> should_include ro g req then deps_from_requirements ro iterator db g reqs deps c
      else (case python_all_versions ro iterator db g (ro_project_name ro req) c of
              (Inl e, c1) \<Rightarrow> (Inl e, c1)
            | (Inr vs, c1) \<Rightarrow>
                (case valid_distributions ro req vs of
                   Inl e \<Rightarrow> (Inl (PyError e), c1)
                 | Inr valid \<Rightarrow>
                     if valid = [] then
                       (Inl (PackageErr (VersionNotFoundError (''No matching distributions found for '' @ ro_str ro req)
                          (ro_project_name ro req) (map (\<lambda>v. case version_attr v of Inr u \<Rightarrow> u | Inl _ \<Rightarrow> []) vs))), c1)
                     else deps_from_requirements ro iterator db g reqs (AList.update (ro_project_name ro req) valid deps) c1)))"

definition dependencies_from_requirements ::
  "'req requirement_ops \<Rightarrow> 'db iterate \<Rightarrow> 'db \<Rightarrow> python_graph \<Rightarrow> 'req list \<Rightarrow> python_dependencies cached" where
  "dependencies_from_requirements ro iterator db g reqs c = deps_from_requirements ro iterator db g reqs [] c"

definition python_build_transitive_dependency_map ::
  "'req requirement_ops \<Rightarrow> 'db iterate \<Rightarrow> 'db \<Rightarrow> python_graph \<Rightarrow> 'req list \<Rightarrow> unit cached" where
  "python_build_transitive_dependency_map ro iterator db g reqs c =
     (case dependencies_from_requirements ro iterator db g reqs c of
        (Inl e, c1) \<Rightarrow> (Inl e, c1)
      | (Inr deps, c1) \<Rightarrow> (Inr (), c1\<lparr>pc_root := Some deps\<rparr>))"

definition python_fetch_dependencies_for ::
  "'req requirement_ops \<Rightarrow> 'db iterate \<Rightarrow> 'db \<Rightarrow> python_graph \<Rightarrow> python_version \<Rightarrow> python_dependencies cached" where
  "python_fetch_dependencies_for ro iterator db g v c =
     (case v of
        Dist d \<Rightarrow>
          (case parse_requirements ro (rd_requires (pd_value d)) of
             Inl e \<Rightarrow> (Inl (PackageErr e), c)
           | Inr reqs \<Rightarrow> dependencies_from_requirements ro iterator db g reqs c)
      | _ \<Rightarrow> (Inr [], c))"

section \<open>The configuration\<close>

definition is_exact_requirement :: "'req requirement_ops \<Rightarrow> 'req \<Rightarrow> bool" where
  "is_exact_requirement ro req \<longleftrightarrow> length (ro_specs ro req) = 1 \<and> fst (ro_specs ro req ! 0) = ''==''"

text \<open>
  The configuration is its requirements and its overrides; its constructor makes the graph
  compute the dependencies of the root.
\<close>

definition for_requirements ::
  "'req requirement_ops \<Rightarrow> 'db iterate \<Rightarrow> 'db \<Rightarrow> python_graph \<Rightarrow> 'req list \<Rightarrow> bool \<Rightarrow> 'req list option
   \<Rightarrow> ('req list \<times> python_dependencies) cached" where
  "for_requirements ro iterator db g requirements override_reqs overrides c =
     (let given = (case overrides of None \<Rightarrow> [] | Some os \<Rightarrow> os)
      in if override_reqs \<and> given \<noteq> [] then (Inl (PyError ToolchainAssertion), c)
         else (let (deps, c1) =
                 (if override_reqs then dependencies_from_requirements ro iterator db g (filter (is_exact_requirement ro) requirements) c
                  else if given \<noteq> [] then dependencies_from_requirements ro iterator db g given c
                  else (Inr [], c))
               in case deps of
                    Inl e \<Rightarrow> (Inl e, c1)
                  | Inr ds \<Rightarrow>
                      (let (r, c2) = python_build_transitive_dependency_map ro iterator db g requirements c1
                       in (rmap (\<lambda>_. (requirements, ds)) r, c2))))"

definition for_dependencies ::
  "'req requirement_ops \<Rightarrow> 'db iterate \<Rightarrow> 'db \<Rightarrow> python_graph \<Rightarrow> string list \<Rightarrow> bool \<Rightarrow> string list option
   \<Rightarrow> ('req list \<times> python_dependencies) cached" where
  "for_dependencies ro iterator db g dependencies override_reqs overrides c =
     (case parse_requirements ro dependencies of
        Inl e \<Rightarrow> (Inl (PackageErr e), c)
      | Inr requirements \<Rightarrow>
          (case overrides of
             None \<Rightarrow> for_requirements ro iterator db g requirements override_reqs None c
           | Some [] \<Rightarrow> for_requirements ro iterator db g requirements override_reqs None c
           | Some os \<Rightarrow>
               (case parse_requirements ro os of
                  Inl e \<Rightarrow> (Inl (PackageErr e), c)
                | Inr reqs \<Rightarrow> for_requirements ro iterator db g requirements override_reqs (Some reqs) c)))"

section \<open>Platform tags of macOS\<close>

text \<open>
  A macOS release supports the tags of every earlier one with the same major version: the tags
  of a platform only grow with its minor version.
\<close>

theorem darwin_tags_mono:
  assumes "m \<le> n"
  shows "set (darwin_tags name major m arch) \<subseteq> set (darwin_tags name major n arch)"
  using assms by (force simp: darwin_tags_def)

section \<open>The meaning of markers\<close>

text \<open>
  The lists that parsing a marker gives: conditions and nested lists, separated by
  connectives. Their standard value gives \<open>and\<close> precedence over \<open>or\<close>; the first argument is
  the value of the conjunction read so far.
\<close>

fun wf_markers :: "marker list \<Rightarrow> bool" where
  "wf_markers [Cond v p x] = True"
| "wf_markers [Sub ms] = wf_markers ms"
| "wf_markers (Cond v p x # Word w # rest) = (w \<in> {''and'', ''or''} \<and> wf_markers rest)"
| "wf_markers (Sub ms # Word w # rest) = (wf_markers ms \<and> w \<in> {''and'', ''or''} \<and> wf_markers rest)"
| "wf_markers ms = False"

fun marker_value :: "(string \<Rightarrow> string \<Rightarrow> string \<Rightarrow> bool) \<Rightarrow> bool \<Rightarrow> marker list \<Rightarrow> bool" where
  "marker_value check acc (Cond v p x # Word w # rest) =
     (let b = acc \<and> check v p x in if w = ''or'' then b \<or> marker_value check True rest else marker_value check b rest)"
| "marker_value check acc (Sub ms # Word w # rest) =
     (let b = acc \<and> marker_value check True ms in if w = ''or'' then b \<or> marker_value check True rest else marker_value check b rest)"
| "marker_value check acc (Cond v p x # rest) = (acc \<and> check v p x)"
| "marker_value check acc (Sub ms # rest) = (acc \<and> marker_value check True ms)"
| "marker_value check acc ms = acc"

text \<open>No list, nested ones included, has an \<open>or\<close> after an \<open>and\<close>.\<close>

fun or_first :: "marker list \<Rightarrow> bool" where
  "or_first [] = True"
| "or_first (Sub ms # rest) = (or_first ms \<and> or_first rest)"
| "or_first (Word w # rest) = ((w = ''and'' \<longrightarrow> Word ''or'' \<notin> set rest) \<and> or_first rest)"
| "or_first (Cond v p x # rest) = or_first rest"

lemma conjunction_False:
  "wf_markers ms \<Longrightarrow> Word ''or'' \<notin> set ms \<Longrightarrow> marker_value check False ms = False"
  by (induction ms rule: wf_markers.induct) auto

lemma check_markers_value:
  "wf_markers ms \<Longrightarrow> or_first ms \<Longrightarrow> check_markers_expression check ms r = Some (marker_value check True ms)"
  by (induction ms arbitrary: r rule: wf_markers.induct) (auto simp: Let_def conjunction_False split: option.splits bool.splits)

text \<open>
  C28. The markers of a requirement are evaluated to their standard value, in which \<open>and\<close> binds
  tighter than \<open>or\<close>, whenever no \<open>or\<close> comes after an \<open>and\<close> in the same list.
\<close>

theorem markers_standard_value:
  assumes "ro_marker ro req = Some ms" "wf_markers ms" "or_first ms"
  shows "should_include ro g req \<longleftrightarrow> marker_value (check_marker ro g) True ms"
  using assms by (simp add: should_include_def check_markers_value)

text \<open>A small version language for concrete inputs: a requirement is a name, a version and a marker.\<close>

definition demo_ops :: "(string \<times> string \<times> marker list option) requirement_ops" where
  "demo_ops = \<lparr>ro_parse = (\<lambda>s. Inr (s, ''1'', None)), ro_contains = (\<lambda>(n, v, m) u. u = v), ro_project_name = fst,
     ro_marker = (\<lambda>(n, v, m). m), ro_specs = (\<lambda>(n, v, m). [(''=='', v)]), ro_str = fst\<rparr>"

definition demo_linux :: python_graph where
  "demo_linux = new_python_graph ''3.7'' ''linux_x86_64'' None"

theorem markers_standard_value_witness:
  "should_include demo_ops demo_linux
     (''foo'', ''1'', Some [Cond ''extra'' ''=='' ''x'', Word ''or'', Cond ''sys_platform'' ''=='' ''linux_x86_64'', Word ''and'', Cond ''os_name'' ''=='' ''posix''])"
proof -
  let ?ms = "[Cond ''extra'' ''=='' ''x'', Word ''or'', Cond ''sys_platform'' ''=='' ''linux_x86_64'', Word ''and'', Cond ''os_name'' ''=='' ''posix'']"
  have "marker_value (check_marker demo_ops demo_linux) True ?ms" by code_simp
  then show ?thesis using markers_standard_value [of demo_ops "(''foo'', ''1'', Some ?ms)" ?ms demo_linux] by (simp add: demo_ops_def)
qed

text \<open>
  An \<open>or\<close> after a false \<open>and\<close> is never reached: a requirement whose marker holds by its
  second alternative is left out.
\<close>

theorem marker_or_after_and_ignored:
  "\<exists>ms. wf_markers ms \<and> marker_value (check_marker demo_ops demo_linux) True ms
     \<and> \<not> should_include demo_ops demo_linux (''foo'', ''1'', Some ms)"
proof -
  let ?ms = "[Cond ''extra'' ''=='' ''x'', Word ''and'', Cond ''os_name'' ''=='' ''posix'', Word ''or'', Cond ''os_name'' ''=='' ''nt'']"
  have "wf_markers ?ms" by simp
  moreover have "marker_value (check_marker demo_ops demo_linux) True ?ms" by code_simp
  moreover have "\<not> should_include demo_ops demo_linux (''foo'', ''1'', Some ?ms)" by code_simp
  ultimately show ?thesis by blast
qed

text \<open>The operator of a platform condition is not looked at, so \<open>!=\<close> means \<open>==\<close>.\<close>

lemma platform_operator_ignored:
  "should_include demo_ops demo_linux (''foo'', ''1'', Some [Cond ''sys_platform'' ''!='' ''linux_x86_64''])"
  "\<not> should_include demo_ops demo_linux (''foo'', ''1'', Some [Cond ''sys_platform'' ''!='' ''win32''])"
  by code_simp+

section \<open>Dependencies\<close>


lemma valid_distributions_Nil [simp]: "valid_distributions ro req [] = Inr []"
  by (simp add: valid_distributions_def)






section \<open>The versions of a package\<close>

lemma name_query_matches: "query_matches (canonical_query name (name_query name)) k \<longleftrightarrow> dk_package_name k = canonical_project_name name"
  by (auto simp: query_matches_def query_kwargs_def canonical_query_def name_query_def astuple_def)

lemma name_query_plain: "tab \<notin> set (canonical_project_name name) \<Longrightarrow> plain_query (canonical_query name (name_query name))"
  by (auto simp: plain_query_def query_kwargs_def canonical_query_def name_query_def)

end
