(* ===== verification/Result_Graph.thy ===== *)
theory Result_Graph
  imports Resolver "HOL-Library.Extended_Nat"
begin

text \<open>
  The printed dependency graph of a resolve (\<open>satresolver/simple_result_graph.py\<close>) and the
  resolver's \<open>result_graph\<close> that builds it. \<open>_find_minimum_depths\<close> walks the graph from the
  direct dependencies and relaxes a depth per package version; \<open>_make_lines\<close> prints every
  edge and expands a package version at the first visit at its minimum depth. The two
  recursions take fuel; the lemmas show that the number of package versions is enough, that
  the depths are the lengths of the shortest paths, and that every reachable package version
  is expanded exactly once.
\<close>

section \<open>State and operations\<close>

record 'v result_graph =
  rg_direct_dependencies :: "(string, 'v package_version) dict"
  rg_dependency_graph :: "('v package_version, 'v package_version list) dict"
  rg_depth :: "('v package_version, enat) dict"
  rg_seen :: "'v package_version set"
  rg_lines :: "string list"
  rg_has_run :: bool

definition new_result_graph ::
  "('v package_version, 'v package_version list) dict \<Rightarrow> (string, 'v package_version) dict \<Rightarrow> 'v result_graph" where
  "new_result_graph g direct = \<lparr>rg_direct_dependencies = direct, rg_dependency_graph = g,
     rg_depth = [], rg_seen = {}, rg_lines = [], rg_has_run = False\<rparr>"

text \<open>\<open>depth\<close> is a \<open>defaultdict\<close> whose default is infinity.\<close>

definition depth_of :: "('v package_version, enat) dict \<Rightarrow> 'v package_version \<Rightarrow> enat" where
  "depth_of d p = (case map_of d p of None \<Rightarrow> \<infinity> | Some k \<Rightarrow> k)"

definition edges_of ::
  "('v package_version, 'v package_version list) dict \<Rightarrow> 'v package_version
   \<Rightarrow> 'v resolver_error + 'v package_version list" where
  "edges_of g p = (case map_of g p of None \<Rightarrow> Inl (PyErr KeyError) | Some qs \<Rightarrow> Inr qs)"

fun find_minimum_depths ::
  "nat \<Rightarrow> ('v package_version, 'v package_version list) dict \<Rightarrow> nat \<Rightarrow> 'v package_version
   \<Rightarrow> ('v package_version, enat) dict \<Rightarrow> 'v resolver_error + ('v package_version, enat) dict" where
  "find_minimum_depths 0 g k p d = Inl OutOfFuel"
| "find_minimum_depths (Suc n) g k p d =
     (if depth_of d p \<le> enat k then Inr d
      else rbind (edges_of g p)
        (\<lambda>qs. rfold (find_minimum_depths n g (Suc k)) qs
           (AList.update p (min (depth_of d p) (enat k)) d)))"

definition already_seen ::
  "('v package_version, enat) dict \<Rightarrow> 'v package_version set \<Rightarrow> 'v package_version \<Rightarrow> nat \<Rightarrow> bool" where
  "already_seen d seen p k = (depth_of d p < enat k \<or> p \<in> seen)"

definition rg_line :: "('v \<Rightarrow> string) \<Rightarrow> 'v package_version \<Rightarrow> nat \<Rightarrow> string" where
  "rg_line ver_str p k =
     concat (replicate (k - 1) ''    '') @ (if 1 < k then ''|'' else []) @ '' - '' @ pv_str ver_str p"

text \<open>The loop over the dependencies extends the caller's lines, so they are passed along.\<close>

fun make_lines ::
  "nat \<Rightarrow> ('v \<Rightarrow> string) \<Rightarrow> ('v package_version, 'v package_version list) dict
   \<Rightarrow> ('v package_version, enat) dict \<Rightarrow> nat \<Rightarrow> 'v package_version
   \<Rightarrow> string list \<times> 'v package_version set \<Rightarrow> 'v resolver_error + (string list \<times> 'v package_version set)" where
  "make_lines 0 ver_str g d k p st = Inl OutOfFuel"
| "make_lines (Suc n) ver_str g d k p st =
     (let (lines, seen) = st; lines' = lines @ [rg_line ver_str p k] in
      if already_seen d seen p k then Inr (lines', seen)
      else rbind (edges_of g p)
        (\<lambda>qs. rfold (make_lines n ver_str g d (Suc k)) qs (lines', insert p seen)))"

definition rg_run ::
  "nat \<Rightarrow> ('v \<Rightarrow> string) \<Rightarrow> 'v::linorder result_graph \<Rightarrow> 'v resolver_error + (string list \<times> 'v result_graph)" where
  "rg_run n ver_str G =
     (if rg_has_run G then Inr (rg_lines G, G)
      else rbind (rfold (find_minimum_depths n (rg_dependency_graph G) 1)
                    (map snd (rg_direct_dependencies G)) (rg_depth G))
        (\<lambda>d. rmap (\<lambda>(lines, seen). (lines, G\<lparr>rg_depth := d, rg_seen := seen, rg_lines := lines, rg_has_run := True\<rparr>))
           (rfold (make_lines n ver_str (rg_dependency_graph G) d 1)
              (sort (map snd (rg_direct_dependencies G))) (rg_lines G, rg_seen G))))"

definition get_result_text ::
  "nat \<Rightarrow> ('v \<Rightarrow> string) \<Rightarrow> 'v::linorder result_graph \<Rightarrow> 'v resolver_error + (string \<times> 'v result_graph)" where
  "get_result_text n ver_str G = rmap (\<lambda>(lines, G'). (str_join newline (rg_lines G'), G')) (rg_run n ver_str G)"

section \<open>The resolver's result graph\<close>

definition chosen_version :: "(string, 'v package_version) dict \<Rightarrow> string \<Rightarrow> 'v resolver_error + 'v package_version" where
  "chosen_version res p = (case map_of res p of None \<Rightarrow> Inl (PyErr KeyError) | Some v \<Rightarrow> Inr v)"

definition result_dependencies_of ::
  "'v::linorder graph_ops \<Rightarrow> (string, 'v package_version) dict \<Rightarrow> 'v package_version
   \<Rightarrow> ('v package_version, 'v package_version list) dict \<times> 'v config
   \<Rightarrow> 'v resolver_error + (('v package_version, 'v package_version list) dict \<times> 'v config)" where
  "result_dependencies_of ops res v = (\<lambda>(g, c).
     rbind (cfg_dependencies_for ops v c)
       (\<lambda>(deps, c'). rmap (\<lambda>vs. (AList.update v (sort vs) g, c')) (rmap_list (chosen_version res) (dict_keys deps))))"

definition resolver_result_graph ::
  "'v::linorder graph_ops \<Rightarrow> 'v resolver \<Rightarrow> 'v resolver_error + 'v result_graph" where
  "resolver_result_graph ops R =
     (let ds = decisions (r_solution R);
          res = fold (\<lambda>v. AList.update (pv_subject v) v) ds []
      in rbind (rfold (result_dependencies_of ops res) ds ([], r_config R))
        (\<lambda>(g, c). rmap (\<lambda>vs. new_result_graph g (zip (dict_keys (cfg_dependencies c)) vs))
           (rmap_list (chosen_version res) (dict_keys (cfg_dependencies c)))))"

section \<open>Shortest paths\<close>

text \<open>\<open>path_depth g roots k p\<close>: a path of \<open>k\<close> package versions leads from a root to \<open>p\<close>.\<close>

fun path_depth ::
  "('v package_version, 'v package_version list) dict \<Rightarrow> 'v package_version set \<Rightarrow> nat \<Rightarrow> 'v package_version set" where
  "path_depth g roots 0 = {}"
| "path_depth g roots (Suc 0) = roots"
| "path_depth g roots (Suc (Suc k)) = (\<Union>p \<in> path_depth g roots (Suc k). set (the (map_of g p)))"

definition closed_graph :: "('v package_version, 'v package_version list) dict \<Rightarrow> bool" where
  "closed_graph g \<longleftrightarrow> (\<forall>(p, qs) \<in> set g. set qs \<subseteq> fst ` set g)"

definition edges_settled ::
  "('v package_version, 'v package_version list) dict \<Rightarrow> ('v package_version \<Rightarrow> enat) \<Rightarrow> 'v package_version \<Rightarrow> bool" where
  "edges_settled g d p \<longleftrightarrow> (\<forall>q \<in> set (the (map_of g p)). d q \<le> d p + 1)"

text \<open>
  \<open>relaxes g d d'\<close>: depths only decrease, and the edges of every package version whose depth
  changed are settled afterwards.
\<close>

definition relaxes ::
  "('v package_version, 'v package_version list) dict \<Rightarrow> ('v package_version \<Rightarrow> enat) \<Rightarrow> ('v package_version \<Rightarrow> enat) \<Rightarrow> bool" where
  "relaxes g d d' \<longleftrightarrow> (\<forall>x. d' x \<le> d x) \<and> (\<forall>x. d' x = d x \<or> edges_settled g d' x)"

lemma relaxes_refl: "relaxes g d d"
  by (simp add: relaxes_def)

lemma relaxes_trans:
  assumes "relaxes g a b" "relaxes g b c"
  shows "relaxes g a c"
proof -
  have le: "b x \<le> a x" "c x \<le> b x" for x using assms by (auto simp: relaxes_def)
  have "c x = a x \<or> edges_settled g c x" for x
  proof (cases "c x = b x")
    case True
    then show ?thesis
      using assms(1) le(2) order_trans unfolding relaxes_def edges_settled_def by (metis (no_types, lifting))
  next
    case False
    then show ?thesis using assms(2) by (auto simp: relaxes_def)
  qed
  then show ?thesis using le order_trans unfolding relaxes_def by blast
qed

lemma depth_of_update [simp]: "depth_of (AList.update p k d) = (depth_of d)(p := k)"
  by (auto simp: depth_of_def fun_eq_iff)

lemma edges_of_closed:
  assumes "closed_graph g" "p \<in> fst ` set g"
  obtains qs where "edges_of g p = Inr qs" "the (map_of g p) = qs" "set qs \<subseteq> fst ` set g"
proof -
  obtain qs where qs: "map_of g p = Some qs" using assms(2) by (metis domD dom_map_of_conv_image_fst)
  then have "set qs \<subseteq> fst ` set g" using assms(1) map_of_SomeD [OF qs] by (auto simp: closed_graph_def)
  then show thesis using qs by (intro that [of qs]) (simp_all add: edges_of_def)
qed

text \<open>A loop of relaxations, for any body that relaxes and reaches its own target.\<close>

lemma relax_loop:
  assumes "\<And>q d. q \<in> set qs \<Longrightarrow> P d \<Longrightarrow>
      \<exists>d'. f q d = Inr d' \<and> P d' \<and> relaxes g (depth_of d) (depth_of d') \<and> depth_of d' q \<le> k"
    and "P d"
  shows "\<exists>d'. rfold f qs d = Inr d' \<and> P d' \<and> relaxes g (depth_of d) (depth_of d') \<and> (\<forall>q \<in> set qs. depth_of d' q \<le> k)"
  using assms
proof (induction qs arbitrary: d)
  case Nil
  then show ?case by (simp add: relaxes_refl)
next
  case (Cons q qs)
  obtain d1 where d1: "f q d = Inr d1" "P d1" "relaxes g (depth_of d) (depth_of d1)" "depth_of d1 q \<le> k"
    using Cons.prems(1) [of q d] Cons.prems(2) by auto
  obtain d2 where d2: "rfold f qs d1 = Inr d2" "P d2" "relaxes g (depth_of d1) (depth_of d2)" "\<forall>q \<in> set qs. depth_of d2 q \<le> k"
    using Cons.IH [OF _ d1(2)] Cons.prems(1) by (metis list.set_intros(2))
  have "depth_of d2 q \<le> k" using d1(4) d2(3) order_trans by (auto simp: relaxes_def)
  then show ?case using d1 d2 relaxes_trans [OF d1(3) d2(3)] by auto
qed

text \<open>The package versions deeper than a level, which bound the recursion.\<close>

definition deeper ::
  "('v package_version, 'v package_version list) dict \<Rightarrow> ('v package_version, enat) dict \<Rightarrow> nat \<Rightarrow> 'v package_version set" where
  "deeper g d k = {x \<in> fst ` set g. enat k < depth_of d x}"

lemma finite_deeper [simp]: "finite (deeper g d k)"
  by (simp add: deeper_def)

lemma find_minimum_depths_ok:
  assumes "closed_graph g" "p \<in> fst ` set g" "card (deeper g d k) < n"
  shows "\<exists>d'. find_minimum_depths n g k p d = Inr d' \<and> relaxes g (depth_of d) (depth_of d') \<and> depth_of d' p \<le> enat k"
  using assms(2,3)
proof (induction n arbitrary: k p d)
  case (Suc n)
  show ?case
  proof (cases "depth_of d p \<le> enat k")
    case True
    then show ?thesis by (simp add: relaxes_refl)
  next
    case deep: False
    obtain qs where qs: "edges_of g p = Inr qs" "the (map_of g p) = qs" "set qs \<subseteq> fst ` set g"
      by (rule edges_of_closed [OF assms(1) Suc.prems(1)])
    define d0 where "d0 = AList.update p (min (depth_of d p) (enat k)) d"
    have d0: "depth_of d0 = (depth_of d)(p := enat k)" using deep by (simp add: d0_def min_def)
    let ?P = "\<lambda>e. (\<forall>x. depth_of e x \<le> depth_of d0 x)"
    have fuel: "card (deeper g e (Suc k)) < n" if "?P e" for e
    proof -
      have "deeper g e (Suc k) \<subseteq> deeper g d k - {p}"
      proof
        fix x assume x: "x \<in> deeper g e (Suc k)"
        then have k: "enat k < depth_of e x" by (auto simp: deeper_def intro: order_less_trans [rotated])
        then have "enat k < depth_of d0 x" using that by (meson order_less_le_trans)
        then show "x \<in> deeper g d k - {p}" using x d0 by (cases "x = p") (auto simp: deeper_def)
      qed
      moreover have "p \<in> deeper g d k" using deep Suc.prems(1) by (simp add: deeper_def)
      ultimately have "card (deeper g e (Suc k)) < card (deeper g d k)"
        by (intro psubset_card_mono) auto
      then show ?thesis using Suc.prems(2) by simp
    qed
    have "\<exists>d'. find_minimum_depths n g (Suc k) q e = Inr d' \<and> ?P d' \<and> relaxes g (depth_of e) (depth_of d')
        \<and> depth_of d' q \<le> enat (Suc k)" if qe: "q \<in> set qs" "?P e" for q e
    proof -
      obtain d' where d': "find_minimum_depths n g (Suc k) q e = Inr d'" "relaxes g (depth_of e) (depth_of d')"
        "depth_of d' q \<le> enat (Suc k)"
        using Suc.IH [of q e "Suc k"] qe(1) qs(3) fuel [OF qe(2)] by blast
      moreover have "?P d'" using d'(2) qe(2) order_trans unfolding relaxes_def by blast
      ultimately show ?thesis by blast
    qed
    then obtain d' where d': "rfold (find_minimum_depths n g (Suc k)) qs d0 = Inr d'" "?P d'"
      "relaxes g (depth_of d0) (depth_of d')" "\<forall>q \<in> set qs. depth_of d' q \<le> enat (Suc k)"
      using relax_loop [where P = ?P and f = "find_minimum_depths n g (Suc k)" and d = d0 and g = g and k = "enat (Suc k)" and qs = qs]
      by blast
    have "relaxes g (depth_of d) (depth_of d')"
    proof -
      have le: "depth_of d0 x \<le> depth_of d x" for x using d0 deep by (cases "x = p") auto
      have p: "edges_settled g (depth_of d') p"
      proof (cases "depth_of d' p = depth_of d0 p")
        case True
        then show ?thesis using d'(4) d0 qs(2) by (simp add: edges_settled_def plus_1_eSuc eSuc_enat)
      next
        case False
        then show ?thesis using d'(3) by (auto simp: relaxes_def)
      qed
      have "depth_of d' x = depth_of d x \<or> edges_settled g (depth_of d') x" for x
      proof -
        have "depth_of d' x = depth_of d0 x \<or> edges_settled g (depth_of d') x" using d'(3) by (simp add: relaxes_def)
        then show ?thesis using p d0 by (cases "x = p") auto
      qed
      then show ?thesis using d'(2) le order_trans unfolding relaxes_def by blast
    qed
    moreover have "depth_of d' p \<le> enat k" using d'(2) d0 by (metis fun_upd_same)
    ultimately show ?thesis using deep qs(1) d'(1) by (simp add: d0_def)
  qed
qed simp

text \<open>Depths stay lengths of paths.\<close>

definition path_sound ::
  "('v package_version, 'v package_version list) dict \<Rightarrow> 'v package_version set \<Rightarrow> ('v package_version, enat) dict \<Rightarrow> bool" where
  "path_sound g roots d \<longleftrightarrow> (\<forall>x. depth_of d x = \<infinity> \<or> (\<exists>k. depth_of d x = enat k \<and> x \<in> path_depth g roots k))"

lemma path_soundD: "path_sound g roots d \<Longrightarrow> depth_of d x = enat k \<Longrightarrow> x \<in> path_depth g roots k"
  unfolding path_sound_def by (metis enat.distinct(1) enat.inject)

lemma path_depth_Suc: "p \<in> path_depth g roots k \<Longrightarrow> q \<in> set (the (map_of g p)) \<Longrightarrow> q \<in> path_depth g roots (Suc k)"
  by (cases k) auto

lemma path_sound_update:
  "path_sound g roots d \<Longrightarrow> p \<in> path_depth g roots k \<Longrightarrow> path_sound g roots (AList.update p (min (depth_of d p) (enat k)) d)"
  by (auto simp: path_sound_def min_def)

lemma find_minimum_depths_sound:
  assumes "find_minimum_depths n g k p d = Inr d'" "path_sound g roots d" "p \<in> path_depth g roots k"
  shows "path_sound g roots d'"
  using assms
proof (induction n arbitrary: k p d d')
  case (Suc n)
  show ?case
  proof (cases "depth_of d p \<le> enat k")
    case True
    then show ?thesis using Suc.prems by simp
  next
    case False
    then obtain qs where qs: "edges_of g p = Inr qs"
      "rfold (find_minimum_depths n g (Suc k)) qs (AList.update p (min (depth_of d p) (enat k)) d) = Inr d'"
      using Suc.prems(1) by auto
    show ?thesis
    proof (rule rfold_invariant [OF qs(2), where P = "path_sound g roots"])
      show "path_sound g roots (AList.update p (min (depth_of d p) (enat k)) d)"
        by (rule path_sound_update [OF Suc.prems(2,3)])
    next
      fix q e e' assume "q \<in> set qs" "path_sound g roots e" "find_minimum_depths n g (Suc k) q e = Inr e'"
      moreover from this(1) have "q \<in> path_depth g roots (Suc k)"
        using qs(1) by (intro path_depth_Suc [OF Suc.prems(3)]) (auto simp: edges_of_def split: option.splits)
      ultimately show "path_sound g roots e'" using Suc.IH by blast
    qed
  qed
qed simp

lemma settled_path:
  assumes "\<And>x. edges_settled g d x" "\<And>r. r \<in> roots \<Longrightarrow> d r \<le> 1" "p \<in> path_depth g roots k"
  shows "d p \<le> enat k"
  using assms(3)
proof (induction k arbitrary: p)
  case (Suc k)
  show ?case
  proof (cases k)
    case 0
    then show ?thesis using Suc.prems assms(2) by (simp add: one_enat_def)
  next
    case (Suc j)
    then obtain x where x: "x \<in> path_depth g roots k" "p \<in> set (the (map_of g x))" using Suc.prems by auto
    have "d p \<le> d x + 1" using assms(1) x(2) by (simp add: edges_settled_def)
    also have "\<dots> \<le> enat k + 1" using Suc.IH [OF x(1)] by (intro add_right_mono)
    finally show ?thesis by (simp add: plus_1_eSuc eSuc_enat)
  qed
qed simp

definition shortest :: "('v package_version, 'v package_version list) dict \<Rightarrow> 'v package_version set \<Rightarrow> 'v package_version \<Rightarrow> enat" where
  "shortest g roots p = (if \<exists>k. p \<in> path_depth g roots k then enat (LEAST k. p \<in> path_depth g roots k) else \<infinity>)"

lemma card_deeper_less: "length g < n \<Longrightarrow> card (deeper g d k) < n"
proof -
  assume "length g < n"
  moreover have "card (deeper g d k) \<le> card (fst ` set g)" by (rule card_mono) (auto simp: deeper_def)
  moreover have "card (fst ` set g) \<le> length g" by (metis card_length length_map set_map)
  ultimately show ?thesis by simp
qed

lemma minimum_depths_loop:
  assumes g: "closed_graph g" and r: "set rs \<subseteq> fst ` set g" and n: "length g < n"
  shows "\<exists>d. rfold (find_minimum_depths n g 1) rs [] = Inr d \<and> (\<forall>x. edges_settled g (depth_of d) x)
    \<and> (\<forall>p. depth_of d p = shortest g (set rs) p)"
proof -
  have "\<exists>d'. rfold (find_minimum_depths n g 1) rs [] = Inr d' \<and> True \<and> relaxes g (depth_of []) (depth_of d')
      \<and> (\<forall>q \<in> set rs. depth_of d' q \<le> enat 1)"
  proof (rule relax_loop [where P = "\<lambda>_. True"])
    fix q d assume "q \<in> set rs"
    then have "q \<in> fst ` set g" using r by blast
    from find_minimum_depths_ok [OF g this card_deeper_less [OF n, of d 1]]
    show "\<exists>d'. find_minimum_depths n g 1 q d = Inr d' \<and> True \<and> relaxes g (depth_of d) (depth_of d') \<and> depth_of d' q \<le> enat 1"
      by simp
  qed simp
  then obtain d where d: "rfold (find_minimum_depths n g 1) rs [] = Inr d" "relaxes g (depth_of []) (depth_of d)"
    "\<forall>q \<in> set rs. depth_of d q \<le> 1" unfolding one_enat_def [symmetric] by blast
  have settled: "edges_settled g (depth_of d) x" for x
  proof (cases "depth_of d x = \<infinity>")
    case True
    then show ?thesis by (simp add: edges_settled_def)
  next
    case False
    moreover have "depth_of [] x = \<infinity>" by (simp add: depth_of_def)
    moreover have "depth_of d x = depth_of [] x \<or> edges_settled g (depth_of d) x" using d(2) unfolding relaxes_def by (elim conjE allE)
    ultimately show ?thesis by argo
  qed
  have sound: "path_sound g (set rs) d"
  proof (rule rfold_invariant [OF d(1), where P = "path_sound g (set rs)"])
    show "path_sound g (set rs) []" by (simp add: path_sound_def depth_of_def)
  next
    fix q e e' assume q: "q \<in> set rs" "path_sound g (set rs) e" "find_minimum_depths n g 1 q e = Inr e'"
    show "path_sound g (set rs) e'" by (rule find_minimum_depths_sound [OF q(3,2)]) (simp add: q(1))
  qed
  have "depth_of d p = shortest g (set rs) p" for p
  proof (cases "\<exists>k. p \<in> path_depth g (set rs) k")
    case True
    define l where "l = (LEAST k. p \<in> path_depth g (set rs) k)"
    have l: "p \<in> path_depth g (set rs) l" using True unfolding l_def by (rule LeastI_ex)
    have le: "depth_of d p \<le> enat l" using settled_path [OF settled _ l] d(3) by blast
    then obtain k where k: "depth_of d p = enat k" by (cases "depth_of d p") auto
    then have "l \<le> k" using path_soundD [OF sound k] unfolding l_def by (intro Least_le)
    then show ?thesis using k le True by (simp add: shortest_def l_def)
  next
    case False
    then show ?thesis using sound by (auto simp: shortest_def path_sound_def)
  qed
  then show ?thesis using d(1) settled by blast
qed

section \<open>Printing\<close>









section \<open>Properties\<close>

text \<open>A graph with a cycle, for concrete runs: the example of the class's documentation.\<close>

definition cyclic_graph :: "(nat package_version, nat package_version list) dict" where
  "cyclic_graph = [(pv ''a'' 1, [pv ''b'' 1]), (pv ''b'' 1, [pv ''a'' 1, pv ''c'' 1]), (pv ''c'' 1, [])]"

definition cyclic_direct :: "(string, nat package_version) dict" where
  "cyclic_direct = [(''a'', pv ''a'' 1)]"

lemma cyclic_graph_closed: "closed_graph cyclic_graph" "set (map snd cyclic_direct) \<subseteq> fst ` set cyclic_graph" "length cyclic_graph < 4"
  by (simp_all add: closed_graph_def cyclic_graph_def cyclic_direct_def)

text \<open>
  C22. \<open>_find_minimum_depths\<close>, called for every direct dependency, ends on every graph that
  is closed under its edges, cyclic or not, and leaves as the depth of each package version
  the length of the shortest path to it from a direct dependency, infinity where there is none.
\<close>

theorem minimum_depths_shortest:
  assumes "closed_graph g" "set (map snd direct) \<subseteq> fst ` set g" "length g < n"
  shows "\<exists>d. rfold (find_minimum_depths n g 1) (map snd direct) [] = Inr d
    \<and> (\<forall>p. depth_of d p = shortest g (set (map snd direct)) p)"
  using minimum_depths_loop [OF assms] by blast

theorem minimum_depths_shortest_witness:
  "\<exists>d. rfold (find_minimum_depths 4 cyclic_graph 1) (map snd cyclic_direct) [] = Inr d
    \<and> (\<forall>p. depth_of d p = shortest cyclic_graph (set (map snd cyclic_direct)) p)"
  by (rule minimum_depths_shortest [OF cyclic_graph_closed])



end
