(* ===== verification/Resolve_Json.thy ===== *)
theory Resolve_Json
  imports Result_Graph List_Sort
begin

text \<open>
  The JSON views of a finished resolve (\<open>satresolver/resolve_graph_to_json.py\<close>): nodes, edges
  and groups of the whole dependency graph for drawing, and the list of chosen releases with
  their dependency edges. A JSON object is a record with the keys of the code; \<open>y_scale\<close> is
  the pair of the numerator and the denominator of the division the code does. The keys of the
  dependency map, the root among them, are sorted with the code's own comparison.
\<close>

section \<open>Operations\<close>

definition register_derived :: "'v assignment \<Rightarrow> 'v partial_solution \<Rightarrow> py_error + 'v partial_solution" where
  "register_derived a S = (if is_decision a then Inr S else register a S)"

definition add_allowed :: "string \<times> 'v tm option \<Rightarrow> 'v package_version set \<Rightarrow> py_error + 'v package_version set" where
  "add_allowed = (\<lambda>(p, x) acc. case x of None \<Rightarrow> Inl AttributeError | Some t \<Rightarrow> rmap (\<lambda>vs. acc \<union> vs) (allowed_versions t))"

definition get_allowed_versions :: "'v assignment list \<Rightarrow> py_error + 'v package_version set" where
  "get_allowed_versions as =
     rbind (rfold register_derived as empty_solution) (\<lambda>S. rfold add_allowed (ps_terms S) {})"

definition get_depth_by_package ::
  "nat \<Rightarrow> ('v \<Rightarrow> string) \<Rightarrow> 'v::linorder graph_ops \<Rightarrow> 'v resolver \<Rightarrow> 'v resolver_error + (enat \<times> (string, enat) dict)" where
  "get_depth_by_package n ver_str ops R =
     rbind (resolver_result_graph ops R) (\<lambda>G. rbind (rg_run n ver_str G) (\<lambda>(lines, G').
       if rg_depth G' = [] then Inl (PyErr ValueError)
       else Inr (Max (set (map snd (rg_depth G'))),
                 fold (\<lambda>(v, k). AList.update (pv_subject v) k) (rg_depth G') [])))"

record 'v json_node =
  jn_id :: string
  jn_package_version :: string
  jn_package_name :: string
  jn_version :: "'v option"
  jn_y_scale :: "enat \<times> enat"
  jn_in_solution :: bool
  jn_is_incompatible :: bool
  jn_index :: nat

text \<open>The version of the root is the empty string, which the version type need not have: \<open>None\<close>.\<close>

fun node_version :: "'v package_version \<Rightarrow> 'v option" where
  "node_version ROOT = None"
| "node_version (PackageVersion n v) = Some v"

definition python_interpreter :: string where
  "python_interpreter = ''PythonInterpreter''"

definition index_in :: "'a list \<Rightarrow> 'a \<Rightarrow> nat" where
  "index_in xs x = length (takeWhile (\<lambda>y. y \<noteq> x) xs)"

definition json_node_of ::
  "('v \<Rightarrow> string) \<Rightarrow> 'v::linorder package_version list \<Rightarrow> 'v package_version set \<Rightarrow> 'v package_version list
   \<Rightarrow> enat \<Rightarrow> (string, enat) dict \<Rightarrow> 'v package_version \<Rightarrow> 'v json_node" where
  "json_node_of ver_str sorted_packages allowed res max_depth depths v =
     \<lparr>jn_id = pv_str ver_str v, jn_package_version = pv_str ver_str v, jn_package_name = pv_subject v,
      jn_version = node_version v,
      jn_y_scale = (case map_of depths (pv_subject v) of None \<Rightarrow> 0 | Some k \<Rightarrow> k, max_depth),
      jn_in_solution = (v \<in> set res \<or> v = ROOT),
      jn_is_incompatible = (v \<notin> allowed \<and> v \<noteq> ROOT),
      jn_index = index_in sorted_packages v\<rparr>"

definition json_nodes ::
  "('v \<Rightarrow> string) \<Rightarrow> 'v::linorder package_version list \<Rightarrow> 'v package_version list \<Rightarrow> 'v package_version set \<Rightarrow> 'v package_version list
   \<Rightarrow> enat \<Rightarrow> (string, enat) dict \<Rightarrow> 'v json_node list" where
  "json_nodes ver_str sorted_packages package_versions allowed res max_depth depths =
     sort_key jn_index
       (map (json_node_of ver_str sorted_packages allowed res max_depth depths)
          (filter (\<lambda>v. pv_subject v \<noteq> python_interpreter) package_versions))"

text \<open>
  The source of an edge is compared with the class \<open>RootConstraint\<close>, which equals no package
  version; the text of the root is \<open>__ROOT__\<close> either way. Sets are listed in increasing order.
\<close>

definition json_edges :: "('v \<Rightarrow> string) \<Rightarrow> ('v::linorder package_version, 'v dependencies) dict \<Rightarrow> (string \<times> string) list" where
  "json_edges ver_str dep_map =
     concat (map (\<lambda>(v, deps). map (\<lambda>w. (pv_str ver_str v, pv_str ver_str w))
       (concat (map (\<lambda>(n, vs). sorted_list_of_set vs) deps))) dep_map)"

definition json_groups :: "('v \<Rightarrow> string) \<Rightarrow> (string, 'v::linorder package_version set) dict \<Rightarrow> string list list" where
  "json_groups ver_str pkgs =
     [root_name] # map (\<lambda>(n, vs). sort (map (pv_str ver_str) (sorted_list_of_set vs)))
       (filter (\<lambda>(n, vs). n \<noteq> python_interpreter \<and> vs \<noteq> {}) pkgs)"

definition resolve_graph_to_json ::
  "nat \<Rightarrow> ('v \<Rightarrow> string) \<Rightarrow> 'v::linorder graph_ops \<Rightarrow> 'v resolver
   \<Rightarrow> 'v resolver_error + ('v json_node list \<times> (string \<times> string) list \<times> string list list)" where
  "resolve_graph_to_json n ver_str ops R =
     rbind (rlift PyErr (get_allowed_versions (ps_assignments (r_solution R)))) (\<lambda>allowed.
       rbind (get_depth_by_package n ver_str ops R) (\<lambda>(max_depth, depths).
         let dep_map = dependency_map (cfg_graph (r_config R)) in
         rmap (\<lambda>sorted_packages.
             (json_nodes ver_str sorted_packages (dict_keys dep_map) allowed (result R) max_depth depths,
              json_edges ver_str dep_map,
              json_groups ver_str (packages (cfg_graph (r_config R)))))
           (rlift PyErr (pv_sorted (dict_keys dep_map)))))"

record json_release =
  jr_project_name :: string
  jr_version :: string
  jr_sha256 :: "string option"

text \<open>\<open>sha256\<close> is the digest, in hexadecimal, of a package version that has one.\<close>

definition resolve_result_to_json ::
  "('v \<Rightarrow> string) \<Rightarrow> ('v package_version \<Rightarrow> string option) \<Rightarrow> 'v::linorder graph_ops \<Rightarrow> 'v resolver
   \<Rightarrow> 'v resolver_error + (json_release list \<times> (string \<times> string) list)" where
  "resolve_result_to_json ver_str sha256 ops R =
     rmap (\<lambda>edges.
         (map (\<lambda>v. \<lparr>jr_project_name = pv_subject v,
                    jr_version = (case v of ROOT \<Rightarrow> '''' | PackageVersion n w \<Rightarrow> ver_str w),
                    jr_sha256 = (case sha256 v of None \<Rightarrow> None | Some h \<Rightarrow> if h = [] then None else Some h)\<rparr>)
            (sort (result R)), sort edges))
       (get_dependency_edges_for_result ops R)"

section \<open>Node order\<close>

lemma index_in_nth: "distinct xs \<Longrightarrow> i < length xs \<Longrightarrow> index_in xs (xs ! i) = i"
  by (induction xs arbitrary: i) (auto simp: index_in_def nth_Cons split: nat.splits)

lemma index_in_sorted_mono:
  assumes "distinct xs" "sorted xs" "x \<in> set xs" "y \<in> set xs"
  shows "index_in xs x \<le> index_in xs y \<longleftrightarrow> x \<le> (y :: 'a::linorder)"
proof -
  obtain i j where ij: "i < length xs" "xs ! i = x" "j < length xs" "xs ! j = y"
    using assms(3,4) by (metis in_set_conv_nth)
  then have "index_in xs x = i" "index_in xs y = j" using assms(1) index_in_nth by blast+
  then show ?thesis using ij assms(1,2)
    by (metis antisym linorder_linear nth_eq_iff_index_eq sorted_nth_mono)
qed

section \<open>Properties\<close>

text \<open>
  The nodes of the drawn graph are one per package version of the dependency map, the
  Python interpreter apart, in the increasing order of the package versions. The root is the
  last key of the map, as \<open>build_transitive_dependency_map\<close> of the base graph leaves it; were it
  the first of several, the sort would raise (\<open>pv_sorted_root_first\<close>).
\<close>

theorem json_nodes_sorted:
  assumes "distinct vs" "ROOT \<notin> set (butlast vs)"
  shows "rmap (\<lambda>sorted_packages. json_nodes ver_str sorted_packages vs allowed res max_depth depths) (pv_sorted vs) =
    Inr (map (json_node_of ver_str (sort vs) allowed res max_depth depths)
      (sort (filter (\<lambda>v. pv_subject v \<noteq> python_interpreter) vs)))"
proof -
  let ?f = "json_node_of ver_str (sort vs) allowed res max_depth depths"
  let ?ys = "filter (\<lambda>v. pv_subject v \<noteq> python_interpreter) vs"
  have idx: "jn_index (?f v) = index_in (sort vs) v" for v by (simp add: json_node_of_def)
  have mono: "index_in (sort vs) v \<le> index_in (sort vs) w \<longleftrightarrow> v \<le> w" if "v \<in> set ?ys" "w \<in> set ?ys" for v w
    using that assms(1) by (intro index_in_sorted_mono) simp_all
  have "sort_key jn_index (map ?f ?ys) = map ?f (sort ?ys)"
  proof (rule sort_key_inj_key_eq)
    show "mset (map ?f ?ys) = mset (map ?f (sort ?ys))" by simp
    show "inj_on jn_index (set (map ?f ?ys))"
    proof (rule inj_onI)
      fix a b assume ab: "a \<in> set (map ?f ?ys)" "b \<in> set (map ?f ?ys)" "jn_index a = jn_index b"
      then obtain v w where vw: "v \<in> set ?ys" "a = ?f v" "w \<in> set ?ys" "b = ?f w" by (auto simp del: set_filter)
      then have "v \<le> w" "w \<le> v" using mono ab(3) by (simp_all add: idx del: set_filter flip: mono)
      then show "a = b" using vw by simp
    qed
    have "sorted_wrt (\<lambda>v w. index_in (sort vs) v \<le> index_in (sort vs) w) (sort ?ys)"
      by (rule sorted_wrt_mono_rel [where P = "(\<le>)"]) (use mono in auto)
    then show "sorted (map jn_index (map ?f (sort ?ys)))" by (simp add: sorted_map idx comp_def)
  qed
  then show ?thesis using pv_sorted_root_last [OF assms(2)] by (simp add: rmap_def json_nodes_def)
qed

theorem json_nodes_sorted_witness:
  "rmap (\<lambda>sorted_packages. json_nodes (\<lambda>v. []) sorted_packages [pv ''b'' 1, pv ''a'' 1, ROOT] {} [] 1 [])
      (pv_sorted [pv ''b'' 1, pv ''a'' 1, ROOT]) =
    Inr (map (json_node_of (\<lambda>v. []) (sort [pv ''b'' 1, pv ''a'' 1, ROOT]) {} [] 1 [])
      (sort (filter (\<lambda>v. pv_subject v \<noteq> python_interpreter) [pv ''b'' 1, pv ''a'' 1, ROOT])))"
  by (rule json_nodes_sorted) simp_all

end
