(* ===== verification/Resolve_Report.thy ===== *)
theory Resolve_Report
  imports Resolver
begin

text \<open>
  The explanation of a failed resolve (\<open>satresolver/report.py\<close>): a walk over the derivation
  of an incompatibility, from its \<open>ConflictCause\<close> to the incompatibilities it rests on, that
  writes one line per derived incompatibility. \<open>ver_str\<close> is \<open>str\<close> on versions and \<open>repr\<close>
  is \<open>__repr__\<close> of an incompatibility, as in \<open>incompatibility_str\<close>.
\<close>

section \<open>State and operations\<close>

record 'v report =
  rp_incompatibility :: "'v incompatibility"
  rp_line_numbers :: "('v incompatibility, nat) dict"
  rp_lines :: "(string \<times> nat option) list"
  rp_derivations :: "('v incompatibility, nat) dict"

definition new_report :: "'v incompatibility \<Rightarrow> 'v report" where
  "new_report i = \<lparr>rp_incompatibility = i, rp_line_numbers = [], rp_lines = [], rp_derivations = []\<rparr>"

fun is_conflict_cause :: "'v incompatibility cause \<Rightarrow> bool" where
  "is_conflict_cause (ConflictCause c d) = True"
| "is_conflict_cause _ = False"

text \<open>\<open>__repr__\<close> of a cause; the text of an exception is its message.\<close>

fun package_error_str :: "package_error \<Rightarrow> string" where
  "package_error_str (PackageError m n) = m"
| "package_error_str (PackageNotFoundError m n) = m"
| "package_error_str (VersionNotFoundError m n vs) = m"
| "package_error_str (InvalidRequirementsError r e) = ''Could not parse requirement \"'' @ str_lower r @ ''\"''"

fun cause_repr ::
  "('v \<Rightarrow> string) \<Rightarrow> ('v incompatibility \<Rightarrow> string) \<Rightarrow> 'v::linorder incompatibility cause \<Rightarrow> py_error + string" where
  "cause_repr ver_str repr RootCause = Inr ''RootCause''"
| "cause_repr ver_str repr DependencyCause = Inr ''DependencyCause''"
| "cause_repr ver_str repr UseLatestCause = Inr ''UseLatestCause''"
| "cause_repr ver_str repr UseLockedCause = Inr ''UseLockedCause''"
| "cause_repr ver_str repr NoVersionsCause = Inr ''NoVersionsCause''"
| "cause_repr ver_str repr (PackageNotFoundCause e) =
     Inr (''PackageNotFoundCause('' @ (case e of None \<Rightarrow> ''None'' | Some x \<Rightarrow> package_error_str x) @ '')'')"
| "cause_repr ver_str repr (ConflictCause c d) =
     rbind (incompatibility_str ver_str repr c) (\<lambda>s. rmap (\<lambda>t. ''ConflictCause('' @ s @ '', '' @ t @ '')'')
       (incompatibility_str ver_str repr d))"
| "cause_repr ver_str repr (IncompatibilityCause i) =
     rmap (\<lambda>s. ''IncompatibilityCause('' @ s @ '')'') (incompatibility_str ver_str repr i)"
| "cause_repr ver_str repr OverrideCause = Inr ''OverrideCause''"

definition is_single_line :: "'v incompatibility cause \<Rightarrow> bool" where
  "is_single_line c = (\<not> is_conflict_cause (cause (conflict c)) \<and> \<not> is_conflict_cause (cause (other c)))"

definition write_line :: "'v incompatibility \<Rightarrow> string \<Rightarrow> bool \<Rightarrow> 'v report \<Rightarrow> 'v report" where
  "write_line i message numbered r =
     (if numbered then
        (let number = length (rp_line_numbers r) + 1 in
         r\<lparr>rp_line_numbers := AList.update i number (rp_line_numbers r),
           rp_lines := rp_lines r @ [(message, Some number)]\<rparr>)
      else r\<lparr>rp_lines := rp_lines r @ [(message, None)]\<rparr>)"

definition derivation_count :: "'v report \<Rightarrow> 'v incompatibility \<Rightarrow> nat" where
  "derivation_count r i = (case map_of (rp_derivations r) i of None \<Rightarrow> 0 | Some n \<Rightarrow> n)"

fun count_derivations :: "'v incompatibility \<Rightarrow> 'v report \<Rightarrow> 'v report" where
  "count_derivations (Incompatibility ts (ConflictCause c d)) r =
     (let i = Incompatibility ts (ConflictCause c d);
          r' = (if map_of (rp_derivations r) i = None then count_derivations d (count_derivations c r) else r)
      in r'\<lparr>rp_derivations := AList.update i (derivation_count r' i + 1) (rp_derivations r')\<rparr>)"
| "count_derivations i r =
     r\<lparr>rp_derivations := AList.update i (derivation_count r i + 1) (rp_derivations r)\<rparr>"

text \<open>
  \<open>visit\<close>. Reading \<open>derivations[incompatibility]\<close> of the \<open>defaultdict\<close> creates the key. When
  both causes have a line already, the second \<open>if\<close> runs as well and reads \<open>without_line\<close>,
  which neither of its branches has bound.
\<close>

definition touch_derivation :: "'v incompatibility \<Rightarrow> 'v report \<Rightarrow> 'v report" where
  "touch_derivation i r = r\<lparr>rp_derivations := AList.update i (derivation_count r i) (rp_derivations r)\<rparr>"

definition report_str ::
  "('v \<Rightarrow> string) \<Rightarrow> ('v incompatibility \<Rightarrow> string) \<Rightarrow> 'v::linorder incompatibility \<Rightarrow> py_error + string" where
  "report_str ver_str repr i =
     (if is_failure i then Inr ''version solving failed.'' else incompatibility_str ver_str repr i)"

fun visit ::
  "('v \<Rightarrow> string) \<Rightarrow> ('v incompatibility \<Rightarrow> string) \<Rightarrow> 'v::linorder incompatibility \<Rightarrow> bool \<Rightarrow> 'v report
   \<Rightarrow> py_error + 'v report" where
  "visit ver_str repr (Incompatibility ts (ConflictCause c d)) conclusion r0 =
     (let i = Incompatibility ts (ConflictCause c d);
          str = incompatibility_str ver_str repr;
          numbered = (conclusion \<or> 1 < derivation_count r0 i);
          r = (if conclusion then r0 else touch_derivation i r0);
          conjunction = (if conclusion \<or> i = rp_incompatibility r then ''So,'' else ''And'')
      in rbind (report_str ver_str repr i) (\<lambda>istr.
        if is_conflict_cause (cause c) \<and> is_conflict_cause (cause d) then
          (case (map_of (rp_line_numbers r) c, map_of (rp_line_numbers r) d) of
             (Some l, Some l') \<Rightarrow> rbind (str c) (\<lambda>s. Inl UnboundLocalError)
           | (Some l, None) \<Rightarrow>
               rbind (visit ver_str repr d False r) (\<lambda>r1. rbind (str c) (\<lambda>s. rmap (\<lambda>t.
                 write_line i (conjunction @ '' because '' @ s @ '' '' @ nat_str l @ '', '' @ t) numbered r1) (str i)))
           | (None, Some l) \<Rightarrow>
               rbind (visit ver_str repr c False r) (\<lambda>r1. rbind (str d) (\<lambda>s. rmap (\<lambda>t.
                 write_line i (conjunction @ '' because '' @ s @ '' '' @ nat_str l @ '', '' @ t) numbered r1) (str i)))
           | (None, None) \<Rightarrow>
               if is_single_line (cause d) \<or> is_single_line (cause c) then
                 rbind (visit ver_str repr c False r) (\<lambda>r1. rmap (write_line i (''Thus, '' @ istr) numbered)
                   (visit ver_str repr d False r1))
               else
                 rbind (visit ver_str repr c True r) (\<lambda>r1.
                   rbind (visit ver_str repr d False (r1\<lparr>rp_lines := rp_lines r1 @ [('''', None)]\<rparr>)) (\<lambda>r2.
                     rbind (str c) (\<lambda>s.
                       case map_of (rp_line_numbers r2) c of
                         None \<Rightarrow> Inl KeyError
                       | Some l \<Rightarrow>
                           Inr (write_line i (conjunction @ '' because '' @ s @ '' ('' @ nat_str l @ ''), '' @ istr) False r2)))))
        else if is_conflict_cause (cause c) \<or> is_conflict_cause (cause d) then
          (let derived = (if is_conflict_cause (cause c) then c else d);
               external = (if is_conflict_cause (cause c) then str d else cause_repr ver_str repr (cause c))
           in if map_of (rp_line_numbers r) derived \<noteq> None then
                rbind external (\<lambda>e. rmap (\<lambda>s. write_line i (''Because '' @ e @ '' and '' @ s @ '', '' @ istr) False r) (str derived))
              else
                rbind (if is_conflict_cause (cause c) then visit ver_str repr c False r else visit ver_str repr d False r)
                  (\<lambda>r1. rmap (\<lambda>e. write_line i (conjunction @ '' because '' @ e @ '', '' @ istr) False r1) external))
        else
          rbind (str c) (\<lambda>s. rmap (\<lambda>t. write_line i (''Because '' @ s @ '' and '' @ t @ '', '' @ istr) False r) (str d))))"
| "visit ver_str repr i conclusion r =
     rmap (\<lambda>s. if conclusion then r else touch_derivation i r) (report_str ver_str repr i)"

definition construct_error_message ::
  "('v \<Rightarrow> string) \<Rightarrow> ('v incompatibility \<Rightarrow> string) \<Rightarrow> 'v::linorder report
   \<Rightarrow> py_error + ((string \<times> nat option) list \<times> 'v report)" where
  "construct_error_message ver_str repr r =
     (let i = rp_incompatibility r; r1 = count_derivations i r in
      rmap (\<lambda>r2. (rp_lines r2, r2))
        (if is_conflict_cause (cause i) then visit ver_str repr i False r1
         else rmap (\<lambda>s. write_line i (''Because '' @ s @ '', version solving failed.'') False r1)
           (incompatibility_str ver_str repr i)))"

text \<open>\<open>ResolutionError.get_failure_error_message\<close>.\<close>

definition get_failure_error_message ::
  "('v \<Rightarrow> string) \<Rightarrow> ('v incompatibility \<Rightarrow> string) \<Rightarrow> 'v::linorder incompatibility \<Rightarrow> py_error + string" where
  "get_failure_error_message ver_str repr i =
     rmap (\<lambda>(lines, r). str_join newline (map fst lines)) (construct_error_message ver_str repr (new_report i))"

section \<open>Linear derivations\<close>


fun derived_count :: "'v incompatibility \<Rightarrow> nat" where
  "derived_count (Incompatibility ts (ConflictCause c d)) = 1 + derived_count c + derived_count d"
| "derived_count i = 0"





lemma not_derived_count [simp]: "\<not> is_conflict_cause (cause i) \<Longrightarrow> derived_count i = 0"
  by (cases i rule: derived_count.cases) auto

lemma line_numbers_touch [simp]:
  "rp_line_numbers (touch_derivation i r) = rp_line_numbers r" "rp_lines (touch_derivation i r) = rp_lines r"
  "rp_line_numbers (write_line i m False r) = rp_line_numbers r" "rp_lines (write_line i m False r) = rp_lines r @ [(m, None)]"
  by (simp_all add: touch_derivation_def write_line_def)


lemma count_derivations_frame [simp]:
  "rp_line_numbers (count_derivations i r) = rp_line_numbers r \<and> rp_lines (count_derivations i r) = rp_lines r
   \<and> rp_incompatibility (count_derivations i r) = rp_incompatibility r"
  by (induction i r rule: count_derivations.induct) (simp_all add: Let_def)

section \<open>Properties\<close>

text \<open>Derivations for concrete runs: what the root requires, and resolvents of it.\<close>

definition fact :: "nat incompatibility" where
  "fact = Incompatibility [RootConstraint True, exclude ''a'' {pv ''a'' 1} {pv ''a'' 1}] DependencyCause"

definition derived_once :: "nat incompatibility" where
  "derived_once = Incompatibility [RootConstraint True] (ConflictCause fact fact)"

definition derived_twice :: "nat tm list \<Rightarrow> nat incompatibility" where
  "derived_twice ts = Incompatibility ts (ConflictCause derived_once fact)"

definition branching_failure :: "nat incompatibility" where
  "branching_failure = Incompatibility [RootConstraint True]
     (ConflictCause (derived_twice [RootConstraint True]) (derived_twice [RootConstraint False]))"




text \<open>
  A derivation that branches can make the report raise \<open>KeyError\<close>: when both causes of
  an incompatibility are derived and neither is a single line, the first is visited as a
  conclusion and its number is then read, but a cause with one derived parent is written
  without a number.
\<close>

theorem report_branching_key_error:
  "construct_error_message (\<lambda>v. '''') (\<lambda>i. '''') (new_report branching_failure) = Inl KeyError"
  by code_simp

end
