(* ===== verification/Resolvent.thy ===== *)
theory Resolvent
  imports Conflict_Resolution
begin

text \<open>
  What a learned incompatibility means. \<open>_create_incompatibility_from_conflict\<close> combines two
  incompatibilities into a third; a selection that violates the third should violate one of
  the two. It does when the satisfier is a positive term or the term it satisfies a negative
  one. In the remaining case the difference of the two terms forgets that the package may be
  absent, and the learned incompatibility can exclude a selection that both premises allow.
\<close>

section \<open>Merging is conjunction\<close>






section \<open>Properties\<close>



text \<open>
  C38. In the remaining case conflict resolution is not sound. Two versions of \<open>b\<close> require
  version 2 of \<open>a\<close>; resolving the second requirement against the first, as the code does
  when \<open>b\<close> is known not to be at version 1, learns that version 2 of \<open>a\<close> is always needed,
  although choosing version 1 of \<open>a\<close> and no \<open>b\<close> violates neither requirement.
\<close>

theorem conflict_resolvent_unsound:
  "\<exists>k. create_incompatibility_from_conflict
        (Incompatibility [require ''b'' {pv ''b'' 2} {pv ''b'' 1, pv ''b'' 2}, exclude ''a'' {pv ''a'' 2} {pv ''a'' 1, pv ''a'' 2}] DependencyCause)
        (require ''b'' {pv ''b'' 2} {pv ''b'' 1, pv ''b'' 2})
        \<lparr>a_term = exclude ''b'' {pv ''b'' 1} {pv ''b'' 1, pv ''b'' 2}, a_level = 3, a_index = 5,
         a_cause = Some (IncompatibilityCause
           (Incompatibility [require ''b'' {pv ''b'' 1} {pv ''b'' 1, pv ''b'' 2}, exclude ''a'' {pv ''a'' 2} {pv ''a'' 1, pv ''a'' 2}] DependencyCause))\<rparr>
      = Inr k
    \<and> terms k = [exclude ''a'' {pv ''a'' 2} {pv ''a'' 1, pv ''a'' 2}]
    \<and> (\<exists>\<sigma>. selection (\<lambda>p. {pv p 1, pv p 2}) \<sigma> \<and> violates \<sigma> k
        \<and> \<not> violates \<sigma> (Incompatibility [require ''b'' {pv ''b'' 2} {pv ''b'' 1, pv ''b'' 2}, exclude ''a'' {pv ''a'' 2} {pv ''a'' 1, pv ''a'' 2}] DependencyCause)
        \<and> \<not> violates \<sigma> (Incompatibility [require ''b'' {pv ''b'' 1} {pv ''b'' 1, pv ''b'' 2}, exclude ''a'' {pv ''a'' 2} {pv ''a'' 1, pv ''a'' 2}] DependencyCause))"
proof (intro exI conjI)
  let ?i = "Incompatibility [require ''b'' {pv ''b'' 2} {pv ''b'' 1, pv ''b'' 2}, exclude ''a'' {pv ''a'' 2} {pv ''a'' 1, pv ''a'' 2}] DependencyCause"
  let ?j = "Incompatibility [require ''b'' {pv ''b'' 1} {pv ''b'' 1, pv ''b'' 2}, exclude ''a'' {pv ''a'' 2} {pv ''a'' 1, pv ''a'' 2}] DependencyCause"
  let ?k = "Incompatibility [exclude ''a'' {pv ''a'' 2} {pv ''a'' 1, pv ''a'' 2}] (ConflictCause ?i ?j)"
  let ?sel = "\<lambda>p. if p = root_name then Some ROOT else if p = ''a'' then Some (pv ''a'' 1) else None"
  show "create_incompatibility_from_conflict ?i (require ''b'' {pv ''b'' 2} {pv ''b'' 1, pv ''b'' 2})
      \<lparr>a_term = exclude ''b'' {pv ''b'' 1} {pv ''b'' 1, pv ''b'' 2}, a_level = 3, a_index = 5,
       a_cause = Some (IncompatibilityCause ?j)\<rparr> = Inr ?k"
    by code_simp
  show "terms ?k = [exclude ''a'' {pv ''a'' 2} {pv ''a'' 1, pv ''a'' 2}]" by simp
  show "selection (\<lambda>p. {pv p 1, pv p 2}) ?sel" by (auto simp: selection_def root_name_def)
  show "violates ?sel ?k" "\<not> violates ?sel ?i" "\<not> violates ?sel ?j"
    by (auto simp: violates_def holds_def require_def exclude_def root_name_def)
qed

end
