(* ===== verification/Solver_Correct.thy ===== *)
theory Solver_Correct
  imports Config_Invariant
begin

text \<open>
  The solver as a whole (\<open>_choose_package_version\<close>, \<open>_solve\<close> and \<open>run\<close> of
  \<open>satresolver/core.py\<close>): the invariant of the main loop, that every turn of it makes
  progress, and so that a run on a well-formed graph ends, raises nothing but
  \<open>ResolutionError\<close>, and returns versions that meet each other's requirements.
\<close>

section \<open>The invariant of the main loop\<close>

definition listed_ok ::
  "'v graph_ops \<Rightarrow> ('v package_version \<Rightarrow> (string \<times> 'v package_version set) set) \<Rightarrow> 'v resolver \<Rightarrow> bool" where
  "listed_ok ops req R \<longleftrightarrow>
     (\<forall>v \<in> have_listed (r_config R). \<forall>(n, W) \<in> req v.
        \<exists>i \<in> set (r_incompatibilities R (pv_subject v)). terms i = requirement_terms (av_of ops) v n W)"

definition state_ok ::
  "'v graph_ops \<Rightarrow> string set \<Rightarrow> 'v dependencies \<Rightarrow> (string, 'v package_version list) dict \<Rightarrow> 'v resolver \<Rightarrow> bool" where
  "state_ok ops N direct over R \<longleftrightarrow>
     resolver_ok (av_of ops) N R \<and> config_graph_ok ops direct (r_config R) \<and> overrides (r_config R) = over
     \<and> listed_ok ops (req_of ops direct over) R"

text \<open>What is left to list or to use: it falls in the turns of the loop that keep the trail.\<close>

definition left_over :: "'v graph_ops \<Rightarrow> string set \<Rightarrow> 'v config \<Rightarrow> nat" where
  "left_over ops N c =
     card ((\<Union>n \<in> N. av_of ops n) - have_listed c) + card (should_use_latest c \<inter> N) + card (should_use_locked c \<inter> N)"

lemma left_over_same: "same_config ops direct c c' \<Longrightarrow> left_over ops N c' = left_over ops N c"
  using same_config_fields [of ops direct c c'] by (simp add: left_over_def)

lemma left_over_latest:
  assumes "finite N" "n \<in> N" "n \<in> should_use_latest c"
  shows "left_over ops N (c\<lparr>have_used_latest := insert n (have_used_latest c)\<rparr>) < left_over ops N c"
proof -
  have "should_use_latest (c\<lparr>have_used_latest := insert n (have_used_latest c)\<rparr>) \<inter> N \<subset> should_use_latest c \<inter> N"
    using assms by (auto simp: should_use_latest_def)
  then have "card (should_use_latest (c\<lparr>have_used_latest := insert n (have_used_latest c)\<rparr>) \<inter> N) < card (should_use_latest c \<inter> N)"
    by (rule psubset_card_mono [rotated]) (use assms(1) in simp)
  then show ?thesis by (simp add: left_over_def should_use_locked_def)
qed

lemma left_over_locked:
  assumes "finite N" "n \<in> N" "n \<in> should_use_locked c"
  shows "left_over ops N (c\<lparr>have_used_locked := insert n (have_used_locked c)\<rparr>) < left_over ops N c"
proof -
  have "should_use_locked (c\<lparr>have_used_locked := insert n (have_used_locked c)\<rparr>) \<inter> N \<subset> should_use_locked c \<inter> N"
    using assms by (auto simp: should_use_locked_def)
  then have "card (should_use_locked (c\<lparr>have_used_locked := insert n (have_used_locked c)\<rparr>) \<inter> N) < card (should_use_locked c \<inter> N)"
    by (rule psubset_card_mono [rotated]) (use assms(1) in simp)
  then show ?thesis by (simp add: left_over_def should_use_latest_def)
qed

lemma left_over_listed:
  assumes fin: "finite N" "\<forall>n \<in> N. finite (av_of ops n)" and v: "n \<in> N" "v \<in> av_of ops n" "v \<notin> have_listed c"
  shows "left_over ops N (c\<lparr>have_listed := insert v (have_listed c)\<rparr>) < left_over ops N c"
proof -
  let ?U = "\<Union>n \<in> N. av_of ops n"
  have "?U - insert v (have_listed c) \<subset> ?U - have_listed c" using v by auto
  moreover have "finite (?U - have_listed c)" using fin by simp
  ultimately have "card (?U - insert v (have_listed c)) < card (?U - have_listed c)" by (rule psubset_card_mono [rotated])
  then show ?thesis by (simp add: left_over_def should_use_latest_def should_use_locked_def)
qed

lemma state_ok_extends:
  assumes "state_ok ops N direct over R" "extends R R'" "resolver_ok (av_of ops) N R'"
  shows "state_ok ops N direct over R'"
proof -
  have "set (r_incompatibilities R p) \<subseteq> set (r_incompatibilities R' p)" for p
    using assms(2) unfolding extends_def by (metis Un_upper1 set_append)
  then have "listed_ok ops (req_of ops direct over) R'"
    using assms(1,2) unfolding state_ok_def listed_ok_def extends_def by fastforce
  then show ?thesis using assms by (simp add: state_ok_def extends_def)
qed

lemma state_ok_config:
  assumes "state_ok ops N direct over R" "same_config ops direct (r_config R) c" 
  shows "state_ok ops N direct over (R\<lparr>r_config := c\<rparr>)"
  using assms same_config_fields [OF assms(2)] same_config_ok [OF _ assms(2)]
  by (simp add: state_ok_def resolver_ok_def listed_ok_def)

lemma state_ok_add:
  assumes "state_ok ops N direct over R" "ok_inc (av_of ops) N i"
  shows "state_ok ops N direct over (add_incompatibility i R)"
  using assms state_ok_extends extends_add resolver_ok_add by (metis state_ok_def)

section \<open>Unsatisfied packages\<close>

lemma positive_terms_keys:
  "\<forall>x \<in> set d. snd x \<noteq> None \<Longrightarrow>
   map fst [(p, t). (p, Some t) \<leftarrow> d, is_positive t] = map fst (filter (\<lambda>x. is_positive (the (snd x))) d)"
  by (induction d) auto

lemma unsatisfied_ok:
  assumes ok: "ps_ok av N S"
  obtains us where "unsatisfied S = Inr us" "is_dict us"
    "\<And>p t. (p, t) \<in> set us \<longleftrightarrow> map_of (ps_terms S) p = Some (Some t) \<and> is_positive t \<and> map_of (ps_decisions S) p = None"
proof -
  have tf: "terms_for av (ps_assignments S) (ps_terms S)" using ok by (simp add: ps_ok_def)
  then have dict: "is_dict (ps_terms S)" by (simp add: terms_for_def)
  have some: "x \<noteq> None" if "(p, x) \<in> set (ps_terms S)" for p x
  proof -
    have "map_of (ps_terms S) p = Some x" using that dict by simp
    then show ?thesis by (cases rule: terms_forE [OF tf, of p]) auto
  qed
  let ?pos = "[(p, t). (p, Some t) \<leftarrow> ps_terms S, is_positive t]"
  have pos: "ps_positive S = Inr ?pos" using some by (fastforce simp: ps_positive_def)
  have mem: "(p, t) \<in> set ?pos \<longleftrightarrow> map_of (ps_terms S) p = Some (Some t) \<and> is_positive t" for p t
    using dict by (auto split: option.splits)
  have "map fst ?pos = map fst (filter (\<lambda>x. is_positive (the (snd x))) (ps_terms S))"
    by (rule positive_terms_keys) (use some in force)
  then have "is_dict ?pos" using distinct_map_filter [OF dict, of "\<lambda>x. is_positive (the (snd x))"] by argo
  then have "is_dict (filter (\<lambda>(p, t). map_of (ps_decisions S) p = None) ?pos)" by (rule distinct_map_filter)
  then show thesis
    by (rule that [rotated]) (use mem in \<open>auto simp: unsatisfied_def pos simp del: map_of_eq_Some_iff\<close>)
qed

text \<open>An unsatisfied package is known, has versions left, and is not decided.\<close>

lemma unsatisfied_entry:
  assumes ok: "resolver_ok av N R" and root: "root_name \<notin> N"
    and t: "map_of (ps_terms (r_solution R)) p = Some (Some t)" "is_positive t" "map_of (ps_decisions (r_solution R)) p = None"
  shows "p \<in> N" "\<exists>V. t = VersionConstraint p V True (av p) \<and> V \<noteq> {}" "has p (trail_of R)"
    "poss av (trail_of R) p = outcomes t" "outcomes t \<noteq> {}"
    "\<forall>a \<in> set (trail_of R). is_decision a \<longrightarrow> a_subject a \<noteq> p"
proof -
  have ps: "ps_ok av N (r_solution R)" "trail_of R \<noteq> []" using ok by (simp_all add: resolver_ok_def)
  then have tr: "trail_ok av N (trail_of R)" and tf: "terms_for av (trail_of R) (ps_terms (r_solution R))"
    and dec: "decisions_for (trail_of R) (ps_decisions (r_solution R))" by (simp_all add: ps_ok_def)
  have "term_for av (trail_of R) p (Some (Some t))" using tf t(1) unfolding terms_for_def by metis
  then have e: "has p (trail_of R)" "wf_tm av t" "subject t = p" "outcomes t = poss av (trail_of R) p" by simp_all
  show "has p (trail_of R)" "poss av (trail_of R) p = outcomes t" using e by simp_all
  show "outcomes t \<noteq> {}" using trail_poss_nonempty [OF tr, of p] e(4) by simp
  show nd: "\<forall>a \<in> set (trail_of R). is_decision a \<longrightarrow> a_subject a \<noteq> p"
  proof (intro ballI impI notI)
    fix a
    assume "a \<in> set (trail_of R)" "is_decision a" "a_subject a = p"
    then have "map_of (ps_decisions (r_solution R)) p = Some (a_term a)" using dec unfolding decisions_for_def by blast
    with t(3) show False by simp
  qed
  have "p \<noteq> root_name"
  proof
    assume "p = root_name"
    moreover have "trail_of R ! 0 \<in> set (trail_of R)" using ps(2) by simp
    ultimately show False using nd trail_first [OF tr ps(2)] by (force simp: a_subject_def)
  qed
  then show "\<exists>V. t = VersionConstraint p V True (av p) \<and> V \<noteq> {}" using e(2,3) t(2) by (cases t) auto
  obtain a where "a \<in> set (trail_of R)" "a_subject a = p" using e(1) by (auto simp: has_def)
  then show "p \<in> N" using trail_wf [OF tr] \<open>p \<noteq> root_name\<close> by blast
qed

section \<open>Adding the incompatibilities of a version\<close>

lemma requirement_ok_inc:
  assumes g: "graph_ok ops N direct over" and v: "v = ROOT \<or> (\<exists>n \<in> N. v \<in> av_of ops n)"
    and i: "i \<in> set (requirement_incompatibilities ops direct over v)"
  shows "ok_inc (av_of ops) N i" "subject (hd (terms i)) = pv_subject v" "terms i \<noteq> []"
proof -
  obtain n W where nW: "(n, W) \<in> req_of ops direct over v" "terms i = requirement_terms (av_of ops) v n W"
    by (rule requirement_incompatibility_terms [OF i])
  then have n: "n \<in> N" "n \<noteq> pv_subject v" "W \<inter> av_of ops n \<noteq> {}" "root_name \<notin> N"
    using graph_okD [OF g] v by auto
  have sub: "subject (dependee (av_of ops) v) = pv_subject v"
    by (cases v) (auto simp: dependee_def require_def)
  have "pv_subject v \<in> insert root_name N" "v \<noteq> ROOT \<Longrightarrow> pv_subject v \<noteq> root_name"
    using v graph_okD(3) [OF g] n(4) by auto
  then have "ok_tm (av_of ops) N (dependee (av_of ops) v)"
    using sub by (auto simp: ok_tm_def dependee_def require_def)
  moreover have "ok_tm (av_of ops) N (exclude n W (av_of ops n))"
    using n by (auto simp: ok_tm_def exclude_def)
  ultimately show "ok_inc (av_of ops) N i"
    using nW(2) sub n(2) by (auto simp: ok_inc_def requirement_terms_def exclude_def)
  show "subject (hd (terms i)) = pv_subject v" "terms i \<noteq> []" using nW(2) sub by (simp_all add: requirement_terms_def)
qed

lemma fold_add_same [simp]:
  "r_solution (fold add_incompatibility is R) = r_solution R"
  "r_config (fold add_incompatibility is R) = r_config R"
  "r_has_run_flag (fold add_incompatibility is R) = r_has_run_flag R"
  by (induction "is" arbitrary: R) simp_all

lemma fold_add_extends: "extends R (fold add_incompatibility is R)"
  by (induction "is" arbitrary: R) (auto intro: extends_trans [OF extends_add])

lemma fold_add_ok:
  "resolver_ok av N R \<Longrightarrow> \<forall>i \<in> set is. ok_inc av N i \<Longrightarrow> resolver_ok av N (fold add_incompatibility is R)"
  by (induction "is" arbitrary: R) (auto intro: resolver_ok_add)

lemma fold_add_incs:
  assumes "\<forall>p. \<forall>i \<in> set (r_incompatibilities R p). ok_inc av N i" "\<forall>i \<in> set is. ok_inc av N i"
  shows "\<forall>p. \<forall>i \<in> set (r_incompatibilities (fold add_incompatibility is R) p). ok_inc av N i"
  using assms
proof (induction "is" arbitrary: R)
  case (Cons j js)
  have "\<forall>p. \<forall>i \<in> set (r_incompatibilities (add_incompatibility j R) p). ok_inc av N i"
    using Cons.prems by (auto simp: incompatibilities_add)
  then show ?case using Cons.IH Cons.prems(2) by simp
qed simp

lemma fold_add_mem:
  assumes "i \<in> set is" "t \<in> set (terms i)"
  shows "i \<in> set (r_incompatibilities (fold add_incompatibility is R) (subject t))"
  using assms
proof (induction "is" arbitrary: R)
  case (Cons j js)
  show ?case
  proof (cases "i = j")
    case True
    then have "i \<in> set (r_incompatibilities (add_incompatibility j R) (subject t))"
      using Cons.prems by (auto simp: incompatibilities_add)
    moreover obtain ks where "r_incompatibilities (fold add_incompatibility js (add_incompatibility j R)) (subject t) =
        r_incompatibilities (add_incompatibility j R) (subject t) @ ks"
      using fold_add_extends [of "add_incompatibility j R" js] by (auto simp: extends_def)
    ultimately show ?thesis by simp
  next
    case False
    then show ?thesis using Cons by simp
  qed
qed simp

lemma add_and_check_ok:
  assumes "resolver_ok av N R" "\<forall>i \<in> set is. ok_inc av N i"
  shows "\<exists>b'. rfold add_and_check is (b, R) = Inr (b', fold add_incompatibility is R) \<and> (is = [] \<longrightarrow> b' = b)"
  using assms
proof (induction "is" arbitrary: b R)
  case (Cons i js)
  have ok: "resolver_ok av N (add_incompatibility i R)" using Cons.prems resolver_ok_add by auto
  have "ps_ok av N (r_solution (add_incompatibility i R))" using ok by (simp add: resolver_ok_def)
  then have "list_all2 (\<lambda>t b. ps_satisfies t (r_solution (add_incompatibility i R)) = Inr b) (terms i)
      (map (sat_by av (trail_of (add_incompatibility i R))) (terms i))"
    using Cons.prems(2) ps_satisfies_ok unfolding ok_inc_def ok_tm_def
    by (fastforce simp: list_all2_conv_all_nth)
  then have "\<exists>c. is_conflict i (r_solution (add_incompatibility i R)) = Inr c"
    by (simp only: is_conflict_def rmap_list_Inr_iff [symmetric] rmap_simps) blast
  then obtain c where "is_conflict i (r_solution R) = Inr c" by auto
  then have "add_and_check i (b, R) = Inr (if b then True else c, add_incompatibility i R)"
    by (simp add: add_and_check_def Let_def)
  moreover obtain b' where "rfold add_and_check js (if b then True else c, add_incompatibility i R) =
      Inr (b', fold add_incompatibility js (add_incompatibility i R))"
    using Cons.IH [OF ok] Cons.prems(2) by fastforce
  ultimately show ?case by (intro exI [of _ b']) (simp only: rfold.simps rbind_simps fold_Cons o_apply list.distinct simp_thms)
qed simp

text \<open>
  Listing a version: its incompatibilities join the store (they are there already when it
  was listed before).
\<close>

lemma list_version_ok:
  assumes g: "graph_ok ops N direct over" and ok: "state_ok ops N direct over R"
    and v: "v = ROOT \<or> (\<exists>n \<in> N. v \<in> av_of ops n)"
  obtains "is" c where "incompatibilities_for ops v (r_config R) = Inr (is, c)" "\<forall>i \<in> set is. ok_inc (av_of ops) N i"
    "state_ok ops N direct over (fold add_incompatibility is (R\<lparr>r_config := c\<rparr>))" "v \<in> have_listed c"
    "(if v \<in> have_listed (r_config R) then is = [] \<and> c = r_config R
      else same_config ops direct (r_config R\<lparr>have_listed := insert v (have_listed (r_config R))\<rparr>) c)"
proof (cases "v \<in> have_listed (r_config R)")
  case True
  then show thesis using that [of "[]" "r_config R"] ok by (simp add: incompatibilities_for_def)
next
  case False
  let ?c0 = "r_config R\<lparr>have_listed := insert v (have_listed (r_config R))\<rparr>"
  have cfg: "config_graph_ok ops direct (r_config R)" "overrides (r_config R) = over" "resolver_ok (av_of ops) N R"
    using ok by (simp_all add: state_ok_def)
  let ?is = "requirement_incompatibilities ops direct over v"
  obtain c where c: "incompatibilities_for ops v (r_config R) = Inr (?is, c)" "same_config ops direct ?c0 c"
    using incompatibilities_for_ok [OF cfg(1) False] cfg(2) by metis
  have inc: "\<forall>i \<in> set ?is. ok_inc (av_of ops) N i" using requirement_ok_inc(1) [OF g v] by blast
  have fields: "have_listed c = insert v (have_listed (r_config R))" "overrides c = over" "config_graph_ok ops direct c"
    using same_config_fields [OF c(2)] cfg same_config_ok [OF _ c(2)] by (simp_all add: config_graph_ok_def)
  let ?R1 = "R\<lparr>r_config := c\<rparr>"
  let ?R2 = "fold add_incompatibility ?is ?R1"
  have ok1: "resolver_ok (av_of ops) N ?R1" using cfg(3) by (simp add: resolver_ok_def)
  have "listed_ok ops (req_of ops direct over) ?R2"
    unfolding listed_ok_def
  proof (intro ballI, clarify)
    fix w n W
    assume w: "w \<in> have_listed (r_config ?R2)" "(n, W) \<in> req_of ops direct over w"
    show "\<exists>i \<in> set (r_incompatibilities ?R2 (pv_subject w)). terms i = requirement_terms (av_of ops) w n W"
    proof (cases "w = v")
      case True
      then obtain i where i: "i \<in> set ?is" "terms i = requirement_terms (av_of ops) v n W"
        using w(2) requirement_incompatibility_exists by blast
      then have "hd (terms i) \<in> set (terms i)" "subject (hd (terms i)) = pv_subject v"
        using requirement_ok_inc(2,3) [OF g v i(1)] by simp_all
      then show ?thesis using fold_add_mem [OF i(1), of "hd (terms i)" ?R1] i(2) True by auto
    next
      case False
      then have "w \<in> have_listed (r_config R)" using w(1) fields(1) by simp
      then obtain i where i: "i \<in> set (r_incompatibilities R (pv_subject w))" "terms i = requirement_terms (av_of ops) w n W"
        using ok w(2) unfolding state_ok_def listed_ok_def by blast
      obtain ks where "r_incompatibilities ?R2 (pv_subject w) = r_incompatibilities R (pv_subject w) @ ks"
        using fold_add_extends [of ?R1 ?is] unfolding extends_def by auto
      then show ?thesis using i by auto
    qed
  qed
  then have "state_ok ops N direct over ?R2" using fold_add_ok [OF ok1 inc] fields by (simp add: state_ok_def)
  then show thesis using that [OF c(1) inc] fields(1) False c(2) by simp
qed

section \<open>A turn of the main loop\<close>

text \<open>
  What choosing the next package version leads to: the package to propagate next, a state
  that keeps the invariant, and progress, by the trail, by the bookkeeping, or by a
  conflict waiting in the incompatibilities of that package.
\<close>

definition chosen ::
  "'v graph_ops \<Rightarrow> string set \<Rightarrow> 'v dependencies \<Rightarrow> (string, 'v package_version list) dict
   \<Rightarrow> 'v resolver \<Rightarrow> string \<Rightarrow> 'v resolver \<Rightarrow> bool" where
  "chosen ops N direct over R p R' \<longleftrightarrow>
     state_ok ops N direct over R' \<and> r_has_run_flag R' = r_has_run_flag R
     \<and> requirements_ok (av_of ops) (req_of ops direct over) (r_incompatibilities R' p) p (trail_of R')
     \<and> (trail_measure (av_of ops) N (trail_of R') < trail_measure (av_of ops) N (trail_of R)
        \<or> trail_of R' = trail_of R \<and> left_over ops N (r_config R') < left_over ops N (r_config R)
        \<or> trail_of R' = trail_of R \<and> left_over ops N (r_config R') = left_over ops N (r_config R)
          \<and> (\<exists>i \<in> set (r_incompatibilities R' p). all_sat (av_of ops) (trail_of R') i))"

lemma single_term_ok_inc:
  assumes "n \<in> N" "root_name \<notin> N" "V \<noteq> {}"
  shows "ok_inc av N (Incompatibility [require n V (av n)] c)"
  using assms by (auto simp: ok_inc_def ok_tm_def require_def)

lemma chosen_add:
  assumes ok: "state_ok ops N direct over R" and req: "requirements_ok (av_of ops) (req_of ops direct over) [] [] (trail_of R)"
    and same: "same_config ops direct c0 c" and c0: "have_listed c0 = have_listed (r_config R)"
      "overrides c0 = overrides (r_config R)" "config_graph_ok ops direct c0"
    and inc: "ok_inc (av_of ops) N i"
    and progress: "left_over ops N c < left_over ops N (r_config R)
      \<or> left_over ops N c = left_over ops N (r_config R) \<and> all_sat (av_of ops) (trail_of R) i \<and> p \<in> subject ` set (terms i)"
  shows "chosen ops N direct over R p (add_incompatibility i (R\<lparr>r_config := c\<rparr>))"
proof -
  have "state_ok ops N direct over (R\<lparr>r_config := c\<rparr>)"
    using ok same_config_fields [OF same] same_config_ok [OF c0(3) same] c0
    by (simp add: state_ok_def resolver_ok_def listed_ok_def)
  then have "state_ok ops N direct over (add_incompatibility i (R\<lparr>r_config := c\<rparr>))" using inc by (rule state_ok_add)
  moreover have "i \<in> set (r_incompatibilities (add_incompatibility i (R\<lparr>r_config := c\<rparr>)) p)" if "p \<in> subject ` set (terms i)"
    using that by (auto simp: incompatibilities_add)
  ultimately show ?thesis using progress requirements_ok_Nil [OF req] unfolding chosen_def by auto
qed

lemma decide_version_ok:
  assumes g: "graph_ok ops N direct over" and ok: "state_ok ops N direct over R"
    and req: "requirements_ok (av_of ops) (req_of ops direct over) [] [] (trail_of R)"
    and p: "p \<in> N" "\<forall>a \<in> set (trail_of R). is_decision a \<longrightarrow> a_subject a \<noteq> p"
    and v: "v \<in> av_of ops p" "Some v \<in> poss (av_of ops) (trail_of R) p"
  obtains R' where "decide_version ops p v R = Inr R'" "chosen ops N direct over R p R'"
proof -
  let ?av = "av_of ops"
  have vp: "pv_subject v = p" "p \<noteq> root_name" using graph_okD(3,4) [OF g] p(1) v(1) by auto
  obtain "is" c where l: "incompatibilities_for ops v (r_config R) = Inr (is, c)" "\<forall>i \<in> set is. ok_inc ?av N i"
    "state_ok ops N direct over (fold add_incompatibility is (R\<lparr>r_config := c\<rparr>))" "v \<in> have_listed c"
    "(if v \<in> have_listed (r_config R) then is = [] \<and> c = r_config R
      else same_config ops direct (r_config R\<lparr>have_listed := insert v (have_listed (r_config R))\<rparr>) c)"
    using list_version_ok [OF g ok, of v] p(1) v(1) by blast
  let ?R2 = "fold add_incompatibility is (R\<lparr>r_config := c\<rparr>)"
  have left: "v \<notin> have_listed (r_config R) \<Longrightarrow> left_over ops N c < left_over ops N (r_config R)"
    using l(5) left_over_same [of ops direct "r_config R\<lparr>have_listed := insert v (have_listed (r_config R))\<rparr>" c N]
      left_over_listed [of N ops p v "r_config R"] graph_okD(2) [OF g] p(1) v(1)
    by (simp add: finite_graph_def)
  have ok1: "resolver_ok ?av N (R\<lparr>r_config := c\<rparr>)" using ok by (simp add: state_ok_def resolver_ok_def)
  obtain b where b: "rfold add_and_check is (False, R\<lparr>r_config := c\<rparr>) = Inr (b, ?R2)" "is = [] \<longrightarrow> \<not> b"
    using add_and_check_ok [OF ok1 l(2), of False] by auto
  have dv: "decide_version ops p v R =
      (if b then Inr ?R2 else rbind (lift_config (cfg_all_versions ops p) ?R2)
         (\<lambda>(av, R3). lift_solution (decide (VersionConstraint p {v} True av)) R3))"
    using l(1) b(1) by (simp add: decide_version_def lift_config_def)
  show thesis
  proof (cases b)
    case True
    then have "v \<notin> have_listed (r_config R)" using b(2) l(5) by (auto split: if_splits)
    then show thesis using that [of ?R2] dv True l(3) left requirements_ok_Nil [OF req] by (simp add: chosen_def)
  next
    case False
    have cfg: "config_graph_ok ops direct (r_config ?R2)" using l(3) by (simp add: state_ok_def)
    obtain c3 where c3: "cfg_all_versions ops p (r_config ?R2) = Inr (?av p, c3)" "same_config ops direct (r_config ?R2) c3"
      by (rule cfg_all_versions_ok [OF cfg])
    let ?R3 = "?R2\<lparr>r_config := c3\<rparr>"
    have ok3: "state_ok ops N direct over ?R3" by (rule state_ok_config [OF l(3) c3(2)])
    then have ps: "ps_ok ?av N (r_solution R)" "trail_of R \<noteq> []" by (simp_all add: state_ok_def resolver_ok_def)
    let ?d = "\<lparr>a_term = VersionConstraint p {v} True (?av p), a_level = Suc (num_decisions (trail_of R)),
               a_index = length (trail_of R), a_cause = None\<rparr>"
    have step: "step_ok ?av N (trail_of R) ?d"
      using ps(2) p v vp by (auto simp: step_ok_def decision_ok_def a_subject_def)
    obtain S' where S': "decide (VersionConstraint p {v} True (?av p)) (r_solution R) = Inr S'" "ps_ok ?av N S'"
      "ps_assignments S' = trail_of R @ [?d]"
      by (rule decide_ok [OF ps(1) step])
    let ?R4 = "?R3\<lparr>r_solution := S'\<rparr>"
    have res: "decide_version ops p v R = Inr ?R4" using dv False c3(1) S'(1) by (simp add: lift_config_def lift_solution_def)
    have ok4: "state_ok ops N direct over ?R4"
      using ok3 S'(2,3) by (simp add: state_ok_def resolver_ok_def listed_ok_def)
    have "trail_ok ?av N (trail_of R)" using ps(1) by (simp add: ps_ok_def)
    then have less: "trail_measure ?av N (trail_of ?R4) < trail_measure ?av N (trail_of R)"
      using measure_decision [of N ?av "trail_of R" ?d] graph_okD(2) [OF g] step S'(3) by (simp add: finite_graph_def)
    have "requirements_ok ?av (req_of ops direct over) (r_incompatibilities ?R4 p) p (trail_of ?R4)"
      unfolding requirements_ok_def
    proof (intro ballI impI allI)
      fix d w n W
      assume d: "d \<in> set (trail_of ?R4)" "is_decision d" "a_term d = dependee ?av w" "(n, W) \<in> req_of ops direct over w"
      show "established ?av (trail_of ?R4) (a_level d) n W \<or> (a_subject d = p \<and> a_level d = num_decisions (trail_of ?R4)
          \<and> (\<exists>i \<in> set (r_incompatibilities ?R4 p). terms i = requirement_terms ?av w n W))"
      proof (cases "d = ?d")
        case True
        then have w: "w = v" using d(3) by (auto simp: dependee_def require_def split: if_splits)
        have "v \<in> have_listed (r_config ?R4)" using l(4) same_config_fields(5) [OF c3(2)] by simp
        then have "\<exists>i \<in> set (r_incompatibilities ?R4 (pv_subject v)). terms i = requirement_terms ?av v n W"
          using ok4 d(4) w unfolding state_ok_def listed_ok_def by blast
        then show ?thesis using True vp w S'(3) by (simp add: a_subject_def is_decision_def)
      next
        case False
        then have "d \<in> set (trail_of R)" using d(1) S'(3) by simp
        then have "established ?av (trail_of R) (a_level d) n W"
          by (cases rule: requirements_okD [OF req _ d(2-4)]) auto
        then show ?thesis using established_mono [of ?av "trail_of R" "a_level d" n W "trail_of ?R4"] S'(3) by auto
      qed
    qed
    then show thesis using that [OF res] ok4 less by (simp add: chosen_def)
  qed
qed

lemma add_no_versions_ok:
  assumes ok: "state_ok ops N direct over R" and req: "requirements_ok (av_of ops) (req_of ops direct over) [] [] (trail_of R)"
    and same: "same_config ops direct (r_config R) c" and p: "p \<in> N" "root_name \<notin> N"
    and V: "V \<noteq> {}" "has p (trail_of R)" "poss (av_of ops) (trail_of R) p = outcomes (VersionConstraint p V True (av_of ops p))"
  obtains R' where "add_no_versions ops p (VersionConstraint p V True (av_of ops p)) (R\<lparr>r_config := c\<rparr>) = Inr R'" "chosen ops N direct over R p R'"
proof -
  let ?av = "av_of ops"
  have cfg: "config_graph_ok ops direct (r_config R)" using ok by (simp add: state_ok_def)
  have "config_graph_ok ops direct c" using state_ok_config [OF ok same] by (simp add: state_ok_def)
  then obtain c' where c': "cfg_all_versions ops p c = Inr (?av p, c')" "same_config ops direct c c'"
    using cfg_all_versions_ok by blast
  let ?cause = "if ?av p \<noteq> {} then NoVersionsCause else PackageNotFoundCause (exceptions_for (KName p) (cfg_graph c'))"
  let ?i = "Incompatibility [require p V (?av p)] ?cause"
  have "chosen ops N direct over R p (add_incompatibility ?i (R\<lparr>r_config := c'\<rparr>))"
  proof (rule chosen_add [OF ok req same_config_trans [OF same c'(2)] refl refl cfg])
    show "ok_inc ?av N ?i" by (rule single_term_ok_inc [OF p V(1)])
    have "left_over ops N c' = left_over ops N (r_config R)"
      by (rule left_over_same [OF same_config_trans [OF same c'(2)]])
    moreover have "all_sat ?av (trail_of R) ?i" using V(2,3) by (simp add: all_sat_def sat_by_def require_def)
    ultimately show "left_over ops N c' < left_over ops N (r_config R)
        \<or> left_over ops N c' = left_over ops N (r_config R) \<and> all_sat ?av (trail_of R) ?i \<and> p \<in> subject ` set (terms ?i)"
      by (simp add: require_def)
  qed
  moreover have "add_no_versions ops p (VersionConstraint p V True (?av p)) (R\<lparr>r_config := c\<rparr>)
      = Inr (add_incompatibility ?i (R\<lparr>r_config := c'\<rparr>))"
    using c'(1) by (simp add: add_no_versions_def lift_config_def)
  ultimately show thesis using that by blast
qed

lemma decide_best_ok:
  assumes g: "graph_ok ops N direct over" and ok: "state_ok ops N direct over R"
    and req: "requirements_ok (av_of ops) (req_of ops direct over) [] [] (trail_of R)"
    and same: "same_config ops direct (r_config R) c" and p: "p \<in> N"
    and vs: "vs \<noteq> {}" "vs \<subseteq> av_of ops p" "Some ` vs \<subseteq> poss (av_of ops) (trail_of R) p"
    and new: "\<forall>a \<in> set (trail_of R). is_decision a \<longrightarrow> a_subject a \<noteq> p"
  obtains v R' where "best_version_for_package p vs c = Inr v" "decide_version ops p v (R\<lparr>r_config := c\<rparr>) = Inr R'"
    "chosen ops N direct over R p R'"
proof -
  let ?R = "R\<lparr>r_config := c\<rparr>"
  have "finite vs" by (rule finite_subset [OF vs(2)]) (use graph_okD(2) [OF g] p in \<open>simp add: finite_graph_def\<close>)
  then obtain v where v: "v \<in> vs" "best_version_for_package p vs c = Inr v"
    using best_version_for_package_ok [OF vs(1)] by blast
  have v': "v \<in> av_of ops p" "Some v \<in> poss (av_of ops) (trail_of ?R) p" using v(1) vs(2,3) by auto
  have ok': "state_ok ops N direct over ?R" by (rule state_ok_config [OF ok same])
  have "requirements_ok (av_of ops) (req_of ops direct over) [] [] (trail_of ?R)" using req by simp
  moreover have "\<forall>a \<in> set (trail_of ?R). is_decision a \<longrightarrow> a_subject a \<noteq> p" using new by simp
  ultimately obtain R' where R': "decide_version ops p v ?R = Inr R'" "chosen ops N direct over ?R p R'"
    using decide_version_ok [OF g ok' _ p _ v'] by blast
  have "chosen ops N direct over R p R'"
    using R'(2) left_over_same [OF same, of N] unfolding chosen_def by simp
  then show thesis using that v(2) R'(1) by blast
qed

text \<open>A preference of the configuration, for the latest or a locked version, is used up.\<close>

lemma preference_chosen:
  assumes ok: "state_ok ops N direct over R" and req: "requirements_ok (av_of ops) (req_of ops direct over) [] [] (trail_of R)"
    and c: "same_config ops direct c0 c" "have_listed c0 = have_listed (r_config R)" "overrides c0 = overrides (r_config R)"
      "config_graph_ok ops direct c0"
    and p: "p \<in> N" "root_name \<notin> N" and less: "left_over ops N c < left_over ops N (r_config R)"
  shows "chosen ops N direct over R p (add_incompatibility (Incompatibility [require p {v} (av_of ops p)] why) (R\<lparr>r_config := c\<rparr>))"
  by (intro chosen_add [OF ok req c] single_term_ok_inc [OF p] disjI1 less) simp

lemma choose_package_version_ok:
  assumes g: "graph_ok ops N direct over" and ok: "state_ok ops N direct over R"
    and req: "requirements_ok (av_of ops) (req_of ops direct over) [] [] (trail_of R)"
  obtains (Done) "unsatisfied (r_solution R) = Inr []" "choose_package_version ops R = Inr (None, R)"
  | (Next) p R' where "choose_package_version ops R = Inr (Some p, R')" "chosen ops N direct over R p R'"
proof -
  let ?av = "av_of ops"
  have res: "resolver_ok ?av N R" and cfg: "config_graph_ok ops direct (r_config R)" using ok by (simp_all add: state_ok_def)
  note root = graph_okD(4) [OF g] and fin = graph_okD(2) [OF g, unfolded finite_graph_def]
  obtain us where us: "unsatisfied (r_solution R) = Inr us" "is_dict us"
    "\<And>p t. (p, t) \<in> set us \<longleftrightarrow> map_of (ps_terms (r_solution R)) p = Some (Some t) \<and> is_positive t
        \<and> map_of (ps_decisions (r_solution R)) p = None"
    using unsatisfied_ok [of ?av N "r_solution R"] res unfolding resolver_ok_def by blast
  show thesis
  proof (cases "us = []")
    case True
    then show thesis using Done us(1) by (simp add: choose_package_version_def)
  next
    case False
    have entry: "map_of (ps_terms (r_solution R)) p = Some (Some t)" "is_positive t" "map_of (ps_decisions (r_solution R)) p = None"
      if "(p, t) \<in> set us" for p t using us(3) [of p t] that by simp_all
    have vc: "\<forall>x \<in> set us. is_version_constraint (snd x)"
      using unsatisfied_entry(2) [OF res root entry] by fastforce
    obtain p t vs c1 where bp: "best_package ops us (r_config R) = Inr (p, vs, c1)" "same_config ops direct (r_config R) c1"
      "(p, t) \<in> set us" "vs \<subseteq> ?av p \<inter> versions t"
      by (rule best_package_ok [OF cfg False vc])
    note e = unsatisfied_entry [OF res root entry [OF bp(3)]]
    obtain V where V: "t = VersionConstraint p V True (?av p)" "V \<noteq> {}" using e(2) by blast
    have avne: "?av p \<noteq> {}" using e(5) V by auto
    have cfg1: "config_graph_ok ops direct c1" using state_ok_config [OF ok bp(2)] by (simp add: state_ok_def)
    have add: "choose_package_version ops R = Inr (Some p, add_incompatibility i (R\<lparr>r_config := c\<rparr>))"
      if "incompatibilities_for_package ops p c1 = Inr (Some i, c)" for i c
      using that us(1) False bp(1) by (simp add: choose_package_version_def lift_config_def)
    note f1 = same_config_fields [OF bp(2)]
    show thesis
    proof (cases rule: incompatibilities_for_package_ok [OF cfg1 avne])
      case (1 c)
      have "left_over ops N c < left_over ops N (r_config R)"
        using left_over_same [OF 1(3), of N] left_over_latest [OF _ e(1) 1(1), of ops] left_over_same [OF bp(2), of N] fin by simp
      then show thesis
        by (intro Next [OF add [OF 1(2)]] preference_chosen [OF ok req 1(3) _ _ _ e(1) root]) (use f1 cfg1 in \<open>simp_all add: config_graph_ok_def\<close>)
    next
      case (2 v c)
      have "left_over ops N c < left_over ops N (r_config R)"
        using left_over_same [OF 2(3), of N] left_over_locked [OF _ e(1) 2(1), of ops] left_over_same [OF bp(2), of N] fin by simp
      then show thesis
        by (intro Next [OF add [OF 2(2)]] preference_chosen [OF ok req 2(3) _ _ _ e(1) root]) (use f1 cfg1 in \<open>simp_all add: config_graph_ok_def\<close>)
    next
      case (3 c2)
      have same2: "same_config ops direct (r_config R) c2" by (rule same_config_trans [OF bp(2) 3(2)])
      have choose: "choose_package_version ops R =
          (if vs = {} then rmap (\<lambda>R3. (Some p, R3)) (add_no_versions ops p t (R\<lparr>r_config := c2\<rparr>))
           else rbind (best_version_for_package p vs c2) (\<lambda>v. rmap (\<lambda>R3. (Some p, R3)) (decide_version ops p v (R\<lparr>r_config := c2\<rparr>))))"
        using us(1,2) False bp(1,3) 3(1) by (simp add: choose_package_version_def lift_config_def)
      show thesis
      proof (cases "vs = {}")
        case True
        obtain R' where "add_no_versions ops p t (R\<lparr>r_config := c2\<rparr>) = Inr R'" "chosen ops N direct over R p R'"
          using add_no_versions_ok [OF ok req same2 e(1) root V(2) e(3)] e(4) unfolding V(1) by blast
        then show thesis using Next choose True by simp
      next
        case ne: False
        have "vs \<subseteq> ?av p" "Some ` vs \<subseteq> poss ?av (trail_of R) p" using bp(4) e(4) V by auto
        then obtain v R' where "best_version_for_package p vs c2 = Inr v" "decide_version ops p v (R\<lparr>r_config := c2\<rparr>) = Inr R'"
            "chosen ops N direct over R p R'"
          by (rule decide_best_ok [OF g ok req same2 e(1) ne _ _ e(6)])
        then show thesis using Next choose ne by simp
      qed
    qed
  qed
qed

section \<open>The main loop\<close>

definition solved ::
  "'v graph_ops \<Rightarrow> string set \<Rightarrow> 'v dependencies \<Rightarrow> (string, 'v package_version list) dict \<Rightarrow> 'v resolver \<Rightarrow> bool" where
  "solved ops N direct over R \<longleftrightarrow> state_ok ops N direct over R
     \<and> requirements_ok (av_of ops) (req_of ops direct over) [] [] (trail_of R)
     \<and> unsatisfied (r_solution R) = Inr []"

definition solver_potential :: "'v graph_ops \<Rightarrow> string set \<Rightarrow> string \<Rightarrow> 'v resolver \<Rightarrow> nat \<times> nat \<times> nat" where
  "solver_potential ops N p R =
     (trail_measure (av_of ops) N (trail_of R), left_over ops N (r_config R),
      if \<exists>i \<in> set (r_incompatibilities R p). all_sat (av_of ops) (trail_of R) i then 0 else 1)"

lemma propagate_turn:
  assumes g: "graph_ok ops N direct over" and ok: "state_ok ops N direct over R"
    and req: "requirements_ok (av_of ops) (req_of ops direct over) (r_incompatibilities R p) p (trail_of R)"
  obtains r where "settles (\<lambda>n. propagate n p (R\<lparr>r_loop_iterations := k\<rparr>)) r"
    "\<And>e. r = Inl e \<Longrightarrow> no_solution e"
    "\<And>R1. r = Inr R1 \<Longrightarrow> state_ok ops N direct over R1 \<and> r_config R1 = r_config R
       \<and> requirements_ok (av_of ops) (req_of ops direct over) [] [] (trail_of R1)
       \<and> (trail_measure (av_of ops) N (trail_of R1) < trail_measure (av_of ops) N (trail_of R)
          \<or> trail_of R1 = trail_of R \<and> \<not> (\<exists>i \<in> set (r_incompatibilities R p). all_sat (av_of ops) (trail_of R) i))"
proof -
  let ?R = "R\<lparr>r_loop_iterations := k\<rparr>"
  let ?req = "req_of ops direct over"
  have ok': "state_ok ops N direct over ?R" using ok by (simp add: state_ok_def resolver_ok_def listed_ok_def)
  have "resolver_ok (av_of ops) N ?R" "queue_ok (av_of ops) ?req [p] ?R"
    using ok' req by (simp_all add: state_ok_def queue_ok_def)
  from propagate_loop_ok [OF graph_okD(2) [OF g] this] obtain r
    where r: "settles (\<lambda>n. propagate_loop n (map PSubject [p]) ?R) r"
      "case r of Inl e \<Rightarrow> no_solution e
       | Inr R' \<Rightarrow> propagated (av_of ops) N ?req ?R R'
           \<and> ([p] \<noteq> [] \<longrightarrow> (\<exists>i \<in> set (r_incompatibilities ?R (hd [p])). all_sat (av_of ops) (trail_of ?R) i) \<longrightarrow> trail_of R' \<noteq> trail_of ?R)"
    by blast
  show thesis
  proof (rule that [of r])
    show "settles (\<lambda>n. propagate n p ?R) r" using r(1) by (simp add: propagate_def)
    show "no_solution e" if "r = Inl e" for e using r(2) that by simp
    fix R1
    assume "r = Inr R1"
    with r(2) have p: "propagated (av_of ops) N ?req ?R R1"
      "(\<exists>i \<in> set (r_incompatibilities R p). all_sat (av_of ops) (trail_of R) i) \<longrightarrow> trail_of R1 \<noteq> trail_of R" by simp_all
    then have "state_ok ops N direct over R1" using state_ok_extends [OF ok'] by (simp add: propagated_def)
    then show "state_ok ops N direct over R1 \<and> r_config R1 = r_config R
       \<and> requirements_ok (av_of ops) ?req [] [] (trail_of R1)
       \<and> (trail_measure (av_of ops) N (trail_of R1) < trail_measure (av_of ops) N (trail_of R)
          \<or> trail_of R1 = trail_of R \<and> \<not> (\<exists>i \<in> set (r_incompatibilities R p). all_sat (av_of ops) (trail_of R) i))"
      using p by (auto simp: propagated_def extends_def)
  qed
qed

lemma solve_loop_ok:
  assumes g: "graph_ok ops N direct over" and "state_ok ops N direct over R"
    and "requirements_ok (av_of ops) (req_of ops direct over) (r_incompatibilities R p) p (trail_of R)"
  shows "\<exists>r. settles (\<lambda>n. solve_loop n ops (Some p) R) r
    \<and> (case r of Inl e \<Rightarrow> no_solution e | Inr R' \<Rightarrow> solved ops N direct over R')"
  using assms(2,3)
proof (induction "solver_potential ops N p R" arbitrary: p R rule: less_induct)
  case less
  let ?k = "Suc (r_loop_iterations R)"
  obtain r where r: "settles (\<lambda>n. propagate n p (R\<lparr>r_loop_iterations := ?k\<rparr>)) r"
    "\<And>e. r = Inl e \<Longrightarrow> no_solution e"
    "\<And>R1. r = Inr R1 \<Longrightarrow> state_ok ops N direct over R1 \<and> r_config R1 = r_config R
       \<and> requirements_ok (av_of ops) (req_of ops direct over) [] [] (trail_of R1)
       \<and> (trail_measure (av_of ops) N (trail_of R1) < trail_measure (av_of ops) N (trail_of R)
          \<or> trail_of R1 = trail_of R \<and> \<not> (\<exists>i \<in> set (r_incompatibilities R p). all_sat (av_of ops) (trail_of R) i))"
    using propagate_turn [OF g less.prems] by blast
  let ?rest = "\<lambda>R1 n. rbind (choose_package_version ops R1) (\<lambda>(cur, R2). solve_loop n ops cur R2)"
  have unfold: "(\<lambda>n. solve_loop (Suc n) ops (Some p) R) =
      (\<lambda>n. rbind (propagate n p (R\<lparr>r_loop_iterations := ?k\<rparr>)) (\<lambda>R1. ?rest R1 n))" by simp
  show ?case
  proof (cases r)
    case (Inl e)
    have "settles (\<lambda>n. solve_loop n ops (Some p) R) (Inl e)"
      by (rule settles_Suc) (simp only: unfold settles_rbind_Inl [OF r(1) [unfolded Inl]])
    then show ?thesis using r(2) Inl by auto
  next
    case (Inr R1)
    note p1 = r(3) [OF Inr]
    have to: "settles (\<lambda>n. solve_loop n ops (Some p) R) x" if "settles (?rest R1) x" for x
      by (rule settles_Suc) (simp only: unfold, rule settles_rbind [where g = ?rest, OF r(1) [unfolded Inr] that])
    have req1: "requirements_ok (av_of ops) (req_of ops direct over) [] [] (trail_of R1)" and ok1: "state_ok ops N direct over R1"
      using p1 by blast+
    show ?thesis
    proof (cases rule: choose_package_version_ok [OF g ok1 req1])
      case 1
      have "settles (?rest R1) (Inr R1)" by (rule settlesI [of 1]) (use 1(2) in \<open>auto simp: Suc_le_D gr0_conv_Suc dest!: Suc_le_D\<close>)
      moreover have "solved ops N direct over R1" using ok1 req1 1(1) by (simp add: solved_def)
      ultimately show ?thesis using to by (intro exI [of _ "Inr R1"]) simp
    next
      case (2 q R2)
      have lt: "solver_potential ops N q R2 < solver_potential ops N p R"
        using p1 2(2) unfolding solver_potential_def chosen_def by auto
      have ok2: "state_ok ops N direct over R2"
        "requirements_ok (av_of ops) (req_of ops direct over) (r_incompatibilities R2 q) q (trail_of R2)"
        using 2(2) by (simp_all add: chosen_def)
      obtain x where x: "settles (\<lambda>n. solve_loop n ops (Some q) R2) x"
        "case x of Inl e \<Rightarrow> no_solution e | Inr R' \<Rightarrow> solved ops N direct over R'"
        using less.hyps [OF lt ok2] by blast
      have "settles (?rest R1) x" using x(1) 2(1) by simp
      then show ?thesis using to x(2) by blast
    qed
  qed
qed

section \<open>Setting up\<close>

lemma empty_solution_ok: "ps_ok av N empty_solution"
  by (simp add: ps_ok_def empty_solution_def decisions_for_def)

lemma setup_root_ok:
  assumes g: "graph_ok ops N direct over" and cfg: "config_graph_ok ops direct c" "overrides c = over" "have_listed c = {}"
  obtains R where "setup_root ops (new_resolver c) = Inr R" "state_ok ops N direct over R"
    "requirements_ok (av_of ops) (req_of ops direct over) (r_incompatibilities R root_name) root_name (trail_of R)"
proof -
  let ?av = "av_of ops"
  let ?is = "requirement_incompatibilities ops direct over ROOT"
  have new: "ROOT \<notin> have_listed c" using cfg(3) by simp
  obtain c1 where c1: "incompatibilities_for ops ROOT c = Inr (?is, c1)"
    "same_config ops direct (c\<lparr>have_listed := insert ROOT (have_listed c)\<rparr>) c1"
    using incompatibilities_for_ok [OF cfg(1) new] cfg(2) by metis
  let ?R1 = "fold add_incompatibility ?is (new_resolver c\<lparr>r_config := c1\<rparr>)"
  have inc: "\<forall>i \<in> set ?is. ok_inc ?av N i" using requirement_ok_inc(1) [OF g] by blast
  let ?d = "\<lparr>a_term = RootConstraint True, a_level = Suc 0, a_index = 0, a_cause = None\<rparr>"
  have step: "step_ok ?av N (ps_assignments empty_solution)
      \<lparr>a_term = RootConstraint True, a_level = Suc (num_decisions (ps_assignments empty_solution)),
       a_index = length (ps_assignments empty_solution), a_cause = None\<rparr>"
    by (simp add: empty_solution_def step_ok_def decision_ok_def a_subject_def univ_def)
  obtain S' where S': "decide (RootConstraint True) empty_solution = Inr S'" "ps_ok ?av N S'" "ps_assignments S' = [?d]"
    by (rule decide_ok [OF empty_solution_ok step]) (simp add: empty_solution_def)
  let ?R = "?R1\<lparr>r_solution := S'\<rparr>"
  have sol: "r_solution ?R1 = empty_solution" by (simp add: new_resolver_def)
  have res: "setup_root ops (new_resolver c) = Inr ?R"
    using c1(1) S'(1) sol by (simp add: setup_root_def lift_config_def lift_solution_def new_resolver_def)
  have incs: "\<forall>p. \<forall>i \<in> set (r_incompatibilities ?R1 p). ok_inc ?av N i"
    by (rule fold_add_incs) (use inc in \<open>simp_all add: new_resolver_def\<close>)
  have listed: "\<exists>i \<in> set (r_incompatibilities ?R root_name). terms i = requirement_terms ?av ROOT n W"
    if nW: "(n, W) \<in> req_of ops direct over ROOT" for n W
  proof -
    obtain i where i: "i \<in> set ?is" "terms i = requirement_terms ?av ROOT n W" by (rule requirement_incompatibility_exists [OF nW])
    have "dependee ?av ROOT \<in> set (terms i)" "subject (dependee ?av ROOT) = root_name"
      using i(2) by (simp_all add: requirement_terms_def dependee_def)
    then have "i \<in> set (r_incompatibilities ?R1 root_name)" using fold_add_mem [OF i(1), of "dependee ?av ROOT"] by metis
    then show ?thesis using i(2) by auto
  qed
  have "have_listed c1 = {ROOT}" "overrides c1 = over" "config_graph_ok ops direct c1"
    using same_config_fields [OF c1(2)] cfg same_config_ok [OF _ c1(2)] by (simp_all add: config_graph_ok_def)
  then have "state_ok ops N direct over ?R"
    using S'(2,3) incs listed by (auto simp: state_ok_def resolver_ok_def listed_ok_def)
  moreover have "requirements_ok ?av (req_of ops direct over) (r_incompatibilities ?R root_name) root_name (trail_of ?R)"
    unfolding requirements_ok_def
  proof (intro ballI impI allI disjI2 conjI)
    fix d v n W
    assume d: "d \<in> set (trail_of ?R)" "is_decision d" "a_term d = dependee ?av v" "(n, W) \<in> req_of ops direct over v"
    then have d': "d = ?d" using S'(3) by simp
    then show "a_subject d = root_name" "a_level d = num_decisions (trail_of ?R)"
      using S'(3) by (simp_all add: a_subject_def is_decision_def)
    have "v = ROOT" using d(3) d' by (simp add: dependee_def require_def split: if_splits)
    then show "\<exists>i \<in> set (r_incompatibilities ?R root_name). terms i = requirement_terms ?av v n W" using listed d(4) by simp
  qed
  ultimately show thesis by (rule that [OF res])
qed

text \<open>
  The walk that builds the dependency map: every cached entry is what the graph says, and
  it ends, because a package is put on the stack only while it is unvisited.
\<close>

definition walk_ok :: "'v graph_ops \<Rightarrow> 'v graph \<Rightarrow> bool" where
  "walk_ok ops g \<longleftrightarrow>
     (\<forall>v d. map_of (dependency_map g) v = Some d \<longrightarrow> v \<noteq> ROOT \<longrightarrow> d = deps_of ops [] v)"

lemma deps_of_direct: "v \<noteq> ROOT \<Longrightarrow> deps_of ops direct v = deps_of ops [] v"
  by (simp add: deps_of_def)

lemma all_versions_walk:
  assumes "not_found_only ops"
  shows "\<exists>g'. all_versions ops n g = Inr (av_of ops n, g') \<and> dependency_map g' = dependency_map g"
  using assms by (cases "fetch_all_versions_for ops n") (auto simp: all_versions_def av_of_def not_found_only_def)

lemma visit_version_ok:
  assumes nf: "not_found_only ops" and ok: "walk_ok ops g" and v: "v \<noteq> ROOT"
  obtains g' where "visit_version ops visited v (ns, g) = Inr (ns @ filter (\<lambda>p. p \<notin> visited) (dict_keys (deps_of ops [] v)), g')"
    "walk_ok ops g'"
proof (cases "map_of (dependency_map g) v")
  case (Some d)
  then have "d = deps_of ops [] v" using ok v unfolding walk_ok_def by blast
  then show thesis using that [of g] ok Some by (simp add: visit_version_def dependencies_for_def)
next
  case None
  show thesis
  proof (cases "fetch_dependencies_for ops v")
    case (Inl e)
    then have "is_not_found e" "deps_of ops [] v = []" using nf v by (auto simp: not_found_only_def deps_of_def)
    then show thesis using that None Inl ok v by (auto simp: visit_version_def dependencies_for_def walk_ok_def)
  next
    case (Inr deps)
    then have "deps_of ops [] v = deps" using v by (simp add: deps_of_def)
    then show thesis using that None Inr ok v by (auto simp: visit_version_def dependencies_for_def walk_ok_def)
  qed
qed

lemma visit_versions_ok:
  assumes nf: "not_found_only ops" and "walk_ok ops g" "ROOT \<notin> set vs"
    and deps: "\<forall>v \<in> set vs. fst ` set (deps_of ops [] v) \<subseteq> N"
  shows "\<exists>ms g'. rfold (visit_version ops visited) vs (ns, g) = Inr (ns @ ms, g') \<and> walk_ok ops g' \<and> set ms \<subseteq> N - visited"
  using assms(2-4)
proof (induction vs arbitrary: ns g)
  case (Cons v vs)
  obtain g1 where g1: "visit_version ops visited v (ns, g) =
      Inr (ns @ filter (\<lambda>p. p \<notin> visited) (dict_keys (deps_of ops [] v)), g1)" "walk_ok ops g1"
    using visit_version_ok [OF nf Cons.prems(1)] Cons.prems(2) by (metis list.set_intros(1))
  let ?ks = "filter (\<lambda>p. p \<notin> visited) (dict_keys (deps_of ops [] v))"
  obtain ms g' where "rfold (visit_version ops visited) vs (ns @ ?ks, g1) = Inr ((ns @ ?ks) @ ms, g')" "walk_ok ops g'" "set ms \<subseteq> N - visited"
    using Cons.IH [OF g1(2)] Cons.prems(2,3) by (metis list.set_intros(2))
  then show ?case using g1(1) Cons.prems(3) by (intro exI [of _ "?ks @ ms"] exI [of _ g']) auto
qed simp

lemma visit_loop_ok:
  assumes nf: "not_found_only ops" and fin: "finite N"
    and deps: "\<And>n v. n \<in> N \<Longrightarrow> v \<in> av_of ops n \<Longrightarrow> v \<noteq> ROOT \<and> fst ` set (deps_of ops [] v) \<subseteq> N"
    and avf: "\<And>n. n \<in> N \<Longrightarrow> finite (av_of ops n)"
    and "walk_ok ops g" "set ns \<subseteq> N"
  shows "\<exists>g'. settles (\<lambda>n. visit_loop n ops visited ns g) (Some (Inr g')) \<and> walk_ok ops g'"
  using assms(5,6)
proof (induction "(card (N - visited), length (filter (\<lambda>n. n \<in> visited) ns), length ns)" arbitrary: visited ns g rule: less_induct)
  case less
  show ?case
  proof (cases "ns = []")
    case True
    have "settles (\<lambda>n. visit_loop n ops visited ns g) (Some (Inr g))"
      by (rule settles_Suc) (simp add: True settles_def)
    then show ?thesis using less.prems by blast
  next
    case False
    define name where "name = last ns"
    have name: "name \<in> N" using less.prems(2) False by (auto simp: name_def)
    have split: "ns = butlast ns @ [name]" using False by (simp add: name_def)
    obtain g1 where g1: "all_versions ops name g = Inr (av_of ops name, g1)" "dependency_map g1 = dependency_map g"
      using all_versions_walk [OF nf] by blast
    have ok1: "walk_ok ops g1" using less.prems(1) g1(2) by (simp add: walk_ok_def)
    let ?vs = "sorted_list_of_set (av_of ops name)"
    have set_vs: "set ?vs = av_of ops name" using avf [OF name] by simp
    have vs: "ROOT \<notin> set ?vs" "\<forall>v \<in> set ?vs. fst ` set (deps_of ops [] v) \<subseteq> N" using deps [OF name] set_vs by auto
    obtain ms g2 where g2: "rfold (visit_version ops visited) ?vs (butlast ns, g1) = Inr (butlast ns @ ms, g2)" "walk_ok ops g2"
      "set ms \<subseteq> N - visited"
      using visit_versions_ok [OF nf ok1 vs, of visited "butlast ns"] by (elim exE conjE) (rule that)
    have vp: "visit_package ops visited name (butlast ns) g = Inr (butlast ns @ ms, g2)"
      using g1(1) g2(1) by (simp add: visit_package_def)
    let ?V = "insert name visited"
    have sub: "set (butlast ns @ ms) \<subseteq> N" using less.prems(2) g2(3) in_set_butlastD [of _ ns] by auto
    have lt: "(card (N - ?V), length (filter (\<lambda>n. n \<in> ?V) (butlast ns @ ms)), length (butlast ns @ ms))
        < (card (N - visited), length (filter (\<lambda>n. n \<in> visited) ns), length ns)"
    proof (cases "name \<in> visited")
      case True
      have "filter (\<lambda>n. n \<in> visited) ms = []" using g2(3) by (auto simp: filter_empty_conv)
      moreover have "length (filter (\<lambda>n. n \<in> visited) ns) = Suc (length (filter (\<lambda>n. n \<in> visited) (butlast ns)))"
        by (subst split) (simp add: True)
      moreover have "?V = visited" using True by auto
      ultimately show ?thesis by simp
    next
      case False
      have "card (N - ?V) < card (N - visited)"
        by (rule psubset_card_mono) (use fin name False in auto)
      then show ?thesis by simp
    qed
    obtain g' where g': "settles (\<lambda>n. visit_loop n ops ?V (butlast ns @ ms) g2) (Some (Inr g'))" "walk_ok ops g'"
      using less.hyps [OF lt g2(2) sub] by blast
    have "settles (\<lambda>n. visit_loop n ops visited ns g) (Some (Inr g'))"
      by (rule settles_Suc) (use g'(1) vp False in \<open>simp add: name_def Let_def\<close>)
    then show ?thesis using g'(2) by blast
  qed
qed

end
