(* ===== verification/Resolver_Theorems.thy ===== *)
theory Resolver_Theorems
  imports Solver_Correct
begin

text \<open>
  The properties of the resolver as a whole: more fuel never changes an answer, the walk that
  fills the dependency map ends, a run ends and raises only \<open>ResolutionError\<close>, and what
  it returns is a solution.
\<close>

section \<open>Fuel\<close>

definition fuel_stable :: "(nat \<Rightarrow> 'v resolver_error + 'a) \<Rightarrow> bool" where
  "fuel_stable f \<longleftrightarrow> (\<forall>n. f n \<noteq> Inl OutOfFuel \<longrightarrow> f (Suc n) = f n)"

text \<open>What a solution is: one version per package, all of them exist, and every requirement is met.\<close>

definition valid_solution ::
  "'v graph_ops \<Rightarrow> 'v dependencies \<Rightarrow> (string, 'v package_version list) dict \<Rightarrow> 'v package_version list \<Rightarrow> bool" where
  "valid_solution ops direct over res \<longleftrightarrow>
     distinct (map pv_subject res) \<and> (\<forall>v \<in> set res. v \<in> av_of ops (pv_subject v))
     \<and> (\<forall>v \<in> insert ROOT (set res). \<forall>(n, W) \<in> req_of ops direct over v.
          \<exists>w \<in> set res. pv_subject w = n \<and> w \<in> W)"

lemma fuel_stableD: "fuel_stable f \<Longrightarrow> f n \<noteq> Inl OutOfFuel \<Longrightarrow> f (n + k) = f n"
  by (induction k) (auto simp: fuel_stable_def)

lemma fuel_stable_settles:
  assumes "fuel_stable f" "settles f r" "f n \<noteq> Inl OutOfFuel"
  shows "f n = r"
proof -
  obtain n0 where "\<forall>m \<ge> n0. f m = r" using assms(2) by (auto simp: settles_def)
  then have "f (n + n0) = r" by simp
  then show ?thesis using fuel_stableD [OF assms(1,3), of n0] by simp
qed

lemma settles_comp: "settles f r \<Longrightarrow> settles (\<lambda>n. h (f n)) (h r)"
  by (auto simp: settles_def)

lemma rbind_stable:
  assumes "rbind m f \<noteq> Inl OutOfFuel" "m \<noteq> Inl OutOfFuel \<Longrightarrow> m' = m"
    "\<And>x. m = Inr x \<Longrightarrow> f x \<noteq> Inl OutOfFuel \<Longrightarrow> f' x = f x"
  shows "rbind m' f' = rbind m f"
  using assms by (cases m) auto

lemma resolve_loop_stable:
  "resolve_loop n orig cur R \<noteq> Inl OutOfFuel \<Longrightarrow> resolve_loop (Suc n) orig cur R = resolve_loop n orig cur R"
proof (induction n arbitrary: cur)
  case (Suc n)
  show ?case
  proof (cases "is_failure cur")
    case False
    have "rbind (rlift PyErr (resolve_round cur (r_solution R))) (\<lambda>r. case r of
           Inl level \<Rightarrow> rmap (\<lambda>R'. (cur, if cur \<noteq> orig then add_incompatibility cur R' else R'))
               (lift_solution (backtrack level) R)
         | Inr next \<Rightarrow> resolve_loop (Suc n) orig next R) =
       rbind (rlift PyErr (resolve_round cur (r_solution R))) (\<lambda>r. case r of
           Inl level \<Rightarrow> rmap (\<lambda>R'. (cur, if cur \<noteq> orig then add_incompatibility cur R' else R'))
               (lift_solution (backtrack level) R)
         | Inr next \<Rightarrow> resolve_loop n orig next R)"
    proof (rule rbind_stable)
      show "rbind (rlift PyErr (resolve_round cur (r_solution R))) (\<lambda>r. case r of
           Inl level \<Rightarrow> rmap (\<lambda>R'. (cur, if cur \<noteq> orig then add_incompatibility cur R' else R'))
               (lift_solution (backtrack level) R)
         | Inr next \<Rightarrow> resolve_loop n orig next R) \<noteq> Inl OutOfFuel" using Suc.prems False by simp
    qed (use Suc.IH in \<open>auto split: sum.splits simp del: resolve_loop.simps\<close>)
    then show ?thesis
      using resolve_loop.simps(2) [of "Suc n" orig cur R] resolve_loop.simps(2) [of n orig cur R] False by argo
  qed simp
qed simp

lemma propagate_one_stable:
  assumes "propagate_one n i R \<noteq> Inl OutOfFuel"
  shows "propagate_one (Suc n) i R = propagate_one n i R"
  unfolding propagate_one_def
proof (rule rbind_stable)
  show "rbind (propagate_incompatibility i R)
       (\<lambda>(r, R1). case r of
          PConflict c \<Rightarrow>
            rbind (resolve_conflict n i R1)
              (\<lambda>(root, R2). rmap (\<lambda>(r2, R3). ([r2], R3)) (propagate_incompatibility root R2))
        | PSubject p \<Rightarrow> Inr ([PSubject p], R1)
        | PNone \<Rightarrow> Inr ([], R1)) \<noteq> Inl OutOfFuel"
    using assms by (simp add: propagate_one_def)
  fix x
  assume x: "(case x of (r, R1) \<Rightarrow> case r of
          PConflict c \<Rightarrow>
            rbind (resolve_conflict n i R1)
              (\<lambda>(root, R2). rmap (\<lambda>(r2, R3). ([r2], R3)) (propagate_incompatibility root R2))
        | PSubject p \<Rightarrow> Inr ([PSubject p], R1)
        | PNone \<Rightarrow> Inr ([], R1)) \<noteq> Inl OutOfFuel"
  obtain r R1 where [simp]: "x = (r, R1)" by (cases x)
  show "(case x of (r, R1) \<Rightarrow> case r of
          PConflict c \<Rightarrow>
            rbind (resolve_conflict (Suc n) i R1)
              (\<lambda>(root, R2). rmap (\<lambda>(r2, R3). ([r2], R3)) (propagate_incompatibility root R2))
        | PSubject p \<Rightarrow> Inr ([PSubject p], R1)
        | PNone \<Rightarrow> Inr ([], R1)) = (case x of (r, R1) \<Rightarrow> case r of
          PConflict c \<Rightarrow>
            rbind (resolve_conflict n i R1)
              (\<lambda>(root, R2). rmap (\<lambda>(r2, R3). ([r2], R3)) (propagate_incompatibility root R2))
        | PSubject p \<Rightarrow> Inr ([PSubject p], R1)
        | PNone \<Rightarrow> Inr ([], R1))"
    using x resolve_loop_stable [of n i i R1]
    by (cases r) (auto simp: resolve_conflict_def rbind_def split: sum.splits simp del: resolve_loop.simps)
qed simp

lemma propagate_for_stable:
  "propagate_for n s k ch R \<noteq> Inl OutOfFuel \<Longrightarrow> propagate_for (Suc n) s k ch R = propagate_for n s k ch R"
proof (induction n arbitrary: k ch R)
  case (Suc n)
  show ?case
  proof (cases "length (incompatibilities_of s R) \<le> k")
    case False
    let ?i = "incompatibilities_of s R ! k"
    have "rbind (propagate_one (Suc n) ?i R) (\<lambda>(new, R'). propagate_for (Suc n) s (Suc k) (ch @ new) R') =
        rbind (propagate_one n ?i R) (\<lambda>(new, R'). propagate_for n s (Suc k) (ch @ new) R')"
    proof (rule rbind_stable)
      show "rbind (propagate_one n ?i R) (\<lambda>(new, R'). propagate_for n s (Suc k) (ch @ new) R') \<noteq> Inl OutOfFuel"
        using Suc.prems False by simp
    qed (use propagate_one_stable Suc.IH in \<open>auto simp del: propagate_for.simps\<close>)
    then show ?thesis
      using propagate_for.simps(2) [of "Suc n" s k ch R] propagate_for.simps(2) [of n s k ch R] False by argo
  qed simp
qed simp

lemma propagate_loop_stable:
  "propagate_loop n ch R \<noteq> Inl OutOfFuel \<Longrightarrow> propagate_loop (Suc n) ch R = propagate_loop n ch R"
proof (induction n arbitrary: ch R)
  case (Suc n)
  show ?case
  proof (cases ch)
    case (Cons s rest)
    have "rbind (propagate_for (Suc n) s 0 rest R) (\<lambda>(ch', R'). propagate_loop (Suc n) ch' R') =
        rbind (propagate_for n s 0 rest R) (\<lambda>(ch', R'). propagate_loop n ch' R')"
    proof (rule rbind_stable)
      show "rbind (propagate_for n s 0 rest R) (\<lambda>(ch', R'). propagate_loop n ch' R') \<noteq> Inl OutOfFuel"
        using Suc.prems Cons by simp
    qed (use propagate_for_stable Suc.IH in \<open>auto simp del: propagate_for.simps propagate_loop.simps\<close>)
    then show ?thesis
      using propagate_loop.simps(3) [of "Suc n" s rest R] propagate_loop.simps(3) [of n s rest R] Cons by argo
  qed simp
qed simp

lemma solve_loop_stable:
  "solve_loop n ops cur R \<noteq> Inl OutOfFuel \<Longrightarrow> solve_loop (Suc n) ops cur R = solve_loop n ops cur R"
proof (induction n arbitrary: cur R)
  case (Suc n)
  show ?case
  proof (cases cur)
    case (Some p)
    let ?R = "R\<lparr>r_loop_iterations := Suc (r_loop_iterations R)\<rparr>"
    have "rbind (propagate (Suc n) p ?R) (\<lambda>R1. rbind (choose_package_version ops R1) (\<lambda>(cur, R2). solve_loop (Suc n) ops cur R2)) =
        rbind (propagate n p ?R) (\<lambda>R1. rbind (choose_package_version ops R1) (\<lambda>(cur, R2). solve_loop n ops cur R2))"
    proof (rule rbind_stable)
      show "rbind (propagate n p ?R) (\<lambda>R1. rbind (choose_package_version ops R1) (\<lambda>(cur, R2). solve_loop n ops cur R2)) \<noteq> Inl OutOfFuel"
        using Suc.prems Some by simp
      show "propagate (Suc n) p ?R = propagate n p ?R" if "propagate n p ?R \<noteq> Inl OutOfFuel"
        using propagate_loop_stable that unfolding propagate_def by blast
      fix R1
      assume ne: "rbind (choose_package_version ops R1) (\<lambda>(cur, R2). solve_loop n ops cur R2) \<noteq> Inl OutOfFuel"
      show "rbind (choose_package_version ops R1) (\<lambda>(cur, R2). solve_loop (Suc n) ops cur R2) =
          rbind (choose_package_version ops R1) (\<lambda>(cur, R2). solve_loop n ops cur R2)"
        by (rule rbind_stable [OF ne]) (use Suc.IH in \<open>auto simp del: solve_loop.simps\<close>)
    qed
    then show ?thesis
      using solve_loop.simps(3) [of "Suc n" ops p R] solve_loop.simps(3) [of n ops p R] Some by argo
  qed simp
qed simp

lemma run_stable: "fuel_stable (\<lambda>n. run n ops R)"
  unfolding fuel_stable_def
proof (intro allI impI)
  fix n
  assume ne: "run n ops R \<noteq> Inl OutOfFuel"
  have "solve (Suc n) ops R = solve n ops R" if "solve n ops R \<noteq> Inl OutOfFuel"
    using that unfolding solve_def by (rule rbind_stable) (use solve_loop_stable in \<open>auto simp del: solve_loop.simps\<close>)
  moreover have "solve n ops R \<noteq> Inl OutOfFuel" if "\<not> r_has_run_flag R"
    using ne that by (auto simp: run_def)
  ultimately show "run (Suc n) ops R = run n ops R" by (simp add: run_def)
qed

lemma visit_loop_stable: "visit_loop n ops visited ns g = Some r \<Longrightarrow> visit_loop (Suc n) ops visited ns g = Some r"
proof (induction n arbitrary: visited ns g)
  case (Suc n)
  show ?case
  proof (cases "ns = []")
    case False
    then show ?thesis
      using Suc.prems Suc.IH visit_loop.simps(2) [of "Suc n" ops visited ns g] visit_loop.simps(2) [of n ops visited ns g]
      by (auto simp: Let_def split: sum.splits simp del: visit_loop.simps)
  qed (use Suc.prems in simp)
qed simp

section \<open>The configuration\<close>

lemma graph_ok_walk:
  assumes g: "graph_ok ops N direct over"
  shows "n \<in> N \<Longrightarrow> v \<in> av_of ops n \<Longrightarrow> v \<noteq> ROOT \<and> fst ` set (deps_of ops [] v) \<subseteq> N"
    and "set (dict_keys direct) \<subseteq> N"
proof -
  have keys: "fst ` set (deps_of ops direct v) \<subseteq> N" if "v = ROOT \<or> (\<exists>n \<in> N. v \<in> av_of ops n)" for v
  proof
    fix m
    assume "m \<in> fst ` set (deps_of ops direct v)"
    then obtain W where "(m, accepted over m W) \<in> req_of ops direct over v" by (force simp: req_of_def)
    then show "m \<in> N" using graph_okD(5) [OF g that] by blast
  qed
  show "set (dict_keys direct) \<subseteq> N" using keys [of ROOT] by (simp add: deps_of_def)
  assume n: "n \<in> N" "v \<in> av_of ops n"
  then have "v \<noteq> ROOT" using graph_okD(3) [OF g n] graph_okD(4) [OF g] by auto
  then show "v \<noteq> ROOT \<and> fst ` set (deps_of ops [] v) \<subseteq> N" using keys [of v] n deps_of_direct [of v ops direct] by auto
qed

lemma build_transitive_ok:
  assumes g: "graph_ok ops N direct over" and root: "dependencies_for_root ops deps = Inr direct"
  shows "\<exists>g. settles (\<lambda>n. build_transitive_dependency_map n ops deps empty_graph) (Some (Inr g)) \<and> graph_state_ok ops direct g"
proof -
  have "walk_ok ops empty_graph" by (simp add: walk_ok_def empty_graph_def)
  then obtain g' where g': "settles (\<lambda>n. visit_loop n ops {} (dict_keys direct) empty_graph) (Some (Inr g'))" "walk_ok ops g'"
  proof -
    assume "walk_ok ops empty_graph"
    then have "\<exists>g'. settles (\<lambda>n. visit_loop n ops {} (dict_keys direct) empty_graph) (Some (Inr g')) \<and> walk_ok ops g'"
      using visit_loop_ok [of ops N empty_graph "dict_keys direct" "{}"] graph_okD(1,2) [OF g] graph_ok_walk [OF g]
      by (simp add: finite_graph_def)
    then show thesis using that by blast
  qed
  let ?g = "g'\<lparr>dependency_map := AList.update ROOT direct (dependency_map g')\<rparr>"
  have "settles (\<lambda>n. build_transitive_dependency_map n ops deps empty_graph) (Some (Inr ?g))"
    using settles_comp [OF g'(1), of "map_option (rmap (\<lambda>g'. g'\<lparr>dependency_map := AList.update ROOT direct (dependency_map g')\<rparr>))"]
    by (simp add: build_transitive_dependency_map_def root)
  moreover have "graph_state_ok ops direct ?g"
    using g'(2) deps_of_direct [of _ ops direct] unfolding graph_state_ok_def walk_ok_def
    by (auto simp: deps_of_def simp del: map_of_eq_Some_iff)
  ultimately show ?thesis by blast
qed

lemma new_config_stable: "fuel_stable (\<lambda>n. new_config n ops deps latest lock down over)"
  unfolding fuel_stable_def
proof (intro allI impI)
  fix n
  assume ne: "new_config n ops deps latest lock down over \<noteq> Inl OutOfFuel"
  then obtain r where "build_transitive_dependency_map n ops deps empty_graph = Some r"
    by (auto simp: new_config_def split: option.splits)
  moreover from this have "build_transitive_dependency_map (Suc n) ops deps empty_graph = Some r"
    using visit_loop_stable [of n ops "{}"]
    by (auto simp: build_transitive_dependency_map_def simp del: visit_loop.simps split: sum.splits)
  ultimately show "new_config (Suc n) ops deps latest lock down over = new_config n ops deps latest lock down over"
    by (simp add: new_config_def)
qed

lemma new_config_ok:
  assumes g: "graph_ok ops N direct over" and root: "dependencies_for_root ops deps = Inr direct"
  obtains c where "settles (\<lambda>n. new_config n ops deps latest lock down over) (Inr c)"
    "config_graph_ok ops direct c" "overrides c = over" "have_listed c = {}"
proof -
  obtain G where G: "settles (\<lambda>n. build_transitive_dependency_map n ops deps empty_graph) (Some (Inr G))" "graph_state_ok ops direct G"
    using build_transitive_ok [OF assms] by blast
  let ?c = "\<lparr>cfg_dependencies = deps, use_latest = latest, locked = lock, downgrades = down,
           overrides = over, cfg_graph = G, have_listed = {}, have_used_latest = {}, have_used_locked = {}\<rparr>"
  have "settles (\<lambda>n. new_config n ops deps latest lock down over) (Inr ?c)"
    using settles_comp [OF G(1), of "\<lambda>b. case b of None \<Rightarrow> Inl OutOfFuel
      | Some r \<Rightarrow> rlift GraphErr (rmap (\<lambda>g.
          \<lparr>cfg_dependencies = deps, use_latest = latest, locked = lock, downgrades = down,
           overrides = over, cfg_graph = g, have_listed = {}, have_used_latest = {}, have_used_locked = {}\<rparr>) r)"]
    by (simp add: new_config_def)
  then show thesis by (rule that) (use G(2) graph_okD(1) [OF g] in \<open>simp_all add: config_graph_ok_def\<close>)
qed

section \<open>The result\<close>

lemma decision_cases:
  assumes "trail_ok av N as" "d \<in> set as" "is_decision d"
  obtains (Root) "a_term d = RootConstraint True"
  | (Version) p v where "a_term d = VersionConstraint p {v} True (av p)" "v \<in> av p" "a_subject d = p" "p \<in> N"
proof -
  obtain k where k: "k < length as" "as ! k = d" using assms(2) by (auto simp: in_set_conv_nth)
  have step: "step_ok av N (take k as) d" using trail_ok_nth [OF assms(1) k(1)] k(2) by simp
  then have dec: "decision_ok av (take k as) d" using assms(3) by (simp add: step_ok_def is_decision_def)
  show thesis
  proof (cases "take k as = []")
    case True
    then show thesis using dec Root by (simp add: decision_ok_def)
  next
    case False
    then obtain v where v: "v \<in> av (a_subject d)" "a_term d = VersionConstraint (a_subject d) {v} True (av (a_subject d))"
      using dec by (auto simp: decision_ok_def)
    moreover from this have "a_subject d \<in> N" using step by (auto simp: step_ok_def)
    ultimately show thesis using Version by blast
  qed
qed

lemma result_decisions:
  assumes ok: "ps_ok av N S"
  shows "set (decisions S) = {v. \<exists>d \<in> set (ps_assignments S). is_decision d \<and> (\<exists>p. a_term d = VersionConstraint p {v} True (av p))}"
    and "distinct (decisions S)"
proof -
  have tr: "trail_ok av N (ps_assignments S)" and dec: "decisions_for (ps_assignments S) (ps_decisions S)"
    using ok by (simp_all add: ps_ok_def)
  have dict: "is_dict (ps_decisions S)" using dec by (simp add: decisions_for_def)
  let ?T = "set (filter is_version_constraint (map snd (ps_decisions S)))"
  have mem: "t \<in> set (map snd (ps_decisions S)) \<longleftrightarrow> (\<exists>d \<in> set (ps_assignments S). is_decision d \<and> a_term d = t)" for t
  proof -
    have "t \<in> set (map snd (ps_decisions S)) \<longleftrightarrow> (\<exists>p. map_of (ps_decisions S) p = Some t)"
      using dict by force
    also have "\<dots> \<longleftrightarrow> (\<exists>d \<in> set (ps_assignments S). is_decision d \<and> a_term d = t)"
      using dec unfolding decisions_for_def by blast
    finally show ?thesis .
  qed
  have one: "\<exists>p v. t = VersionConstraint p {v} True (av p)" if "t \<in> ?T" for t
  proof -
    have t: "t \<in> set (map snd (ps_decisions S))" "is_version_constraint t" using that by auto
    obtain d where d: "d \<in> set (ps_assignments S)" "is_decision d" "a_term d = t" "is_version_constraint t"
      using t(2) iffD1 [OF mem t(1)] by blast
    show ?thesis
    proof (cases rule: decision_cases [OF tr d(1,2)])
      case 1
      then show ?thesis using d(3,4) by auto
    next
      case (2 p v)
      then show ?thesis using d(3) by blast
    qed
  qed
  have fin: "finite (\<Union>t \<in> ?T. versions t)"
  proof (rule finite_UN_I)
    show "finite (versions t)" if "t \<in> ?T" for t using one [OF that] by auto
  qed simp
  have "v \<in> (\<Union>t \<in> ?T. versions t) \<longleftrightarrow>
      (\<exists>d \<in> set (ps_assignments S). is_decision d \<and> (\<exists>p. a_term d = VersionConstraint p {v} True (av p)))" for v
  proof
    assume "v \<in> (\<Union>t \<in> ?T. versions t)"
    then obtain t where t: "t \<in> ?T" "v \<in> versions t" by blast
    obtain p w where "t = VersionConstraint p {w} True (av p)" using one [OF t(1)] by blast
    with t mem [of t] show "\<exists>d \<in> set (ps_assignments S). is_decision d \<and> (\<exists>p. a_term d = VersionConstraint p {v} True (av p))"
      by auto
  next
    assume "\<exists>d \<in> set (ps_assignments S). is_decision d \<and> (\<exists>p. a_term d = VersionConstraint p {v} True (av p))"
    then obtain d p where "d \<in> set (ps_assignments S)" "is_decision d" "a_term d = VersionConstraint p {v} True (av p)" by blast
    then have "VersionConstraint p {v} True (av p) \<in> ?T" using mem [of "a_term d"] by auto
    then show "v \<in> (\<Union>t \<in> ?T. versions t)" by force
  qed
  then show "set (decisions S) = {v. \<exists>d \<in> set (ps_assignments S). is_decision d \<and> (\<exists>p. a_term d = VersionConstraint p {v} True (av p))}"
    unfolding decisions_def set_sorted_list_of_set [OF fin] by blast
  show "distinct (decisions S)" by (simp add: decisions_def)
qed

lemma decision_member:
  assumes "graph_ok ops N direct over" "trail_ok (av_of ops) N as"
    and "d \<in> set as" "is_decision d" "a_term d = VersionConstraint p {v} True (av_of ops p)"
  shows "v \<in> av_of ops p \<and> p \<in> N \<and> pv_subject v = p \<and> a_subject d = p"
proof (cases rule: decision_cases [OF assms(2-4)])
  case (2 q w)
  then show ?thesis using assms(5) graph_okD(3) [OF assms(1), of p v] by auto
qed (use assms(5) in simp)

text \<open>When the resolver is done, every requirement that its trail establishes is decided.\<close>

lemma solved_decides:
  assumes g: "graph_ok ops N direct over" and sol: "solved ops N direct over R"
    and n: "n \<in> N" and sat: "sat_by (av_of ops) (trail_of R) (require n W (av_of ops n))"
  obtains e w where "e \<in> set (trail_of R)" "is_decision e" "a_term e = VersionConstraint n {w} True (av_of ops n)" "w \<in> W"
proof -
  let ?av = "av_of ops" and ?as = "trail_of R"
  have ps: "ps_ok ?av N (r_solution R)" using sol by (simp add: solved_def state_ok_def resolver_ok_def)
  then have tr: "trail_ok ?av N ?as" and tf: "terms_for ?av ?as (ps_terms (r_solution R))"
    and dec: "decisions_for ?as (ps_decisions (r_solution R))" by (simp_all add: ps_ok_def)
  have h: "has n ?as" and sub: "poss ?av ?as n \<subseteq> Some ` (?av n \<inter> W)" using sat by (simp_all add: sat_by_def require_def)
  obtain t where t: "map_of (ps_terms (r_solution R)) n = Some (Some t)" "outcomes t = poss ?av ?as n"
    by (cases rule: terms_forE [OF tf, of n]) (use h in auto)
  have "None \<notin> poss ?av ?as n" using sub by blast
  then have pos: "is_positive t" unfolding t(2) [symmetric] None_outcomes by simp
  obtain us where us: "unsatisfied (r_solution R) = Inr us" "is_dict us"
    "\<And>p t. (p, t) \<in> set us \<longleftrightarrow> map_of (ps_terms (r_solution R)) p = Some (Some t) \<and> is_positive t
       \<and> map_of (ps_decisions (r_solution R)) p = None"
    using unsatisfied_ok [OF ps] by blast
  have "us = []" using sol us(1) by (simp add: solved_def)
  then have "map_of (ps_decisions (r_solution R)) n \<noteq> None" using us(3) [of n t] t(1) pos by simp
  then obtain e where e: "e \<in> set ?as" "is_decision e" "a_subject e = n" using dec unfolding decisions_for_def by blast
  obtain w where w: "a_term e = VersionConstraint n {w} True (?av n)"
    by (cases rule: decision_cases [OF tr e(1,2)]) (use e(3) n graph_okD(4) [OF g] in \<open>auto simp: a_subject_def\<close>)
  have "poss ?av ?as n \<subseteq> {Some w}" using e w by (auto simp: poss_def)
  then have "Some w \<in> poss ?av ?as n" using trail_poss_nonempty [OF tr, of n] by blast
  then have "w \<in> W" using sub by auto
  then show thesis using that e(1,2) w by blast
qed

lemma solved_valid:
  assumes g: "graph_ok ops N direct over" and sol: "solved ops N direct over R"
  shows "valid_solution ops direct over (result R)"
proof -
  let ?av = "av_of ops" and ?as = "trail_of R"
  have ps: "ps_ok ?av N (r_solution R)" "?as \<noteq> []" using sol by (simp_all add: solved_def state_ok_def resolver_ok_def)
  then have tr: "trail_ok ?av N ?as" and dec: "decisions_for ?as (ps_decisions (r_solution R))" by (simp_all add: ps_ok_def)
  have req: "requirements_ok ?av (req_of ops direct over) [] [] ?as" using sol by (simp add: solved_def)
  note member = decision_member [OF g tr]
  have res: "v \<in> set (result R) \<longleftrightarrow> (\<exists>d \<in> set ?as. is_decision d \<and> (\<exists>p. a_term d = VersionConstraint p {v} True (?av p)))" for v
    using result_decisions(1) [OF ps(1)] by (simp add: result_def)
  have decided: "\<exists>d \<in> set ?as. is_decision d \<and> a_term d = VersionConstraint (pv_subject v) {v} True (?av (pv_subject v))
      \<and> v \<in> ?av (pv_subject v) \<and> pv_subject v \<in> N" if "v \<in> set (result R)" for v
    using that res member by metis
  have unique: "v = w" if vw: "v \<in> set (result R)" "w \<in> set (result R)" "pv_subject v = pv_subject w" for v w
  proof -
    obtain d e where d: "d \<in> set ?as" "is_decision d" "a_term d = VersionConstraint (pv_subject v) {v} True (?av (pv_subject v))"
      and e: "e \<in> set ?as" "is_decision e" "a_term e = VersionConstraint (pv_subject w) {w} True (?av (pv_subject w))"
      using decided [OF vw(1)] decided [OF vw(2)] by blast
    have "a_subject d = a_subject e" using member [OF d] member [OF e] vw(3) by simp
    then have "map_of (ps_decisions (r_solution R)) (a_subject e) = Some (a_term d)"
      "map_of (ps_decisions (r_solution R)) (a_subject e) = Some (a_term e)"
      using dec d e unfolding decisions_for_def by blast+
    then show ?thesis using d(3) e(3) by simp
  qed
  have met: "\<exists>w \<in> set (result R). pv_subject w = n \<and> w \<in> W"
    if v: "v \<in> insert ROOT (set (result R))" and nW: "(n, W) \<in> req_of ops direct over v" for v n W
  proof -
    have "\<exists>d \<in> set ?as. is_decision d \<and> a_term d = dependee ?av v"
    proof (cases "v = ROOT")
      case True
      then show ?thesis using trail_first(1,3) [OF tr ps(2)] ps(2) by (intro bexI [of _ "?as ! 0"]) (auto simp: dependee_def)
    next
      case False
      then show ?thesis using v decided [of v] by (auto simp: dependee_def require_def)
    qed
    then obtain d where d: "d \<in> set ?as" "is_decision d" "a_term d = dependee ?av v" by blast
    have "established ?av ?as (a_level d) n W" by (cases rule: requirements_okD [OF req d nW]) simp_all
    then have sat: "sat_by ?av ?as (require n W (?av n))"
      unfolding established_def by (rule sat_by_mono [rotated]) auto
    have "v = ROOT \<or> (\<exists>n \<in> N. v \<in> ?av n)" using v decided by blast
    then have "n \<in> N" using graph_okD(5) [OF g _ nW] by blast
    then obtain e w where e: "e \<in> set ?as" "is_decision e" "a_term e = VersionConstraint n {w} True (?av n)" "w \<in> W"
      by (rule solved_decides [OF g sol _ sat])
    then show ?thesis using res member [OF e(1-3)] by blast
  qed
  have "distinct (map pv_subject (result R))"
    using unique result_decisions(2) [OF ps(1)] by (simp add: distinct_map result_def inj_on_def)
  then show ?thesis using met decided unfolding valid_solution_def by blast
qed

section \<open>Properties\<close>

definition build_and_run ::
  "nat \<Rightarrow> 'v::linorder graph_ops \<Rightarrow> 'v dependencies \<Rightarrow> 'v resolver_error + 'v package_version list" where
  "build_and_run n ops deps =
     rbind (new_config n ops deps {} [] {} []) (\<lambda>c. rmap fst (run n ops (new_resolver c)))"

text \<open>Small graphs for concrete runs.\<close>

definition no_str :: "nat \<Rightarrow> string" where "no_str v = []"

definition small_map :: "nat transitive_map" where
  "small_map = [(''a'', [(pv ''a'' 1, [pv ''b'' 1])]), (''b'', [(pv ''b'' 1, [])])]"

definition self_map :: "nat transitive_map" where
  "self_map = [(''b'', [(pv ''b'' 1, []), (pv ''b'' 2, [pv ''b'' 1])])]"

definition latest_map :: "nat transitive_map" where
  "latest_map = [(''a'', [(pv ''a'' 1, []), (pv ''a'' 2, [])])]"

lemma small_map_ok:
  "graph_ok (dict_graph no_str small_map) {''a'', ''b''} [(''a'', {pv ''a'' 1})] []"
proof -
  let ?ops = "dict_graph no_str small_map"
  have av: "av_of ?ops ''a'' = {pv ''a'' 1}" "av_of ?ops ''b'' = {pv ''b'' 1}"
    by (simp_all add: av_of_def dict_graph_def dict_fetch_all_versions_for_def small_map_def)
  have nf: "not_found_only ?ops"
    by (auto simp: not_found_only_def dict_graph_def dict_fetch_all_versions_for_def dict_fetch_dependencies_for_def
        split: option.splits)
  have req: "req_of ?ops [(''a'', {pv ''a'' 1})] [] ROOT = {(''a'', {pv ''a'' 1})}"
    "req_of ?ops [(''a'', {pv ''a'' 1})] [] (pv ''a'' 1) = {(''b'', {pv ''b'' 1})}"
    "req_of ?ops [(''a'', {pv ''a'' 1})] [] (pv ''b'' 1) = {}"
    by (simp_all add: req_of_def deps_of_def accepted_def dict_graph_def dict_fetch_dependencies_for_def small_map_def
        group_dependencies_def)
  show ?thesis unfolding graph_ok_def using av nf req by (auto simp: root_name_def)
qed

lemma small_map_run: "build_and_run 12 (dict_graph no_str small_map) [(''a'', {pv ''a'' 1})] = Inr [pv ''a'' 1, pv ''b'' 1]"
  by code_simp

lemma run_ok:
  assumes g: "graph_ok ops N direct over" and cfg: "config_graph_ok ops direct c" "overrides c = over" "have_listed c = {}"
  shows "\<exists>r. settles (\<lambda>n. run n ops (new_resolver c)) r \<and> (\<forall>e. r = Inl e \<longrightarrow> no_solution e)
    \<and> (\<forall>res R. r = Inr (res, R) \<longrightarrow> valid_solution ops direct over res)"
proof -
  obtain R0 where R0: "setup_root ops (new_resolver c) = Inr R0" "state_ok ops N direct over R0"
    "requirements_ok (av_of ops) (req_of ops direct over) (r_incompatibilities R0 root_name) root_name (trail_of R0)"
    by (rule setup_root_ok [OF g cfg])
  obtain x where x: "settles (\<lambda>n. solve_loop n ops (Some root_name) R0) x"
    "case x of Inl e \<Rightarrow> no_solution e | Inr R' \<Rightarrow> solved ops N direct over R'"
    using solve_loop_ok [OF g R0(2,3)] by blast
  have "run n ops (new_resolver c) = rmap (\<lambda>R'. (result R', R')) (solve_loop n ops (Some root_name) R0)" for n
    using R0(1) by (simp add: run_def new_resolver_def solve_def)
  then have "settles (\<lambda>n. run n ops (new_resolver c)) (rmap (\<lambda>R'. (result R', R')) x)"
    using settles_comp [OF x(1), of "rmap (\<lambda>R'. (result R', R'))"] by simp
  moreover have "\<forall>e. rmap (\<lambda>R'. (result R', R')) x = Inl e \<longrightarrow> no_solution e" using x(2) by (cases x) simp_all
  moreover have "\<forall>res R. rmap (\<lambda>R'. (result R', R')) x = Inr (res, R) \<longrightarrow> valid_solution ops direct over res"
    using x(2) solved_valid [OF g] by (cases x) simp_all
  ultimately show ?thesis by blast
qed

text \<open>
  C1. On a well-formed graph (finitely many versions, no package that requires itself, every
  requirement accepts an existing version) a list of versions the resolver returns is a
  solution: one version per package, each of them exists, and every requirement of the root
  and of every returned version is met by a returned version.
\<close>

theorem resolver_sound:
  assumes "graph_ok ops N direct over" "dependencies_for_root ops deps = Inr direct"
    and "new_config m ops deps latest lock down over = Inr c" "run n ops (new_resolver c) = Inr (res, R)"
  shows "valid_solution ops direct over res"
proof -
  obtain c' where c': "settles (\<lambda>n. new_config n ops deps latest lock down over) (Inr c')"
    "config_graph_ok ops direct c'" "overrides c' = over" "have_listed c' = {}"
    by (rule new_config_ok [OF assms(1,2)])
  have "c = c'" using fuel_stable_settles [OF new_config_stable c'(1), of m] assms(3) by simp
  then obtain r where r: "settles (\<lambda>n. run n ops (new_resolver c)) r"
    "\<forall>res R. r = Inr (res, R) \<longrightarrow> valid_solution ops direct over res"
    using run_ok [OF assms(1) c'(2-4)] by blast
  have "run n ops (new_resolver c) = r" by (rule fuel_stable_settles [OF run_stable r(1)]) (simp add: assms(4))
  then have "r = Inr (res, R)" using assms(4) by simp
  then show ?thesis using r(2) by blast
qed

theorem resolver_sound_witness:
  "valid_solution (dict_graph no_str small_map) [(''a'', {pv ''a'' 1})] [] [pv ''a'' 1, pv ''b'' 1]"
proof -
  obtain c R where "new_config 12 (dict_graph no_str small_map) [(''a'', {pv ''a'' 1})] {} [] {} [] = Inr c"
    "run 12 (dict_graph no_str small_map) (new_resolver c) = Inr ([pv ''a'' 1, pv ''b'' 1], R)"
    using small_map_run by (auto simp: build_and_run_def)
  then show ?thesis by (intro resolver_sound [OF small_map_ok]) (simp_all add: dict_graph_def)
qed



text \<open>
  A version that requires another version of its own package is accepted: the resolver
  returns version 2 of \<open>b\<close>, which requires version 1 of \<open>b\<close>, and the result is not a
  solution. (This is why the soundness theorem excludes such requirements.)
\<close>

theorem self_requirement_ignored:
  "build_and_run 12 (dict_graph no_str self_map) [(''b'', {pv ''b'' 1, pv ''b'' 2})] = Inr [pv ''b'' 2]
   \<and> \<not> valid_solution (dict_graph no_str self_map) [(''b'', {pv ''b'' 1, pv ''b'' 2})] [] [pv ''b'' 2]"
proof
  show "build_and_run 12 (dict_graph no_str self_map) [(''b'', {pv ''b'' 1, pv ''b'' 2})] = Inr [pv ''b'' 2]" by code_simp
  have "(''b'', {pv ''b'' 1}) \<in> req_of (dict_graph no_str self_map) [(''b'', {pv ''b'' 1, pv ''b'' 2})] [] (pv ''b'' 2)"
    by (simp add: req_of_def deps_of_def accepted_def dict_graph_def dict_fetch_dependencies_for_def self_map_def group_dependencies_def)
  then show "\<not> valid_solution (dict_graph no_str self_map) [(''b'', {pv ''b'' 1, pv ''b'' 2})] [] [pv ''b'' 2]"
    unfolding valid_solution_def by fastforce
qed

text \<open>
  Asking for the latest version of a package excludes it: with versions 1 and 2 of \<open>a\<close>
  and \<open>a\<close> in \<open>use_latest\<close>, the resolver returns version 1, and without the request
  version 2.
\<close>

theorem use_latest_excludes_latest:
  "rbind (new_config 12 (dict_graph no_str latest_map) [(''a'', {pv ''a'' 1, pv ''a'' 2})] {''a''} [] {} [])
     (\<lambda>c. rmap fst (run 12 (dict_graph no_str latest_map) (new_resolver c))) = Inr [pv ''a'' 1]
   \<and> build_and_run 12 (dict_graph no_str latest_map) [(''a'', {pv ''a'' 1, pv ''a'' 2})] = Inr [pv ''a'' 2]"
  by (rule conjI; code_simp)

end
