(* ===== verification/Secrets.thy ===== *)
theory Secrets
  imports Prelude "HOL-Library.Multiset"
begin

text \<open>
  Secrets and their rotation: \<open>util/secret/rotatable_secret.py\<close> and the readers and accessors
  of \<open>util/secret/secrets_accessor.py\<close>. An accessor is a pair of operations on a state of any
  type, and \<open>secrets_accessor\<close> is the contract of the base class: a secret that has been set
  is the one that is read. Rotation implements that contract on top of another accessor.

  The text form of a state map (JSON, with compression and base64 when that is chosen) is a
  pair of functions \<open>dumps\<close> and \<open>loads\<close>, of which the code needs that loading undoes dumping.
  Times are seconds.
\<close>

section \<open>State maps\<close>

datatype label = CURRENT | PREVIOUS | PROPOSED | REMOVABLE | REMOVED

record transition =
  tr_timestamp :: nat
  tr_from :: "label option"
  tr_to :: label

record envelope =
  ev_value :: string
  ev_transitions :: "transition list"

type_synonym statemap = "(label, envelope list) dict"

text \<open>The record is made inside a state map context, which fixes the time.\<close>

definition make_transition_record :: "nat \<Rightarrow> label option \<Rightarrow> label \<Rightarrow> transition" where
  "make_transition_record now from_label to_label = \<lparr>tr_timestamp = now, tr_from = from_label, tr_to = to_label\<rparr>"

definition add_transition :: "nat \<Rightarrow> label \<Rightarrow> label \<Rightarrow> envelope \<Rightarrow> envelope" where
  "add_transition now from_label to_label e =
     e\<lparr>ev_transitions := ev_transitions e @ [make_transition_record now (Some from_label) to_label]\<rparr>"

definition transition_labels :: "nat \<Rightarrow> label \<Rightarrow> label \<Rightarrow> statemap \<Rightarrow> statemap" where
  "transition_labels now from_label to_label m =
     (case map_of m from_label of
        None \<Rightarrow> m
      | Some es \<Rightarrow>
          (let old = (case map_of m to_label of None \<Rightarrow> [] | Some xs \<Rightarrow> xs)
           in dict_drop {from_label} (AList.update to_label (old @ map (add_transition now from_label to_label) es) m)))"

definition propose_value :: "nat \<Rightarrow> string \<Rightarrow> statemap \<Rightarrow> statemap" where
  "propose_value now value m =
     AList.update PROPOSED [\<lparr>ev_value = value, ev_transitions = [make_transition_record now None PROPOSED]\<rparr>]
       (transition_labels now PROPOSED REMOVABLE m)"

definition promote_proposed_value_to_current :: "nat \<Rightarrow> statemap \<Rightarrow> bool \<times> statemap" where
  "promote_proposed_value_to_current now m =
     (if map_of m PROPOSED = None then (False, m)
      else (True, transition_labels now PROPOSED CURRENT (transition_labels now CURRENT PREVIOUS m)))"

definition make_previous_values_removable :: "nat \<Rightarrow> statemap \<Rightarrow> statemap" where
  "make_previous_values_removable now m = transition_labels now PREVIOUS REMOVABLE m"

definition remove_removable_values :: "nat \<Rightarrow> statemap \<Rightarrow> statemap" where
  "remove_removable_values now m = transition_labels now REMOVABLE REMOVED m"

text \<open>The slice \<open>xs[-n:]\<close>: all of the list for \<open>n = 0\<close>.\<close>

definition last_slice :: "int \<Rightarrow> 'a list \<Rightarrow> 'a list" where
  "last_slice n xs = (if n = 0 then xs else if 0 < n then drop (length xs - nat n) xs else drop (nat (- n)) xs)"

definition prune_removed_values :: "int \<Rightarrow> statemap \<Rightarrow> statemap" where
  "prune_removed_values num_to_keep m =
     (case map_of m REMOVED of None \<Rightarrow> m | Some es \<Rightarrow> AList.update REMOVED (last_slice num_to_keep es) m)"

definition get_current_value :: "statemap \<Rightarrow> py_error + string option" where
  "get_current_value m =
     (case map_of m CURRENT of None \<Rightarrow> Inr None | Some [] \<Rightarrow> Inl IndexError | Some (e # _) \<Rightarrow> Inr (Some (ev_value e)))"

definition has_proposed_value :: "statemap \<Rightarrow> bool" where
  "has_proposed_value m = (map_of m PROPOSED \<noteq> None)"

definition get_in_use_secrets :: "statemap \<Rightarrow> string list" where
  "get_in_use_secrets m =
     concat (map (\<lambda>l. case map_of m l of None \<Rightarrow> [] | Some es \<Rightarrow> map ev_value es) [CURRENT, PREVIOUS, PROPOSED])"

section \<open>Accessors\<close>

type_synonym ('r, 's) getter = "string \<Rightarrow> 's \<Rightarrow> 'r option"
type_synonym ('r, 's) setter = "string \<Rightarrow> 'r \<Rightarrow> 's \<Rightarrow> 's"

definition load_statemap :: "('r \<Rightarrow> statemap) \<Rightarrow> ('r, 's) getter \<Rightarrow> string \<Rightarrow> 's \<Rightarrow> statemap" where
  "load_statemap loads get name s = (case get name s of None \<Rightarrow> [] | Some raw \<Rightarrow> loads raw)"

definition save_statemap :: "(statemap \<Rightarrow> 'r) \<Rightarrow> ('r, 's) setter \<Rightarrow> string \<Rightarrow> statemap \<Rightarrow> 's \<Rightarrow> 's" where
  "save_statemap dumps put name m s = put name (dumps m) s"

text \<open>\<open>_statemap\<close>: load, change, save.\<close>

definition with_statemap ::
  "('r \<Rightarrow> statemap) \<Rightarrow> (statemap \<Rightarrow> 'r) \<Rightarrow> ('r, 's) getter \<Rightarrow> ('r, 's) setter \<Rightarrow> string \<Rightarrow> (statemap \<Rightarrow> statemap) \<Rightarrow> 's \<Rightarrow> 's" where
  "with_statemap loads dumps get put name f s = save_statemap dumps put name (f (load_statemap loads get name s)) s"

definition rotatable_get :: "('r \<Rightarrow> statemap) \<Rightarrow> ('r, 's) getter \<Rightarrow> string \<Rightarrow> 's \<Rightarrow> py_error + string option" where
  "rotatable_get loads get name s = get_current_value (load_statemap loads get name s)"

definition rotatable_set ::
  "('r \<Rightarrow> statemap) \<Rightarrow> (statemap \<Rightarrow> 'r) \<Rightarrow> ('r, 's) getter \<Rightarrow> ('r, 's) setter \<Rightarrow> nat \<Rightarrow> nat \<Rightarrow> string \<Rightarrow> string \<Rightarrow> 's \<Rightarrow> 's" where
  "rotatable_set loads dumps get put now1 now2 name value s =
     with_statemap loads dumps get put name (\<lambda>m. snd (promote_proposed_value_to_current now2 m))
       (with_statemap loads dumps get put name (propose_value now1 value) s)"

definition dummy_get :: "('r, (string, 'r) dict) getter" where
  "dummy_get name s = map_of s name"

definition dummy_set :: "('r, (string, 'r) dict) setter" where
  "dummy_set name value s = AList.update name value s"



section \<open>Readers\<close>

datatype secret_error = SecretNotFound string

definition get_secret_or_raise :: "('r, 's) getter \<Rightarrow> string \<Rightarrow> 's \<Rightarrow> secret_error + 'r" where
  "get_secret_or_raise get name s = (case get name s of None \<Rightarrow> Inl (SecretNotFound name) | Some v \<Rightarrow> Inr v)"

fun chained_get :: "('r, 's) getter list \<Rightarrow> ('r, 's) getter" where
  "chained_get [] name s = None"
| "chained_get (g # gs) name s = (case g name s of Some v \<Rightarrow> Some v | None \<Rightarrow> chained_get gs name s)"

definition get_secret_and_version :: "(string \<Rightarrow> string) \<Rightarrow> (string, 's) getter \<Rightarrow> string \<Rightarrow> 's \<Rightarrow> string option \<times> string option" where
  "get_secret_and_version sha256 get name s =
     (let val = get name s
      in (val, case val of None \<Rightarrow> None | Some v \<Rightarrow> if v = [] then None else Some (sha256 v)))"

definition tracking_get ::
  "(string \<Rightarrow> string) \<Rightarrow> (string, 's) getter \<Rightarrow> string \<Rightarrow> 's \<Rightarrow> (string, string option) dict \<Rightarrow> string option \<times> (string, string option) dict" where
  "tracking_get sha256 get name s tracked =
     (case get_secret_and_version sha256 get name s of (value, version) \<Rightarrow> (value, AList.update name version tracked))"

section \<open>The contract\<close>

declare map_of_eq_Some_iff [simp del]

locale secrets_accessor =
  fixes get :: "('r, 's) getter" and put :: "('r, 's) setter"
  assumes get_set: "get name (put name v s) = Some v"
    and get_set_other: "other \<noteq> name \<Longrightarrow> get other (put name v s) = get other s"

interpretation dummy: secrets_accessor dummy_get dummy_set
  by unfold_locales (simp_all add: dummy_get_def dummy_set_def)

lemma map_of_transition:
  assumes "from_label \<noteq> to_label"
  shows "map_of (transition_labels now from_label to_label m) l =
    (case map_of m from_label of None \<Rightarrow> map_of m l
     | Some es \<Rightarrow> if l = from_label then None
         else if l = to_label then Some ((case map_of m to_label of None \<Rightarrow> [] | Some xs \<Rightarrow> xs) @ map (add_transition now from_label to_label) es)
         else map_of m l)"
  using assms by (auto simp: transition_labels_def Let_def split: option.splits)

lemma current_after_set:
  "get_current_value (snd (promote_proposed_value_to_current now2 (propose_value now1 value m))) = Inr (Some value)"
  by (simp add: promote_proposed_value_to_current_def propose_value_def get_current_value_def map_of_transition
      add_transition_def split: option.splits)

context secrets_accessor
begin

lemma load_save: "loads (dumps m) = m \<Longrightarrow> load_statemap loads get name (save_statemap dumps put name m s) = m"
  by (simp add: load_statemap_def save_statemap_def get_set)

lemma load_with:
  "(\<And>m. loads (dumps m) = m) \<Longrightarrow> load_statemap loads get name (with_statemap loads dumps get put name f s) = f (load_statemap loads get name s)"
  by (simp add: with_statemap_def load_save)

lemma load_with_other: "other \<noteq> name \<Longrightarrow> load_statemap loads get other (with_statemap loads dumps get put name f s) = load_statemap loads get other s"
  by (simp add: with_statemap_def load_statemap_def save_statemap_def get_set_other)

end

text \<open>
  C7. Rotation keeps the contract of an accessor: over any accessor that keeps it, setting a
  rotatable secret makes it the one that is read and leaves every other secret as it was,
  whatever state the rotation of the secret is in.
\<close>

theorem rotatable_accessor:
  assumes "secrets_accessor get put" "\<And>m. loads (dumps m) = m"
  shows "rotatable_get loads get name (rotatable_set loads dumps get put now1 now2 name value s) = Inr (Some value)
    \<and> (other \<noteq> name \<longrightarrow> rotatable_get loads get other (rotatable_set loads dumps get put now1 now2 name value s) = rotatable_get loads get other s)"
  using secrets_accessor.load_with [OF assms(1), of loads dumps, OF assms(2)]
    secrets_accessor.load_with_other [OF assms(1), of other name loads dumps]
  by (simp add: rotatable_get_def rotatable_set_def current_after_set)

theorem rotatable_accessor_witness:
  "rotatable_get id dummy_get ''db'' (rotatable_set id id dummy_get dummy_set 1 2 ''db'' ''s3cret'' []) = Inr (Some ''s3cret'')"
  using rotatable_accessor [OF dummy.secrets_accessor_axioms, of id id "''db''" 1 2 "''s3cret''" "[]" "''x''"] by simp


section \<open>Rotation\<close>

datatype rotation =
    Propose nat string
  | Promote nat
  | MakeRemovable nat
  | Remove nat
  | Prune int

fun apply_rotation :: "rotation \<Rightarrow> statemap \<Rightarrow> statemap" where
  "apply_rotation (Propose now v) m = propose_value now v m"
| "apply_rotation (Promote now) m = snd (promote_proposed_value_to_current now m)"
| "apply_rotation (MakeRemovable now) m = make_previous_values_removable now m"
| "apply_rotation (Remove now) m = remove_removable_values now m"
| "apply_rotation (Prune n) m = prune_removed_values n m"

inductive rotates :: "statemap \<Rightarrow> statemap \<Rightarrow> bool" where
  "rotates m (apply_rotation r m)"

text \<open>
  The documented form of a state map: the current and the proposed value are singletons, and
  the audit trail of a value ends with the label it has.
\<close>

definition envelope_ok :: "label \<Rightarrow> envelope \<Rightarrow> bool" where
  "envelope_ok l e \<longleftrightarrow> ev_transitions e \<noteq> [] \<and> tr_to (last (ev_transitions e)) = l"

definition statemap_ok :: "statemap \<Rightarrow> bool" where
  "statemap_ok m \<longleftrightarrow> is_dict m \<and> (\<forall>l es. map_of m l = Some es \<longrightarrow> (\<forall>e \<in> set es. envelope_ok l e))
     \<and> (\<forall>l \<in> {CURRENT, PROPOSED}. \<forall>es. map_of m l = Some es \<longrightarrow> length es = 1)"

lemma add_transition_ok: "envelope_ok to_label (add_transition now from_label to_label e)"
  by (simp add: envelope_ok_def add_transition_def make_transition_record_def)

lemma transition_labels_ok:
  assumes "statemap_ok m" "from_label \<noteq> to_label" "to_label \<in> {CURRENT, PROPOSED} \<longrightarrow> map_of m to_label = None \<and> from_label \<in> {CURRENT, PROPOSED}"
  shows "statemap_ok (transition_labels now from_label to_label m)"
proof -
  have d: "is_dict m" using assms(1) by (simp add: statemap_ok_def)
  have e: "envelope_ok l e" if "map_of m l = Some es" "e \<in> set es" for l es e using assms(1) that by (simp add: statemap_ok_def)
  have s: "length es = 1" if "l \<in> {CURRENT, PROPOSED}" "map_of m l = Some es" for l es using assms(1) that by (auto simp: statemap_ok_def)
  have "is_dict (transition_labels now from_label to_label m)"
    using d by (simp add: transition_labels_def Let_def split: option.split)
  moreover have "envelope_ok l e" if x: "map_of (transition_labels now from_label to_label m) l = Some es" "e \<in> set es" for l es e
    using x e add_transition_ok [of to_label now from_label]
    by (auto simp: map_of_transition [OF assms(2)] split: option.splits if_splits)
  moreover have "length es = 1" if x: "l \<in> {CURRENT, PROPOSED}" "map_of (transition_labels now from_label to_label m) l = Some es" for l es
    using x(2) s [of l es] s [of from_label] x(1) assms(3)
    by (auto simp: map_of_transition [OF assms(2)] split: option.splits if_splits)
  ultimately show ?thesis by (simp add: statemap_ok_def)
qed

lemma update_ok:
  assumes "statemap_ok m" "\<forall>e \<in> set es. envelope_ok l e" "l \<in> {CURRENT, PROPOSED} \<longrightarrow> length es = 1"
  shows "statemap_ok (AList.update l es m)"
  using assms by (auto simp: statemap_ok_def)

lemma set_last_slice: "set (last_slice n xs) \<subseteq> set xs"
  by (auto simp: last_slice_def dest: in_set_dropD)

lemma promote_ok:
  assumes "statemap_ok m"
  shows "statemap_ok (snd (promote_proposed_value_to_current now m))"
proof -
  let ?m = "transition_labels now CURRENT PREVIOUS m"
  have ok: "statemap_ok ?m" using transition_labels_ok [OF assms, of CURRENT PREVIOUS now] by simp
  have "map_of ?m CURRENT = None" by (simp add: map_of_transition split: option.splits)
  then have "statemap_ok (transition_labels now PROPOSED CURRENT ?m)" using transition_labels_ok [OF ok, of PROPOSED CURRENT now] by simp
  then show ?thesis using assms by (simp add: promote_proposed_value_to_current_def)
qed

lemma propose_ok: "statemap_ok m \<Longrightarrow> statemap_ok (propose_value now v m)"
  unfolding propose_value_def
  by (intro update_ok transition_labels_ok) (simp_all add: envelope_ok_def make_transition_record_def)

lemma rotate_ok: "statemap_ok m \<Longrightarrow> statemap_ok (apply_rotation r m)"
proof (cases r)
  case (Prune n)
  assume ok: "statemap_ok m"
  show ?thesis
  proof (cases "map_of m REMOVED")
    case (Some es)
    then have "\<forall>e \<in> set (last_slice n es). envelope_ok REMOVED e" using ok set_last_slice [of n es] by (auto simp: statemap_ok_def)
    then show ?thesis using Prune Some update_ok [OF ok, of "last_slice n es" REMOVED] by (simp add: prune_removed_values_def)
  qed (use Prune ok in \<open>simp add: prune_removed_values_def\<close>)
qed (auto intro: promote_ok propose_ok transition_labels_ok simp: make_previous_values_removable_def remove_removable_values_def)

interpretation rotation: invariant_system "\<lambda>m. m = []" rotates statemap_ok
proof
  show "statemap_ok m" if "m = []" for m using that by (simp add: statemap_ok_def)
  show "statemap_ok m'" if "statemap_ok m" "rotates m m'" for m m' using that(2,1) by (cases rule: rotates.cases) (simp add: rotate_ok)
qed

definition secret_values :: "statemap \<Rightarrow> string multiset" where
  "secret_values m = (\<Sum>(l, es) \<leftarrow> m. image_mset ev_value (mset es))"

lemma values_update:
  "is_dict m \<Longrightarrow> secret_values (AList.update l es m) + (case map_of m l of None \<Rightarrow> {#} | Some xs \<Rightarrow> image_mset ev_value (mset xs))
    = secret_values m + image_mset ev_value (mset es)"
proof (induction m)
  case (Cons p m)
  then show ?case by (cases p) (auto simp: secret_values_def add_ac map_of_eq_None_iff [symmetric] split: option.splits if_splits)
qed (simp add: secret_values_def)

lemma values_drop: "is_dict m \<Longrightarrow> secret_values (dict_drop {l} m) + (case map_of m l of None \<Rightarrow> {#} | Some xs \<Rightarrow> image_mset ev_value (mset xs)) = secret_values m"
proof (induction m)
  case (Cons p m)
  moreover have "dict_drop {l} m = m" if "map_of m l = None" using that by (force simp: dict_drop_def map_of_eq_None_iff filter_id_conv)
  ultimately show ?case by (cases p) (auto simp: secret_values_def dict_drop_def add_ac map_of_eq_None_iff [symmetric] split: option.splits if_splits)
qed (simp add: secret_values_def dict_drop_def)

lemma value_add_transition: "image_mset ev_value (mset (map (add_transition now a b) es)) = image_mset ev_value (mset es)"
  by (simp add: image_mset.compositionality comp_def add_transition_def)

lemma values_transition:
  assumes "is_dict m" "from_label \<noteq> to_label"
  shows "secret_values (transition_labels now from_label to_label m) = secret_values m"
proof (cases "map_of m from_label")
  case (Some es)
  define old where "old = (case map_of m to_label of None \<Rightarrow> [] | Some xs \<Rightarrow> xs)"
  define m1 where "m1 = AList.update to_label (old @ map (add_transition now from_label to_label) es) m"
  have t: "transition_labels now from_label to_label m = dict_drop {from_label} m1" using Some by (simp add: transition_labels_def m1_def old_def Let_def)
  have "is_dict m1" using assms(1) by (simp add: m1_def)
  moreover have "map_of m1 from_label = Some es" using Some assms(2) by (simp add: m1_def)
  ultimately have d: "secret_values (dict_drop {from_label} m1) + image_mset ev_value (mset es) = secret_values m1" using values_drop [of m1 from_label] by simp
  have o: "(case map_of m to_label of None \<Rightarrow> {#} | Some xs \<Rightarrow> image_mset ev_value (mset xs)) = image_mset ev_value (mset old)"
    by (simp add: old_def split: option.split)
  have "secret_values m1 + image_mset ev_value (mset old) = secret_values m + (image_mset ev_value (mset old) + image_mset ev_value (mset es))"
    using values_update [OF assms(1), of to_label "old @ map (add_transition now from_label to_label) es"] value_add_transition [of now from_label to_label es] o
    by (simp add: m1_def)
  then have "secret_values m1 = secret_values m + image_mset ev_value (mset es)" by (simp add: add_ac)
  then show ?thesis using d t by simp
qed (simp add: transition_labels_def)

fun proposed_by :: "rotation \<Rightarrow> string multiset" where
  "proposed_by (Propose now v) = {#v#}"
| "proposed_by _ = {#}"

definition is_prune :: "rotation \<Rightarrow> bool" where
  "is_prune r \<longleftrightarrow> (\<exists>n. r = Prune n)"

lemma rotate_values:
  assumes "statemap_ok m" "\<not> is_prune r"
  shows "secret_values (apply_rotation r m) = secret_values m + proposed_by r"
proof -
  have d: "is_dict m" using assms(1) by (simp add: statemap_ok_def)
  have td: "is_dict (transition_labels now a b m)" for now a b using d by (simp add: transition_labels_def Let_def split: option.split)
  have "secret_values (propose_value now v m) = secret_values m + {#v#}" for now v
  proof -
    have "map_of (transition_labels now PROPOSED REMOVABLE m) PROPOSED = None" by (simp add: map_of_transition split: option.splits)
    then show ?thesis using values_update [OF td, of PROPOSED _ now PROPOSED REMOVABLE] values_transition [OF d, of PROPOSED REMOVABLE now]
      by (simp add: propose_value_def)
  qed
  then show ?thesis using assms(2) d td values_transition
    by (cases r) (simp_all add: is_prune_def promote_proposed_value_to_current_def make_previous_values_removable_def remove_removable_values_def)
qed

text \<open>
  C35. Rotation keeps its books. In every state map reached by proposing, promoting, retiring
  and pruning values, the current and the proposed value are unique and the audit trail of
  each value ends in the label it carries; and no step but pruning loses or duplicates a
  value: the values after it are those before it and the one it proposes.
\<close>

theorem rotation_keeps_values:
  assumes "rotates\<^sup>*\<^sup>* [] m"
  shows "(\<forall>l es. map_of m l = Some es \<longrightarrow> (\<forall>e \<in> set es. ev_transitions e \<noteq> [] \<and> tr_to (last (ev_transitions e)) = l))
    \<and> (\<forall>l \<in> {CURRENT, PROPOSED}. \<forall>es. map_of m l = Some es \<longrightarrow> length es = 1)
    \<and> (\<forall>r. \<not> is_prune r \<longrightarrow> secret_values (apply_rotation r m) = secret_values m + proposed_by r)"
proof -
  have ok: "statemap_ok m" by (rule rotation.reachable_inv [OF _ assms]) simp
  then show ?thesis using rotate_values [OF ok] by (simp add: statemap_ok_def envelope_ok_def)
qed

definition demo_statemap :: statemap where
  "demo_statemap = apply_rotation (Promote 2) (apply_rotation (Propose 1 ''s3cret'') [])"

theorem rotation_keeps_values_witness: "secret_values (apply_rotation (Propose 3 ''next'') demo_statemap) = {#''s3cret'', ''next''#}"
proof -
  have "rotates\<^sup>*\<^sup>* [] demo_statemap" unfolding demo_statemap_def
    by (intro rtranclp.rtrancl_into_rtrancl [OF r_into_rtranclp]) (rule rotates.intros)+
  moreover have "\<not> is_prune (Propose 3 ''next'')" by (simp add: is_prune_def)
  moreover have "secret_values demo_statemap = {#''s3cret''#}" by code_simp
  ultimately have "secret_values (apply_rotation (Propose 3 ''next'') demo_statemap) = {#''s3cret''#} + proposed_by (Propose 3 ''next'')"
    using rotation_keeps_values [of demo_statemap] by metis
  then show ?thesis by simp
qed

text \<open>Keeping no removed values keeps all of them.\<close>

lemma prune_zero_keeps_all: "prune_removed_values 0 [(REMOVED, es)] = [(REMOVED, es)]"
  by (simp add: prune_removed_values_def last_slice_def)

end
