(* ===== verification/Semver.thy ===== *)
theory Semver
  imports Regex
begin

text \<open>
  The version test of the setup scripts, \<open>src/sh/setup/semver.py\<close>: parsing of semantic
  versions, their comparison, and the command that checks a version against a list of
  conditions. An exception ends the command with an error status other than its results.
\<close>

section \<open>Parsing\<close>

definition num_pattern :: regex where
  "num_pattern = Alt (Lit CHR ''0'') (Seq (Cls (\<lambda>c. CHR ''1'' \<le> c \<and> c \<le> CHR ''9'')) (Many is_digit))"

abbreviation is_ident :: "char \<Rightarrow> bool" where
  "is_ident c \<equiv> is_digit c \<or> is_letter c \<or> c = CHR ''-''"

definition prerelease_ident :: regex where
  "prerelease_ident = Alt (Lit CHR ''0'') (Alt (Seq (Cls (\<lambda>c. CHR ''1'' \<le> c \<and> c \<le> CHR ''9'')) (Many is_digit))
     (Seq (Many is_digit) (Seq (Cls (\<lambda>c. is_letter c \<or> c = CHR ''-'')) (Many is_ident))))"

definition SEMVER_REGEX :: regex where
  "SEMVER_REGEX = Seq (Group ''major'' num_pattern)
     (Seq (Opt (Seq (Lit CHR ''.'') (Seq (Group ''minor'' num_pattern) (Opt (Seq (Lit CHR ''.'') (Group ''patch'' num_pattern))))))
     (Seq (Opt (Seq (Lit CHR ''-'') (Group ''prerelease'' (Seq prerelease_ident (Star (Seq (Lit CHR ''.'') prerelease_ident))))))
     (Seq (Opt (Seq (Lit CHR ''+'') (Group ''build'' (Seq (Plus is_ident) (Star (Seq (Lit CHR ''.'') (Plus is_ident))))))) End)))"

record semver =
  sv_major :: nat
  sv_minor :: nat
  sv_patch :: nat
  sv_prerelease :: "string option"
  sv_build :: "string option"

definition int_group :: "groups \<Rightarrow> string \<Rightarrow> nat" where
  "int_group g n = (case rx_group g n of None \<Rightarrow> 0 | Some s \<Rightarrow> str_nat s)"

definition semver_parse :: "string \<Rightarrow> py_error + semver" where
  "semver_parse version_str =
     (case rx_match SEMVER_REGEX version_str of
        None \<Rightarrow> Inl ValueError
      | Some (g, _) \<Rightarrow> Inr \<lparr>sv_major = int_group g ''major'', sv_minor = int_group g ''minor'', sv_patch = int_group g ''patch'',
          sv_prerelease = rx_group g ''prerelease'', sv_build = rx_group g ''build''\<rparr>)"

section \<open>Comparing\<close>

definition cmp_int :: "nat \<Rightarrow> nat \<Rightarrow> int" where
  "cmp_int x y = int x - int y"

definition semver_compare :: "semver \<Rightarrow> semver \<Rightarrow> int" where
  "semver_compare l r =
     (if cmp_int (sv_major l) (sv_major r) \<noteq> 0 then cmp_int (sv_major l) (sv_major r)
      else if cmp_int (sv_minor l) (sv_minor r) \<noteq> 0 then cmp_int (sv_minor l) (sv_minor r)
      else if cmp_int (sv_patch l) (sv_patch r) \<noteq> 0 then cmp_int (sv_patch l) (sv_patch r)
      else 0)"

definition is_op_char :: "char \<Rightarrow> bool" where
  "is_op_char c = (c = CHR ''>'' \<or> c = CHR ''<'' \<or> c = CHR ''='')"

text \<open>The index loop stops at the first character that is not part of an operator.\<close>

definition split_condition :: "string \<Rightarrow> string \<times> string" where
  "split_condition condition = (takeWhile is_op_char condition, dropWhile is_op_char condition)"

definition complies :: "string \<Rightarrow> int \<Rightarrow> py_error + bool" where
  "complies op c =
     (if op = ''='' then Inr (c = 0)
      else if op = ''<'' then Inr (c < 0)
      else if op = ''<='' then Inr (c \<le> 0)
      else if op = ''>'' then Inr (c > 0)
      else if op = ''>='' then Inr (c \<ge> 0)
      else Inl ValueError)"

fun check_conditions :: "semver \<Rightarrow> string list \<Rightarrow> py_error + nat" where
  "check_conditions left [] = Inr 0"
| "check_conditions left (condition # rest) =
     (let (op, right_str) = split_condition condition in
      rbind (semver_parse right_str) (\<lambda>right.
        rbind (complies op (semver_compare left right)) (\<lambda>ok.
          if ok then check_conditions left rest else Inr 1)))"

definition semver_main :: "string list \<Rightarrow> py_error + nat" where
  "semver_main args =
     (case args of
        [] \<Rightarrow> Inl IndexError
      | v # rest \<Rightarrow> rbind (semver_parse v) (\<lambda>left.
          case rest of [] \<Rightarrow> Inl IndexError | conditions # _ \<Rightarrow> check_conditions left (split_on CHR '','' conditions)))"

section \<open>Round trip\<close>

lemma dropWhile_digits:
  assumes "t = [] \<or> \<not> is_digit (hd t)"
  shows "dropWhile is_digit (nat_str n @ t) = t"
proof -
  have "dropWhile is_digit (nat_str n @ t) = dropWhile is_digit t" by (rule dropWhile_append2) (use nat_str_digits in blast)
  moreover have "dropWhile is_digit t = t" using assms by (cases t) auto
  ultimately show ?thesis by simp
qed

lemma num_match:
  assumes "t = [] \<or> \<not> is_digit (hd t)"
  shows "rx_match num_pattern (nat_str n @ t) = Some ([], t)"
proof (cases "n = 0")
  case True
  then show ?thesis using nat_str_first [of n] by (simp add: num_pattern_def rx_match_Alt)
next
  case False
  then obtain c u where c: "nat_str n = c # u" "CHR ''1'' \<le> c" "c \<le> CHR ''9''" using nat_str_first [of n] by (cases "nat_str n") auto
  have "dropWhile is_digit (u @ t) = t"
    using dropWhile_digits [OF assms, of n] c nat_str_digits [of n] by auto
  then have "rx_match (Seq (Cls (\<lambda>c. CHR ''1'' \<le> c \<and> c \<le> CHR ''9'')) (Many is_digit)) (c # u @ t) = Some ([] @ [], t)"
    using c by (intro rx_match_Seq [of _ _ "[]" "u @ t"]) simp_all
  moreover have "c \<noteq> CHR ''0''" using c(2) by auto
  ultimately show ?thesis using c(1) by (simp add: num_pattern_def rx_match_Alt)
qed

lemma num_group:
  assumes "t = [] \<or> \<not> is_digit (hd t)"
  shows "rx_match (Group g num_pattern) (nat_str n @ t) = Some ([(g, nat_str n)], t)"
  using rx_match_Group [OF num_match [OF assms, of n], of g] by simp

lemma lit_match: "rx_match (Lit c) (c # s) = Some ([], s)"
  by simp

text \<open>
  A printed release version is read back as it is, for every major, minor and patch number.
\<close>

theorem semver_roundtrip:
  "semver_parse (nat_str a @ ''.'' @ nat_str b @ ''.'' @ nat_str c)
   = Inr \<lparr>sv_major = a, sv_minor = b, sv_patch = c, sv_prerelease = None, sv_build = None\<rparr>"
proof -
  let ?c = "CHR ''.'' # nat_str c" let ?b = "CHR ''.'' # nat_str b @ ?c"
  have patch: "rx_match (Opt (Seq (Lit CHR ''.'') (Group ''patch'' num_pattern))) ?c = Some ([(''patch'', nat_str c)], [])"
    using rx_match_Seq [OF lit_match num_group [of "[]" "''patch''" c]] by (simp add: rx_match_Opt)
  have "rx_match (Seq (Group ''minor'' num_pattern) (Opt (Seq (Lit CHR ''.'') (Group ''patch'' num_pattern)))) (nat_str b @ ?c)
      = Some ([(''minor'', nat_str b), (''patch'', nat_str c)], [])"
    using rx_match_Seq [OF num_group [of ?c "''minor''" b] patch] by simp
  from rx_match_Seq [OF lit_match this]
  have minor: "rx_match (Opt (Seq (Lit CHR ''.'') (Seq (Group ''minor'' num_pattern) (Opt (Seq (Lit CHR ''.'') (Group ''patch'' num_pattern)))))) ?b
      = Some ([(''minor'', nat_str b), (''patch'', nat_str c)], [])"
    by (simp add: rx_match_Opt)
  have opt: "rx_match (Opt (Seq (Lit x) r)) [] = Some ([], [])" for x r
    using rx_match_Seq_fail [of "Lit x" "[]" r] by (simp add: rx_match_Opt)
  have "rx_match SEMVER_REGEX (nat_str a @ ?b) = Some ([(''major'', nat_str a)] @ [(''minor'', nat_str b), (''patch'', nat_str c)] @ [] @ [] @ [], [])"
    unfolding SEMVER_REGEX_def
    by (intro rx_match_Seq [OF num_group] rx_match_Seq [OF minor] rx_match_Seq [OF opt] rx_match_End) simp
  then show ?thesis by (simp add: semver_parse_def int_group_def rx_group_def)
qed

section \<open>The command\<close>

definition release_triple :: "semver \<Rightarrow> nat \<times> nat \<times> nat" where
  "release_triple v = (sv_major v, sv_minor v, sv_patch v)"

lemma compare_release:
  "semver_compare l r < 0 \<longleftrightarrow> release_triple l < release_triple r" "semver_compare l r = 0 \<longleftrightarrow> release_triple l = release_triple r"
  "0 < semver_compare l r \<longleftrightarrow> release_triple r < release_triple l"
  by (auto simp: semver_compare_def cmp_int_def release_triple_def)

datatype condition_op = Eq | Lt | Le | Gt | Ge

fun op_str :: "condition_op \<Rightarrow> string" where
  "op_str Eq = ''=''" | "op_str Lt = ''<''" | "op_str Le = ''<=''" | "op_str Gt = ''>''" | "op_str Ge = ''>=''"

fun op_holds :: "condition_op \<Rightarrow> nat \<times> nat \<times> nat \<Rightarrow> nat \<times> nat \<times> nat \<Rightarrow> bool" where
  "op_holds Eq a b = (a = b)" | "op_holds Lt a b = (a < b)" | "op_holds Le a b = (a \<le> b)" | "op_holds Gt a b = (b < a)" | "op_holds Ge a b = (b \<le> a)"

lemma complies_op: "complies (op_str op) (semver_compare l r) = Inr (op_holds op (release_triple l) (release_triple r))"
proof -
  have "semver_compare l r \<le> 0 \<longleftrightarrow> release_triple l \<le> release_triple r" "0 \<le> semver_compare l r \<longleftrightarrow> release_triple r \<le> release_triple l"
    using compare_release [of l r] by (metis not_less)+
  then show ?thesis using compare_release [of l r] by (cases op) (simp_all add: complies_def)
qed

text \<open>\<open>(op, s)\<close> is a condition on a version \<open>r\<close>.\<close>

definition condition_on :: "condition_op \<times> string \<Rightarrow> semver \<Rightarrow> bool" where
  "condition_on os r \<longleftrightarrow> semver_parse (snd os) = Inr r \<and> CHR '','' \<notin> set (snd os)"

lemma parse_first: "semver_parse s = Inr r \<Longrightarrow> s = [] \<or> \<not> is_op_char (hd s)"
proof (rule ccontr)
  assume p: "semver_parse s = Inr r" and "\<not> (s = [] \<or> \<not> is_op_char (hd s))"
  then obtain c u where s: "s = c # u" "is_op_char c" by (cases s) auto
  have "rx_match num_pattern s = None" using s by (auto simp: num_pattern_def rx_match_Alt rx_match_Seq_fail is_op_char_def)
  then have "rx_match SEMVER_REGEX s = None" unfolding SEMVER_REGEX_def by (intro rx_match_Seq_fail) (simp add: rx_match_None)
  then show False using p by (simp add: semver_parse_def)
qed

lemma split_condition_op:
  assumes "condition_on (op, s) r"
  shows "split_condition (op_str op @ s) = (op_str op, s)"
proof -
  have "s = [] \<or> \<not> is_op_char (hd s)" using assms parse_first by (auto simp: condition_on_def)
  then have "takeWhile is_op_char s = []" "dropWhile is_op_char s = s" by (cases s; simp)+
  then show ?thesis by (cases op) (simp_all add: split_condition_def is_op_char_def)
qed

lemma check_conditions_ok:
  assumes "list_all2 condition_on cs rs"
  shows "check_conditions l (map (\<lambda>(op, s). op_str op @ s) cs) =
    Inr (if list_all2 (\<lambda>(op, s) r. op_holds op (release_triple l) (release_triple r)) cs rs then 0 else 1)"
  using assms
proof (induction cs rs rule: list_all2_induct)
  case (Cons c cs r rs)
  obtain op s where "c = (op, s)" by (cases c)
  then show ?case using Cons split_condition_op [of op s r] complies_op [of op l r] by (simp add: condition_on_def)
qed simp

text \<open>
  C32. The command answers the question it is asked: for a valid version and a list of valid
  conditions it succeeds with status 0 exactly when the version satisfies all of them in the
  order of their releases, and with status 1 otherwise.
\<close>

theorem semver_main_correct:
  assumes "semver_parse v = Inr l" "cs \<noteq> []" "list_all2 condition_on cs rs"
  shows "semver_main [v, str_join '','' (map (\<lambda>(op, s). op_str op @ s) cs)] =
    Inr (if list_all2 (\<lambda>(op, s) r. op_holds op (release_triple l) (release_triple r)) cs rs then 0 else 1)"
proof -
  have "CHR '','' \<notin> set (op_str op @ s)" if mem: "(op, s) \<in> set cs" for op s
  proof -
    obtain i where "i < length cs" "cs ! i = (op, s)" using mem by (auto simp: in_set_conv_nth)
    then have "condition_on (op, s) (rs ! i)" using list_all2_nthD [OF assms(3), of i] by simp
    then show ?thesis by (cases op) (simp_all add: condition_on_def)
  qed
  then have "split_on CHR '','' (str_join '','' (map (\<lambda>(op, s). op_str op @ s) cs)) = map (\<lambda>(op, s). op_str op @ s) cs"
    using assms(2) by (intro split_on_join) auto
  then show ?thesis using assms(1) check_conditions_ok [OF assms(3)] by (simp add: semver_main_def)
qed

definition plain_version :: "nat \<Rightarrow> nat \<Rightarrow> nat \<Rightarrow> semver" where
  "plain_version a b c = \<lparr>sv_major = a, sv_minor = b, sv_patch = c, sv_prerelease = None, sv_build = None\<rparr>"

theorem semver_main_correct_witness: "semver_main [''1.2.3'', str_join '','' [''>=1.2.0'', ''<2'']] = Inr 0"
proof -
  have v: "semver_parse ''1.2.3'' = Inr (plain_version 1 2 3)" by code_simp
  have p: "semver_parse ''1.2.0'' = Inr (plain_version 1 2 0)" "semver_parse ''2'' = Inr (plain_version 2 0 0)" by code_simp+
  then have c: "list_all2 condition_on [(Ge, ''1.2.0''), (Lt, ''2'')] [plain_version 1 2 0, plain_version 2 0 0]"
    by (simp add: condition_on_def)
  show ?thesis using semver_main_correct [OF v _ c] by (simp add: release_triple_def plain_version_def)
qed

end
