(* ===== verification/Workflow_Models.thy ===== *)
theory Workflow_Models
  imports Prelude
begin

text \<open>
  The work queue of the workflow system (\<open>workflow/models.py\<close>). The database is a value: the
  work unit rows by primary key, the requirement rows (source, target), the rows of the
  state-count delta table in insertion order, the sharded state counts, and the exception log.
  A Python model instance is a copy of a row: a method works on the copy it is called on, and
  \<open>save\<close> writes the whole copy back, whatever the row holds by then. Every method runs in a
  transaction that locks the rows it touches, so a method is a function of the database; an
  exception aborts the transaction, and its result has no database.

  Dates are integers (seconds), with 0 the epoch the columns default to; \<open>now\<close> is the value
  of \<open>utcnow()\<close>. Work units here are rows, so they have a primary key, and the check of
  \<open>add_requirement\<close> for an unsaved instance cannot fire. Prometheus counters, search vectors
  and log output are left out.
\<close>

section \<open>States and rows\<close>

datatype wstate = PENDING | READY | LEASED | SUCCEEDED | INFEASIBLE

fun state_code :: "wstate \<Rightarrow> string" where
  "state_code PENDING = ''PEN''"
| "state_code READY = ''REA''"
| "state_code LEASED = ''LEA''"
| "state_code SUCCEEDED = ''SUC''"
| "state_code INFEASIBLE = ''INF''"

fun state_to_str :: "wstate \<Rightarrow> string" where
  "state_to_str PENDING = ''pending''"
| "state_to_str READY = ''ready''"
| "state_to_str LEASED = ''leased''"
| "state_to_str SUCCEEDED = ''succeeded''"
| "state_to_str INFEASIBLE = ''infeasible''"

lemma state_code_inject [simp]: "state_code s = state_code t \<longleftrightarrow> s = t"
  by (cases s; cases t) auto

text \<open>States are stored as their codes, and sort as the codes do.\<close>

instantiation wstate :: linorder
begin

definition less_eq_wstate :: "wstate \<Rightarrow> wstate \<Rightarrow> bool" where
  "less_eq_wstate s t = (state_code s \<le> state_code t)"

definition less_wstate :: "wstate \<Rightarrow> wstate \<Rightarrow> bool" where
  "less_wstate s t = (state_code s < state_code t)"

instance
  by standard (auto simp: less_eq_wstate_def less_wstate_def order.strict_iff_order)

end

datatype work_category = ADVISORY | TRANSIENT | PERMANENT

text \<open>The exceptions the workflow code raises or tells apart.\<close>

datatype exn =
    UnexpectedState
  | WorkException work_category string
  | OperationalError string
  | NoCredentialsError string
  | InterfaceError string
  | FatalError
  | AssertionFailed string
  | OtherException string

record work_unit =
  wu_pk :: nat
  wu_ctype :: nat
  wu_state :: wstate
  wu_num_unsatisfied :: int
  wu_creator :: "nat option"
  wu_created_at :: int
  wu_last_attempt :: int
  wu_succeeded_at :: int
  wu_leased_until :: "int option"
  wu_lease_holder :: string
  wu_node :: string
  wu_description :: string

record state_count_delta =
  d_ctype :: nat
  d_from :: "wstate option"
  d_to :: "wstate option"
  d_delta :: int

record work_exception_log =
  l_category :: work_category
  l_work_unit :: nat
  l_message :: string
  l_stacktrace :: string

record wdb =
  db_units :: "(nat, work_unit) dict"
  db_reqs :: "(nat \<times> nat) list"
  db_deltas :: "state_count_delta list"
  db_counts :: "(nat \<times> nat \<times> wstate, int) dict"
  db_errors :: "work_exception_log list"
  db_next :: nat

definition new_work_unit :: "nat \<Rightarrow> nat \<Rightarrow> string \<Rightarrow> nat option \<Rightarrow> int \<Rightarrow> work_unit" where
  "new_work_unit pk ctype descr creator now = \<lparr>wu_pk = pk, wu_ctype = ctype, wu_state = READY,
     wu_num_unsatisfied = 0, wu_creator = creator, wu_created_at = now, wu_last_attempt = 0,
     wu_succeeded_at = 0, wu_leased_until = None, wu_lease_holder = '''', wu_node = '''',
     wu_description = descr\<rparr>"

section \<open>Queries and writes\<close>

abbreviation unit_rows :: "wdb \<Rightarrow> work_unit list" where
  "unit_rows db \<equiv> map snd (db_units db)"

definition save :: "work_unit \<Rightarrow> wdb \<Rightarrow> wdb" where
  "save u db = db\<lparr>db_units := AList.update (wu_pk u) u (db_units db)\<rparr>"

text \<open>\<open>WorkUnit.objects.filter(requirements=pk).order_by("pk")\<close>.\<close>

definition requirers :: "wdb \<Rightarrow> nat \<Rightarrow> work_unit list" where
  "requirers db pk = sort_key wu_pk (filter (\<lambda>u. (wu_pk u, pk) \<in> set (db_reqs db)) (unit_rows db))"

text \<open>\<open>self.requirements.exclude(state=SUCCEEDED).count()\<close>.\<close>

definition unsatisfied_requirements :: "wdb \<Rightarrow> nat \<Rightarrow> work_unit list" where
  "unsatisfied_requirements db pk =
     filter (\<lambda>u. (pk, wu_pk u) \<in> set (db_reqs db) \<and> wu_state u \<noteq> SUCCEEDED) (unit_rows db)"

definition create_delta :: "nat \<Rightarrow> wstate option \<Rightarrow> wstate option \<Rightarrow> int \<Rightarrow> wdb \<Rightarrow> wdb" where
  "create_delta ctype fr to n db =
     db\<lparr>db_deltas := db_deltas db @ [\<lparr>d_ctype = ctype, d_from = fr, d_to = to, d_delta = n\<rparr>]\<rparr>"

definition account_for_state_transition :: "nat \<Rightarrow> wstate option \<Rightarrow> wstate option \<Rightarrow> wdb \<Rightarrow> wdb" where
  "account_for_state_transition ctype fr to db = create_delta ctype fr to 1 db"

definition transition_to_state :: "wstate \<Rightarrow> work_unit \<Rightarrow> wdb \<Rightarrow> work_unit \<times> wdb" where
  "transition_to_state s u db =
     (let db1 = account_for_state_transition (wu_ctype u) (Some (wu_state u)) (Some s) db;
          u' = u\<lparr>wu_state := s\<rparr>
      in (u', save u' db1))"

text \<open>
  \<open>_assert_state\<close>. The test is inside the branch for a single state, so a list of allowed
  states is never checked.
\<close>

datatype allowed_states = One wstate | Many "wstate list"

fun assert_state :: "allowed_states \<Rightarrow> work_unit \<Rightarrow> exn + unit" where
  "assert_state (One s) u = (if wu_state u \<in> set [s] then Inr () else Inl UnexpectedState)"
| "assert_state (Many ss) u = Inr ()"

section \<open>State transitions of a work unit\<close>

definition add_requirement :: "nat \<Rightarrow> work_unit \<Rightarrow> wdb \<Rightarrow> exn + (bool \<times> work_unit \<times> wdb)" where
  "add_requirement target_pk u db =
     rbind (assert_state (Many [PENDING, READY, LEASED]) u) (\<lambda>_.
       if (wu_pk u, target_pk) \<in> set (db_reqs db) then Inr (False, u, db)
       else
         let db1 = db\<lparr>db_reqs := db_reqs db @ [(wu_pk u, target_pk)]\<rparr> in
         case map_of (db_units db1) target_pk of
           None \<Rightarrow> Inr (True, u, db1)
         | Some target \<Rightarrow>
             if wu_state target = SUCCEEDED then Inr (True, u, db1)
             else let u1 = u\<lparr>wu_num_unsatisfied := wu_num_unsatisfied u + 1\<rparr> in
               if wu_state target = INFEASIBLE then Inr (True, transition_to_state INFEASIBLE u1 db1)
               else if wu_state u1 \<noteq> PENDING then Inr (True, transition_to_state PENDING u1 db1)
               else Inr (True, u1, db1))"

definition is_leased :: "work_unit \<Rightarrow> bool" where
  "is_leased u = (wu_state u = LEASED)"

text \<open>
  Bulk creation of payloads, with a companion work unit each (\<open>WorkUnitPayloadManager\<close>), and
  the creation of a single one (\<open>WorkUnitPayload.save\<close>). \<open>creator\<close> is the calling context.
\<close>

definition insert_work_unit :: "nat \<Rightarrow> nat option \<Rightarrow> int \<Rightarrow> string \<Rightarrow> nat list \<times> wdb \<Rightarrow> nat list \<times> wdb" where
  "insert_work_unit ctype creator now descr = (\<lambda>(pks, db).
     (pks @ [db_next db],
      save (new_work_unit (db_next db) ctype descr creator now) (db\<lparr>db_next := Suc (db_next db)\<rparr>)))"

definition bulk_create :: "nat \<Rightarrow> nat option \<Rightarrow> int \<Rightarrow> bool \<Rightarrow> string list \<Rightarrow> wdb \<Rightarrow> exn + (nat list \<times> wdb)" where
  "bulk_create ctype creator now ignore_conflicts descrs db =
     (if ignore_conflicts then Inl (AssertionFailed ''Cannot bulk-create work unit payloads with ignore_conflicts=True.'')
      else let (pks, db1) = fold (insert_work_unit ctype creator now) descrs ([], db)
           in Inr (pks, create_delta ctype None (Some READY) (int (length descrs)) db1))"

definition create_work_unit :: "nat \<Rightarrow> nat option \<Rightarrow> int \<Rightarrow> string \<Rightarrow> wdb \<Rightarrow> nat \<times> wdb" where
  "create_work_unit ctype creator now descr db =
     (let (pks, db1) = insert_work_unit ctype creator now descr ([], db)
      in (db_next db, account_for_state_transition ctype None (Some READY) db1))"

definition create_requirements ::
  "nat \<Rightarrow> nat option \<Rightarrow> int \<Rightarrow> string list \<Rightarrow> work_unit \<Rightarrow> wdb \<Rightarrow> exn + (work_unit \<times> wdb)" where
  "create_requirements ctype creator now descrs u db =
     rbind (assert_state (Many [PENDING, READY, LEASED]) u) (\<lambda>_.
       if descrs = [] then Inr (u, db)
       else rmap (\<lambda>(pks, db1).
           let db2 = db1\<lparr>db_reqs := db_reqs db1 @ map (Pair (wu_pk u)) pks\<rparr>;
               u1 = u\<lparr>wu_num_unsatisfied := wu_num_unsatisfied u + int (length pks)\<rparr>;
               (u2, db3) = (if wu_state u1 = READY then transition_to_state PENDING u1 db2 else (u1, db2))
           in (u2, save u2 db3))
         (bulk_create ctype creator now False descrs db))"

definition rerun_requirer :: "work_unit \<Rightarrow> wdb \<Rightarrow> wdb" where
  "rerun_requirer r db =
     (if wu_state r = PENDING then save (r\<lparr>wu_num_unsatisfied := wu_num_unsatisfied r + 1\<rparr>) db else db)"

definition rerun :: "work_unit \<Rightarrow> wdb \<Rightarrow> exn + (work_unit \<times> wdb)" where
  "rerun u db =
     rmap (\<lambda>_. transition_to_state READY u (fold rerun_requirer (requirers db (wu_pk u)) db))
       (assert_state (One SUCCEEDED) u)"

definition requirement_satisfied :: "bool \<Rightarrow> int \<Rightarrow> work_unit \<Rightarrow> wdb \<Rightarrow> exn + (work_unit \<times> wdb)" where
  "requirement_satisfied rerun_if_succeeded now u db =
     (if wu_state u = PENDING then
        let u1 = u\<lparr>wu_num_unsatisfied := wu_num_unsatisfied u - 1\<rparr> in
        if wu_num_unsatisfied u1 = 0 then
          if (case wu_leased_until u1 of None \<Rightarrow> False | Some t \<Rightarrow> now < t)
          then Inr (transition_to_state LEASED u1 db)
          else Inr (transition_to_state READY u1 db)
        else Inr (u1, db)
      else if wu_state u = SUCCEEDED \<and> rerun_if_succeeded then rerun u db
      else if is_leased u then Inr (u\<lparr>wu_num_unsatisfied := wu_num_unsatisfied u - 1\<rparr>, db)
      else if wu_state u = INFEASIBLE then
        let u1 = u\<lparr>wu_num_unsatisfied := int (length (unsatisfied_requirements db (wu_pk u)))\<rparr> in
        if wu_num_unsatisfied u1 = 0 then Inr (transition_to_state READY u1 db) else Inr (u1, db)
      else Inr (u, db))"

definition lease_taken :: "work_unit \<Rightarrow> wdb \<Rightarrow> exn + (work_unit \<times> wdb)" where
  "lease_taken u db = rmap (\<lambda>_. transition_to_state LEASED u db) (assert_state (One READY) u)"

definition take_lease :: "int \<Rightarrow> int \<Rightarrow> string \<Rightarrow> string \<Rightarrow> work_unit \<Rightarrow> wdb \<Rightarrow> exn + (work_unit \<times> wdb)" where
  "take_lease until last_attempt node uuid u db =
     lease_taken (u\<lparr>wu_leased_until := Some until, wu_lease_holder := uuid, wu_node := node,
                    wu_last_attempt := last_attempt\<rparr>) db"

definition feasible_state :: "work_unit \<Rightarrow> wstate" where
  "feasible_state u = (if wu_num_unsatisfied u = 0 then READY else PENDING)"

definition revoke_lease :: "work_unit \<Rightarrow> wdb \<Rightarrow> exn + (work_unit \<times> wdb)" where
  "revoke_lease u db = rmap (\<lambda>_. transition_to_state (feasible_state u) u db) (assert_state (One LEASED) u)"

text \<open>
  \<open>work_succeeded\<close> fetches its requirers once, before the loop: the loop works on those
  copies, even where an iteration has changed the rows of later ones.
\<close>

definition satisfy_requirer :: "bool \<Rightarrow> int \<Rightarrow> work_unit \<Rightarrow> wdb \<Rightarrow> exn + wdb" where
  "satisfy_requirer rerun_requirers now r db =
     rmap (\<lambda>(r', db'). save r' db') (requirement_satisfied rerun_requirers now r db)"

definition work_succeeded :: "bool \<Rightarrow> int \<Rightarrow> work_unit \<Rightarrow> wdb \<Rightarrow> exn + (work_unit \<times> wdb)" where
  "work_succeeded rerun_requirers now u db =
     rbind (assert_state (One LEASED) u) (\<lambda>_.
       let (u1, db1) = transition_to_state SUCCEEDED (u\<lparr>wu_succeeded_at := wu_last_attempt u\<rparr>) db;
           db2 = save u1 db1
       in rmap (Pair u1) (rfold (satisfy_requirer rerun_requirers now) (requirers db2 (wu_pk u1)) db2))"

definition has_infeasible_requirement :: "work_unit \<Rightarrow> wdb \<Rightarrow> exn + wdb" where
  "has_infeasible_requirement u db =
     rmap (\<lambda>_. snd (transition_to_state INFEASIBLE u db)) (assert_state (Many [PENDING, SUCCEEDED]) u)"

text \<open>
  \<open>_gather_transitive_requirers\<close> fills a set; the recursion over it is bounded by fuel. The
  order in which a set is iterated over does not matter to the result.
\<close>

definition direct_requirer_pks :: "wdb \<Rightarrow> nat \<Rightarrow> nat set" where
  "direct_requirer_pks db pk = set (map wu_pk (requirers db pk)) - {pk}"

fun gather_transitive_requirers :: "nat \<Rightarrow> wdb \<Rightarrow> nat \<Rightarrow> nat set \<Rightarrow> nat set option" where
  "gather_transitive_requirers 0 db pk ret = None"
| "gather_transitive_requirers (Suc n) db pk ret =
     (let direct = direct_requirer_pks db pk in
      fold (\<lambda>p acc. case acc of None \<Rightarrow> None | Some r \<Rightarrow> gather_transitive_requirers n db p r)
        (sorted_list_of_set (direct - ret)) (Some (ret \<union> direct)))"

text \<open>The number of work units is enough fuel, as the lemmas below show.\<close>

definition transitive_requirers :: "wdb \<Rightarrow> nat \<Rightarrow> nat set" where
  "transitive_requirers db pk =
     (case gather_transitive_requirers (Suc (length (db_units db))) db pk {} of None \<Rightarrow> {} | Some r \<Rightarrow> r)"

definition permanent_error_occurred :: "work_unit \<Rightarrow> wdb \<Rightarrow> exn + (work_unit \<times> wdb)" where
  "permanent_error_occurred u db =
     rbind (assert_state (One LEASED) u) (\<lambda>_.
       let pks = transitive_requirers db (wu_pk u);
           rs = sort_key wu_pk (filter (\<lambda>r. wu_pk r \<in> pks \<and> wu_state r \<noteq> INFEASIBLE) (unit_rows db))
       in rmap (\<lambda>db1. transition_to_state INFEASIBLE u db1) (rfold has_infeasible_requirement rs db))"

definition mark_as_feasible :: "work_unit \<Rightarrow> wdb \<Rightarrow> exn + (work_unit \<times> wdb)" where
  "mark_as_feasible u db = rmap (\<lambda>_. transition_to_state (feasible_state u) u db) (assert_state (One INFEASIBLE) u)"

definition mark_as_feasible_for_ids :: "nat set \<Rightarrow> wdb \<Rightarrow> exn + wdb" where
  "mark_as_feasible_for_ids pks db =
     rfold (\<lambda>u db. rmap snd (mark_as_feasible u db))
       (sort_key wu_pk (filter (\<lambda>u. wu_pk u \<in> pks \<and> wu_state u = INFEASIBLE) (unit_rows db))) db"

definition check_num_unsatisfied_requirements :: "work_unit \<Rightarrow> wdb \<Rightarrow> exn + (int option \<times> work_unit \<times> wdb)" where
  "check_num_unsatisfied_requirements u db =
     rmap (\<lambda>_.
         let actual = int (length (unsatisfied_requirements db (wu_pk u))) in
         if wu_num_unsatisfied u \<noteq> actual then
           let u1 = u\<lparr>wu_num_unsatisfied := actual\<rparr> in
           if actual = 0 \<and> wu_state u1 = PENDING then (Some actual, transition_to_state READY u1 db)
           else (Some actual, u1, db)
         else (None, u, db))
       (assert_state (Many [PENDING, INFEASIBLE]) u)"

section \<open>Bulk operations\<close>

definition update_states :: "(work_unit \<Rightarrow> bool) \<Rightarrow> wstate \<Rightarrow> wdb \<Rightarrow> nat \<times> wdb" where
  "update_states P s db =
     (length (filter P (unit_rows db)),
      db\<lparr>db_units := map (\<lambda>(pk, u). (pk, if P u then u\<lparr>wu_state := s\<rparr> else u)) (db_units db)\<rparr>)"

definition rerun_all :: "nat \<Rightarrow> int option \<Rightarrow> int option \<Rightarrow> wdb \<Rightarrow> exn + wdb" where
  "rerun_all ctype from_date to_date db =
     (if \<exists>u \<in> set (unit_rows db). wu_state u = PENDING
      then Inl (AssertionFailed ''Must not call WorkUnit.rerun_all() when there are outstanding PENDING WorkUnits.'')
      else let (num, db1) = update_states (\<lambda>u. wu_ctype u = ctype \<and> wu_state u = SUCCEEDED
                 \<and> (case from_date of None \<Rightarrow> True | Some t \<Rightarrow> t \<le> wu_created_at u)
                 \<and> (case to_date of None \<Rightarrow> True | Some t \<Rightarrow> wu_created_at u \<le> t)) READY db
           in Inr (create_delta ctype (Some SUCCEEDED) (Some READY) (int num) db1))"

definition mark_all_as_feasible :: "nat \<Rightarrow> wdb \<Rightarrow> wdb" where
  "mark_all_as_feasible ctype db =
     (let (num, db1) = update_states (\<lambda>u. wu_ctype u = ctype \<and> wu_state u = INFEASIBLE \<and> wu_num_unsatisfied u = 0) READY db
      in create_delta ctype (Some INFEASIBLE) (Some READY) (int num) db1)"

definition add_requirement_by_id :: "nat \<Rightarrow> nat \<Rightarrow> wdb \<Rightarrow> exn + (bool \<times> wdb)" where
  "add_requirement_by_id pk target_pk db =
     (case map_of (db_units db) pk of
        None \<Rightarrow> Inl (OtherException ''DoesNotExist'')
      | Some u \<Rightarrow> rmap (\<lambda>(created, u', db'). (created, save u' db')) (add_requirement target_pk u db))"

section \<open>State counts\<close>

text \<open>
  Deltas are aggregated per content type and state and added to a random shard. \<open>apply\<close> takes
  the first \<open>n\<close> rows and deletes the rows it took.
\<close>

definition add_to_key :: "nat \<times> wstate \<Rightarrow> int \<Rightarrow> (nat \<times> wstate, int) dict \<Rightarrow> (nat \<times> wstate, int) dict" where
  "add_to_key k n m = AList.update k ((case map_of m k of None \<Rightarrow> 0 | Some i \<Rightarrow> i) + n) m"

definition aggregate_delta :: "state_count_delta \<Rightarrow> (nat \<times> wstate, int) dict \<Rightarrow> (nat \<times> wstate, int) dict" where
  "aggregate_delta d m =
     (let m1 = (case d_from d of None \<Rightarrow> m | Some s \<Rightarrow> add_to_key (d_ctype d, s) (- d_delta d) m)
      in case d_to d of None \<Rightarrow> m1 | Some s \<Rightarrow> add_to_key (d_ctype d, s) (d_delta d) m1)"

definition apply_delta :: "nat \<Rightarrow> (nat \<times> wstate) \<times> int \<Rightarrow> (nat \<times> nat \<times> wstate, int) dict \<Rightarrow> (nat \<times> nat \<times> wstate, int) dict" where
  "apply_delta shard = (\<lambda>((ctype, s), n) counts.
     case map_of counts (shard, ctype, s) of
       Some c \<Rightarrow> AList.update (shard, ctype, s) (c + n) counts
     | None \<Rightarrow> AList.update (shard, ctype, s) (0 + n) counts)"

definition num_shards :: nat where
  "num_shards = 50"

definition apply_deltas :: "nat \<Rightarrow> (nat \<times> wstate, int) dict \<Rightarrow> wdb \<Rightarrow> wdb" where
  "apply_deltas shard key_to_delta db =
     db\<lparr>db_counts := fold (apply_delta shard) (sort_key fst key_to_delta) (db_counts db)\<rparr>"

definition apply_pending_deltas :: "nat \<Rightarrow> nat \<Rightarrow> wdb \<Rightarrow> nat \<times> wdb" where
  "apply_pending_deltas shard n db =
     (let rows = take n (db_deltas db);
          db1 = apply_deltas shard (fold aggregate_delta rows []) db
      in (length rows, db1\<lparr>db_deltas := drop n (db_deltas db1)\<rparr>))"

definition recompute :: "wdb \<Rightarrow> exn + wdb" where
  "recompute db =
     (if db_deltas db \<noteq> []
      then Inl (AssertionFailed ''Must not call WorkUnitStateCount.recompute() when there are outstanding WorkUnitStateCountDeltas.'')
      else Inr (db\<lparr>db_counts := fold (\<lambda>u. \<lambda>m. AList.update (0, wu_ctype u, wu_state u)
                    ((case map_of m (0, wu_ctype u, wu_state u) of None \<Rightarrow> 0 | Some i \<Rightarrow> i) + 1) m) (unit_rows db) []\<rparr>))"

definition get_counts_by_model_and_state :: "(nat \<Rightarrow> string) \<Rightarrow> wdb \<Rightarrow> (string \<times> string, int) dict" where
  "get_counts_by_model_and_state model_of db =
     fold (\<lambda>((shard, ctype, s), n) m.
         AList.update (model_of ctype, state_to_str s)
           ((case map_of m (model_of ctype, state_to_str s) of None \<Rightarrow> 0 | Some i \<Rightarrow> i) + n) m)
       (db_counts db) []"

section \<open>The exception log\<close>

definition create_log :: "work_category \<Rightarrow> work_unit \<Rightarrow> string \<Rightarrow> string \<Rightarrow> wdb \<Rightarrow> wdb" where
  "create_log category u message stacktrace db =
     db\<lparr>db_errors := db_errors db @ [\<lparr>l_category = category, l_work_unit = wu_pk u,
          l_message = take 50000 message, l_stacktrace = stacktrace\<rparr>]\<rparr>"

definition remove_prefix :: "string \<Rightarrow> string \<Rightarrow> string" where
  "remove_prefix s prefix_ends_with = (case after_first prefix_ends_with s of None \<Rightarrow> s | Some t \<Rightarrow> t)"

definition shorten_frame :: "string \<Rightarrow> string" where
  "shorten_frame frame =
     remove_prefix (remove_prefix (hd (split_on (CHR 0x0A) frame)) ''.whl/'') ''/src/python/''"

text \<open>
  A slice from a negative start counts from the end: \<open>ret[len(ret) - limit:]\<close> with a limit
  above the length starts at \<open>limit - len(ret)\<close> from the end, or at the beginning.
\<close>

definition py_suffix :: "int \<Rightarrow> 'a list \<Rightarrow> 'a list" where
  "py_suffix start xs = drop (nat (if start < 0 then start + int (length xs) else start)) xs"

definition stacktrace_frames :: "int option \<Rightarrow> work_exception_log \<Rightarrow> string list" where
  "stacktrace_frames limit e =
     (let ret = map shorten_frame (split_on (CHR 0x09) (l_stacktrace e)) in
      case limit of None \<Rightarrow> ret | Some k \<Rightarrow> py_suffix (int (length ret) - k) ret)"

end
