(* ===== verification/Workflow_Counts.thy ===== *)
theory Workflow_Counts
  imports Workflow_Models "HOL-Library.Multiset"
begin

text \<open>
  State accounting in the work queue: the sharded counts and the pending deltas together give,
  for every content type and state, the number of work units in that state. Every transition
  adds the delta that keeps this so, and applying deltas moves amounts from one table to the
  other.
\<close>

definition rows_ok :: "wdb \<Rightarrow> bool" where
  "rows_ok db \<longleftrightarrow> is_dict (db_units db) \<and> (\<forall>pk u. map_of (db_units db) pk = Some u \<longrightarrow> wu_pk u = pk \<and> pk < db_next db)
     \<and> (\<forall>(s, t) \<in> set (db_reqs db). s < db_next db \<and> t < db_next db)"

definition state_total :: "wdb \<Rightarrow> nat \<Rightarrow> wstate \<Rightarrow> int" where
  "state_total db c s = int (length (filter (\<lambda>u. wu_ctype u = c \<and> wu_state u = s) (unit_rows db)))"

definition delta_effect :: "nat \<Rightarrow> wstate \<Rightarrow> state_count_delta \<Rightarrow> int" where
  "delta_effect c s d =
     (if d_ctype d = c then (if d_to d = Some s then d_delta d else 0) - (if d_from d = Some s then d_delta d else 0) else 0)"

definition count_of :: "nat \<Rightarrow> wstate \<Rightarrow> (nat \<times> nat \<times> wstate, int) dict \<Rightarrow> int" where
  "count_of c s counts = (\<Sum>(k, n) \<leftarrow> counts. if snd k = (c, s) then n else 0)"

definition recorded_total :: "wdb \<Rightarrow> nat \<Rightarrow> wstate \<Rightarrow> int" where
  "recorded_total db c s = count_of c s (db_counts db) + (\<Sum>d \<leftarrow> db_deltas db. delta_effect c s d)"

definition counts_ok :: "wdb \<Rightarrow> bool" where
  "counts_ok db \<longleftrightarrow> (\<forall>c s. recorded_total db c s = state_total db c s)"

section \<open>Writing rows\<close>

lemma length_filter_update:
  assumes "is_dict d" "map_of d k = Some old"
  shows "int (length (filter P (map snd (AList.update k new d)))) =
    int (length (filter P (map snd d))) - (if P old then 1 else 0) + (if P new then 1 else 0)"
  using assms
proof (induction d)
  case (Cons x d)
  then show ?case by (cases x) (auto split: if_splits)
qed simp

lemma length_filter_update_new:
  "map_of d k = None \<Longrightarrow> length (filter P (map snd (AList.update k new d))) = length (filter P (map snd d)) + (if P new then 1 else 0)"
  by (induction d) (auto split: if_splits)

text \<open>\<open>in_sync u db\<close>: the row of the instance has its state and content type.\<close>

definition in_sync :: "work_unit \<Rightarrow> wdb \<Rightarrow> bool" where
  "in_sync u db \<longleftrightarrow> (\<exists>v. map_of (db_units db) (wu_pk u) = Some v \<and> wu_state v = wu_state u \<and> wu_ctype v = wu_ctype u)"

lemma rows_ok_save: "rows_ok db \<Longrightarrow> map_of (db_units db) (wu_pk u) \<noteq> None \<Longrightarrow> rows_ok (save u db)"
  by (auto simp: rows_ok_def save_def split: if_splits)

lemma rows_ok_delta [simp]: "rows_ok (create_delta c f t n db) = rows_ok db"
  by (simp add: rows_ok_def create_delta_def)

lemma save_fields [simp]:
  "db_units (save u db) = AList.update (wu_pk u) u (db_units db)" "db_reqs (save u db) = db_reqs db"
  "db_deltas (save u db) = db_deltas db" "db_counts (save u db) = db_counts db" "db_next (save u db) = db_next db"
  by (simp_all add: save_def)

lemma state_total_save:
  assumes "rows_ok db" "map_of (db_units db) (wu_pk u) = Some v"
  shows "state_total (save u db) c s = state_total db c s - (if wu_ctype v = c \<and> wu_state v = s then 1 else 0)
    + (if wu_ctype u = c \<and> wu_state u = s then 1 else 0)"
  using length_filter_update [OF _ assms(2), of "\<lambda>u. wu_ctype u = c \<and> wu_state u = s" u] assms(1)
  unfolding state_total_def save_fields rows_ok_def by blast

lemma recorded_total_save [simp]: "recorded_total (save u db) = recorded_total db"
  by (simp add: recorded_total_def fun_eq_iff)

lemma counts_ok_save: "rows_ok db \<Longrightarrow> counts_ok db \<Longrightarrow> in_sync u db \<Longrightarrow> counts_ok (save u db)"
  unfolding counts_ok_def in_sync_def by (auto simp: state_total_save)

lemma totals_delta [simp]:
  "state_total (create_delta ct f t n db) = state_total db"
  "recorded_total (create_delta ct f t n db) c s =
     recorded_total db c s + delta_effect c s \<lparr>d_ctype = ct, d_from = f, d_to = t, d_delta = n\<rparr>"
  by (simp_all add: state_total_def recorded_total_def create_delta_def fun_eq_iff)

lemma create_delta_fields [simp]:
  "db_units (create_delta c f t n db) = db_units db" "db_reqs (create_delta c f t n db) = db_reqs db"
  "db_counts (create_delta c f t n db) = db_counts db" "db_next (create_delta c f t n db) = db_next db"
  by (simp_all add: create_delta_def)

lemma fst_transition [simp]: "fst (transition_to_state s u db) = u\<lparr>wu_state := s\<rparr>"
  by (simp add: transition_to_state_def Let_def)

lemma transition_fields [simp]:
  "db_units (snd (transition_to_state s u db)) = AList.update (wu_pk u) (u\<lparr>wu_state := s\<rparr>) (db_units db)"
  "db_reqs (snd (transition_to_state s u db)) = db_reqs db"
  "db_next (snd (transition_to_state s u db)) = db_next db"
  by (simp_all add: transition_to_state_def Let_def account_for_state_transition_def)

lemma rows_ok_transition:
  "rows_ok db \<Longrightarrow> map_of (db_units db) (wu_pk u) \<noteq> None \<Longrightarrow> rows_ok (snd (transition_to_state s u db))"
  by (auto simp: transition_to_state_def Let_def account_for_state_transition_def intro: rows_ok_save)

lemma counts_ok_transition:
  assumes "rows_ok db" "counts_ok db" "in_sync u db"
  shows "counts_ok (snd (transition_to_state s u db))"
proof -
  let ?db = "create_delta (wu_ctype u) (Some (wu_state u)) (Some s) 1 db" and ?u = "u\<lparr>wu_state := s\<rparr>"
  obtain v where v: "map_of (db_units ?db) (wu_pk ?u) = Some v" "wu_state v = wu_state u" "wu_ctype v = wu_ctype u"
    using assms(3) by (auto simp: in_sync_def)
  have "recorded_total (save ?u ?db) c t = state_total (save ?u ?db) c t" for c t
    using assms(2) v(2,3) state_total_save [OF _ v(1), of c t] assms(1) by (simp add: counts_ok_def delta_effect_def)
  then show ?thesis
    by (simp add: counts_ok_def transition_to_state_def Let_def account_for_state_transition_def)
qed

lemma in_sync_row: "map_of (db_units db) pk = Some u \<Longrightarrow> rows_ok db \<Longrightarrow> in_sync u db"
  by (auto simp: in_sync_def rows_ok_def)

section \<open>Applying deltas\<close>

definition key_amount :: "(nat \<times> wstate, int) dict \<Rightarrow> nat \<Rightarrow> wstate \<Rightarrow> int" where
  "key_amount m c s = (case map_of m (c, s) of None \<Rightarrow> 0 | Some i \<Rightarrow> i)"

lemma key_amount_add: "key_amount (add_to_key k n m) c s = key_amount m c s + (if k = (c, s) then n else 0)"
  by (auto simp: key_amount_def add_to_key_def)

lemma key_amount_aggregate: "key_amount (aggregate_delta d m) c s = key_amount m c s + delta_effect c s d"
  by (auto simp: aggregate_delta_def Let_def key_amount_add delta_effect_def split: option.splits)

lemma is_dict_aggregate: "is_dict m \<Longrightarrow> is_dict (aggregate_delta d m)"
  by (auto simp: aggregate_delta_def Let_def add_to_key_def split: option.splits)

lemma aggregate_rows:
  "is_dict m \<Longrightarrow> is_dict (fold aggregate_delta ds m)
   \<and> key_amount (fold aggregate_delta ds m) c s = key_amount m c s + (\<Sum>d \<leftarrow> ds. delta_effect c s d)"
  by (induction ds arbitrary: m) (auto simp: key_amount_aggregate is_dict_aggregate)

lemma count_of_update:
  "is_dict d \<Longrightarrow> count_of c s (AList.update k n d) =
    count_of c s d + (if snd k = (c, s) then n - (case map_of d k of None \<Rightarrow> 0 | Some i \<Rightarrow> i) else 0)"
proof (induction d)
  case (Cons x d)
  then show ?case by (cases x) (auto simp: count_of_def split: option.splits)
qed (simp add: count_of_def)

lemma count_of_apply:
  "is_dict counts \<Longrightarrow> is_dict (apply_delta shard kn counts)
   \<and> count_of c s (apply_delta shard kn counts) = count_of c s counts + (if fst kn = (c, s) then snd kn else 0)"
  by (auto simp: apply_delta_def count_of_update split: option.splits prod.splits)

lemma count_of_apply_all:
  "is_dict counts \<Longrightarrow> is_dict (fold (apply_delta shard) kns counts) \<and>
   count_of c s (fold (apply_delta shard) kns counts) = count_of c s counts + (\<Sum>(k, n) \<leftarrow> kns. if k = (c, s) then n else 0)"
  by (induction kns arbitrary: counts) (auto simp: count_of_apply)

lemma key_sum: "is_dict m \<Longrightarrow> (\<Sum>(k, n) \<leftarrow> m. if k = (c, s) then n else 0) = key_amount m c s"
proof (induction m)
  case (Cons x m)
  show ?case
  proof (cases "fst x = (c, s)")
    case True
    have "\<forall>x \<in> set m. fst x \<noteq> (c, s)" using Cons.prems True by (auto simp: image_iff)
    then have "(\<Sum>(k, n) \<leftarrow> m. if k = (c, s) then n else 0) = 0" by (induction m) auto
    then show ?thesis using True by (cases x) (simp add: key_amount_def)
  next
    case False
    then show ?thesis using Cons by (cases x) (simp add: key_amount_def)
  qed
qed (simp add: key_amount_def)

lemma sum_list_sort_key: "(\<Sum>x \<leftarrow> sort_key f xs. g x) = (\<Sum>x \<leftarrow> xs. (g x :: int))"
  by (metis mset_map mset_sort sum_mset_sum_list)

lemma recorded_total_apply:
  assumes "is_dict (db_counts db)"
  shows "recorded_total (snd (apply_pending_deltas shard n db)) c s = recorded_total db c s"
proof -
  let ?m = "fold aggregate_delta (take n (db_deltas db)) []"
  have "count_of c s (fold (apply_delta shard) (sort_key fst ?m) (db_counts db))
      = count_of c s (db_counts db) + (\<Sum>d \<leftarrow> take n (db_deltas db). delta_effect c s d)"
    using count_of_apply_all [OF assms] aggregate_rows [of "[]" "take n (db_deltas db)" c s] key_sum [of ?m c s]
    by (simp add: sum_list_sort_key key_amount_def)
  moreover have "(\<Sum>d \<leftarrow> db_deltas db. delta_effect c s d)
      = (\<Sum>d \<leftarrow> take n (db_deltas db). delta_effect c s d) + (\<Sum>d \<leftarrow> drop n (db_deltas db). delta_effect c s d)"
    by (metis append_take_drop_id map_append sum_list_append)
  ultimately show ?thesis by (simp add: recorded_total_def apply_pending_deltas_def apply_deltas_def Let_def)
qed

end
