(* ===== verification/Workflow_Executor.thy ===== *)
theory Workflow_Executor
  imports Workflow_Models
begin

text \<open>
  Running work: the executor (\<open>workflow/work_executor.py\<close>), the dispatcher's fetch
  (\<open>workflow/work_dispatcher.py\<close>), the recovery of expired leases
  (\<open>workflow/work_recovery.py\<close>), the worker thread's step (\<open>workflow/worker_thread.py\<close>) and
  the worker selection (\<open>workflow/config.py\<close>).

  A worker is a record of the methods a subclass of \<open>Worker\<close> overrides; its callbacks are
  arbitrary functions on the database. The transaction of \<open>_complete\<close> has an inner savepoint:
  an exception in a callback undoes the callback's writes, but the Python instance keeps the
  values it had, so a completion function returns the instance and the outcome separately.
  Threads, sleeping and log output are left out.
\<close>

section \<open>Workers and errors\<close>

record worker =
  w_lease_secs :: "work_unit \<Rightarrow> int"
  w_on_success :: "work_unit \<Rightarrow> wdb \<Rightarrow> exn + wdb"
  w_on_reschedule :: "work_unit \<Rightarrow> wdb \<Rightarrow> exn + (int option \<times> wdb)"
  w_on_failure :: "work_unit \<Rightarrow> wdb \<Rightarrow> exn + wdb"
  w_rerun_requirers :: bool
  w_classify_error :: "exn \<Rightarrow> work_category option"
  w_retry_delay :: "work_unit \<Rightarrow> exn \<Rightarrow> int option"

text \<open>The methods of the base class.\<close>

definition base_worker :: worker where
  "base_worker = \<lparr>w_lease_secs = (\<lambda>u. 300), w_on_success = (\<lambda>u db. Inr db), w_on_reschedule = (\<lambda>u db. Inr (None, db)),
     w_on_failure = (\<lambda>u db. Inr db), w_rerun_requirers = True, w_classify_error = (\<lambda>e. None),
     w_retry_delay = (\<lambda>u e. None)\<rparr>"

definition is_transient_error :: "exn \<Rightarrow> bool" where
  "is_transient_error e =
     (case e of
        OperationalError m \<Rightarrow> contains ''deadlock detected'' (str_lower m) \<or> contains ''connection reset by peer'' (str_lower m)
      | NoCredentialsError m \<Rightarrow> contains ''Unable to locate credentials'' (str_lower m)
      | InterfaceError m \<Rightarrow> contains ''connection already closed'' (str_lower m)
      | _ \<Rightarrow> False)"

definition get_exception_category :: "worker \<Rightarrow> exn \<Rightarrow> work_category" where
  "get_exception_category w e =
     (case w_classify_error w e of
        Some c \<Rightarrow> c
      | None \<Rightarrow> (case e of WorkException c m \<Rightarrow> c | _ \<Rightarrow> if is_transient_error e then TRANSIENT else PERMANENT))"

fun exn_str :: "exn \<Rightarrow> string" where
  "exn_str UnexpectedState = ''Unexpected state''"
| "exn_str (WorkException c m) = m"
| "exn_str (OperationalError m) = m"
| "exn_str (NoCredentialsError m) = m"
| "exn_str (InterfaceError m) = m"
| "exn_str FatalError = ''do_work() must return True or False''"
| "exn_str (AssertionFailed m) = m"
| "exn_str (OtherException m) = m"

text \<open>\<open>django.db.Error\<close>, which the other two database errors derive from.\<close>

fun is_db_error :: "exn \<Rightarrow> bool" where
  "is_db_error (OperationalError m) = True"
| "is_db_error (InterfaceError m) = True"
| "is_db_error _ = False"

definition log_exception :: "work_unit \<Rightarrow> work_category \<Rightarrow> exn \<Rightarrow> string \<Rightarrow> wdb \<Rightarrow> wdb" where
  "log_exception u category e trace db = create_log category u (exn_str e) trace db"

definition exception_stacktrace :: "string list \<Rightarrow> string" where
  "exception_stacktrace tb_lines =
     (if \<exists>l \<in> set tb_lines. contains [CHR 0x09] l then ''No stacktrace captured due to embedded tabs''
      else str_join [CHR 0x09] tb_lines)"

section \<open>Completing work\<close>

type_synonym completion = "work_unit \<Rightarrow> wdb \<Rightarrow> work_unit \<times> (exn + wdb)"

definition keep_instance :: "work_unit \<Rightarrow> exn + (work_unit \<times> wdb) \<Rightarrow> work_unit \<times> (exn + wdb)" where
  "keep_instance u r = (case r of Inl e \<Rightarrow> (u, Inl e) | Inr (u', db) \<Rightarrow> (u', Inr db))"

text \<open>\<open>_process_work_unit_exception\<close>; a delay of zero is no delay.\<close>

definition process_work_unit_exception :: "worker \<Rightarrow> int \<Rightarrow> exn \<Rightarrow> completion" where
  "process_work_unit_exception w now e u db =
     (let category = get_exception_category w e;
          db1 = log_exception u category e '''' db;
          (u1, r) = (if category = PERMANENT \<and> wu_state u \<noteq> INFEASIBLE then keep_instance u (permanent_error_occurred u db1)
                     else if category = ADVISORY then keep_instance u (work_succeeded (w_rerun_requirers w) now u db1)
                     else (u, Inr db1))
      in case r of
           Inl x \<Rightarrow> (u1, Inl x)
         | Inr db2 \<Rightarrow>
             (case w_retry_delay w u1 e of
                None \<Rightarrow> (u1, Inr db2)
              | Some d \<Rightarrow> (if d \<noteq> 0 then u1\<lparr>wu_leased_until := Some (now + d)\<rparr> else u1, Inr db2)))"

definition refresh_from_db :: "work_unit \<Rightarrow> wdb \<Rightarrow> exn + work_unit" where
  "refresh_from_db u db =
     (case map_of (db_units db) (wu_pk u) of None \<Rightarrow> Inl (OtherException ''DoesNotExist'') | Some v \<Rightarrow> Inr v)"

definition success_func :: "worker \<Rightarrow> int \<Rightarrow> completion" where
  "success_func w now u db =
     (case rbind (w_on_success w u db) (\<lambda>db1. rmap (\<lambda>u1. (u1, db1)) (refresh_from_db u db1)) of
        Inl e \<Rightarrow> (u, Inl e)
      | Inr (u1, db1) \<Rightarrow> keep_instance u1 (work_succeeded (w_rerun_requirers w) now u1 db1))"

definition reschedule_func :: "worker \<Rightarrow> completion" where
  "reschedule_func w u db =
     (case rbind (w_on_reschedule w u db) (\<lambda>(lease, db1). rmap (\<lambda>u1. (lease, u1, db1)) (refresh_from_db u db1)) of
        Inl e \<Rightarrow> (u, Inl e)
      | Inr (lease, u1, db1) \<Rightarrow> (u1\<lparr>wu_leased_until := lease\<rparr>, Inr db1))"

definition failure_func :: "worker \<Rightarrow> int \<Rightarrow> exn \<Rightarrow> completion" where
  "failure_func w now e u db =
     (case rbind (w_on_failure w u db) (\<lambda>db1. rmap (\<lambda>u1. (u1, db1)) (refresh_from_db u db1)) of
        Inl x \<Rightarrow> (u, Inl x)
      | Inr (u1, db1) \<Rightarrow> process_work_unit_exception w now e u1 db1)"

text \<open>
  \<open>_get_refetch_queryset\<close>: the row, if the worker still holds its lease. \<open>_complete\<close> clears the
  lease, runs the completion function, and handles its exception on the instance it left.
\<close>

definition refetch :: "nat \<Rightarrow> string \<Rightarrow> wdb \<Rightarrow> work_unit option" where
  "refetch pk holder db =
     (case map_of (db_units db) pk of
        None \<Rightarrow> None
      | Some u \<Rightarrow> if wu_lease_holder u = holder \<and> wu_state u = LEASED then Some u else None)"

definition complete :: "worker \<Rightarrow> int \<Rightarrow> nat \<Rightarrow> string \<Rightarrow> completion \<Rightarrow> wdb \<Rightarrow> exn + wdb" where
  "complete w now pk holder func db =
     (case refetch pk holder db of
        None \<Rightarrow> Inr db
      | Some u \<Rightarrow>
          (let u0 = u\<lparr>wu_lease_holder := '''', wu_leased_until := None, wu_node := ''''\<rparr>;
               db0 = save u0 db;
               (u1, r) = func u0 db0;
               (u2, r2) = (case r of Inr db1 \<Rightarrow> (u1, Inr db1) | Inl e \<Rightarrow> process_work_unit_exception w now e u1 db0)
           in case r2 of
                Inr db2 \<Rightarrow> Inr (save u2 db2)
              | Inl e \<Rightarrow> if is_db_error e then Inr db else Inl e))"

text \<open>
  What \<open>do_work\<close> did: it raised, or returned a boolean, or something else. \<open>execute\<close> never
  raises: an exception that gets this far is logged.
\<close>

datatype work_outcome = Raised exn | Returned bool | ReturnedOther

definition handle_outcome :: "worker \<Rightarrow> int \<Rightarrow> nat \<Rightarrow> string \<Rightarrow> work_outcome \<Rightarrow> wdb \<Rightarrow> exn + wdb" where
  "handle_outcome w now pk holder outcome db =
     (case outcome of
        Raised FatalError \<Rightarrow> Inl FatalError
      | Raised e \<Rightarrow> complete w now pk holder (failure_func w now e) db
      | Returned True \<Rightarrow> complete w now pk holder (success_func w now) db
      | Returned False \<Rightarrow> complete w now pk holder (reschedule_func w) db
      | ReturnedOther \<Rightarrow> Inl FatalError)"

definition execute :: "worker \<Rightarrow> int \<Rightarrow> work_unit \<Rightarrow> work_outcome \<Rightarrow> wdb \<Rightarrow> wdb" where
  "execute w now u outcome db =
     (case handle_outcome w now (wu_pk u) (wu_lease_holder u) outcome db of
        Inr db' \<Rightarrow> db'
      | Inl e \<Rightarrow> log_exception u PERMANENT e '''' db)"

definition release :: "work_unit \<Rightarrow> wdb \<Rightarrow> exn + wdb" where
  "release u db = rmap snd (revoke_lease u db)"

text \<open>
  One turn of a worker thread: take an executor off the queue and run it, or release it when
  the thread is stopping. The result says whether there was one.
\<close>

definition thread_do_work ::
  "bool \<Rightarrow> (worker \<times> work_unit \<times> work_outcome) list \<Rightarrow> int \<Rightarrow> wdb \<Rightarrow> exn + (bool \<times> (worker \<times> work_unit \<times> work_outcome) list \<times> wdb)" where
  "thread_do_work should_exit queue now db =
     (case queue of
        [] \<Rightarrow> Inr (False, [], db)
      | (w, u, outcome) # rest \<Rightarrow>
          rmap (\<lambda>db'. (True, rest, db')) (if should_exit then release u db else Inr (execute w now u outcome db)))"

section \<open>Fetching work\<close>

record dispatcher =
  dp_num_threads :: int
  dp_batch_size :: int
  dp_node :: string
  dp_type_filter :: "nat list option"
  dp_factories :: "(nat, worker) dict"

text \<open>
  Construction of a dispatcher: zero threads means one, zero batch size twice the threads.
  Several factories for one content type keep the last.
\<close>

definition new_dispatcher :: "int \<Rightarrow> int \<Rightarrow> string \<Rightarrow> nat list \<Rightarrow> (nat \<times> worker) list \<Rightarrow> exn + dispatcher" where
  "new_dispatcher num_threads batch_size node payload_types workers =
     (let threads = (if num_threads = 0 then 1 else num_threads) in
      if threads < 1 then Inl (AssertionFailed ''Invalid number of execution threads.'')
      else Inr \<lparr>dp_num_threads = threads,
             dp_batch_size = (if batch_size \<noteq> 0 then batch_size else if 2 * threads \<noteq> 0 then 2 * threads else 2),
             dp_node = node, dp_type_filter = (if payload_types = [] then None else Some payload_types),
             dp_factories = fold (\<lambda>(ct, w). AList.update ct w) workers []\<rparr>)"

definition available_work :: "dispatcher \<Rightarrow> wdb \<Rightarrow> work_unit list" where
  "available_work dp db =
     take (nat (dp_batch_size dp))
       (filter (\<lambda>u. wu_state u = READY \<and> (case dp_type_filter dp of None \<Rightarrow> True | Some ts \<Rightarrow> wu_ctype u \<in> set ts))
          (unit_rows db))"

definition get_worker :: "dispatcher \<Rightarrow> work_unit \<Rightarrow> exn + worker" where
  "get_worker dp u = (case map_of (dp_factories dp) (wu_ctype u) of None \<Rightarrow> Inl FatalError | Some w \<Rightarrow> Inr w)"

text \<open>\<open>uuid\<close> gives the identifier generated for the lease of each work unit of the batch.\<close>

definition lease_one ::
  "dispatcher \<Rightarrow> int \<Rightarrow> (nat \<Rightarrow> string) \<Rightarrow> work_unit \<Rightarrow> (worker \<times> work_unit) list \<times> wdb \<Rightarrow> exn + ((worker \<times> work_unit) list \<times> wdb)" where
  "lease_one dp now uuid u = (\<lambda>(executors, db).
     rbind (get_worker dp u) (\<lambda>w.
       rmap (\<lambda>(u', db'). (executors @ [(w, u')], db'))
         (take_lease (now + w_lease_secs w u) now (dp_node dp) (uuid (wu_pk u)) u db)))"

definition fetch_one_work_batch ::
  "dispatcher \<Rightarrow> int \<Rightarrow> (nat \<Rightarrow> string) \<Rightarrow> wdb \<Rightarrow> exn + ((worker \<times> work_unit) list \<times> wdb)" where
  "fetch_one_work_batch dp now uuid db = rfold (lease_one dp now uuid) (available_work dp db) ([], db)"

section \<open>Recovery of expired leases\<close>

definition is_expired :: "int \<Rightarrow> work_unit \<Rightarrow> bool" where
  "is_expired now u = ((case wu_leased_until u of None \<Rightarrow> True | Some t \<Rightarrow> t < now) \<and> wu_state u = LEASED)"

definition recovery_queryset :: "int \<Rightarrow> nat \<Rightarrow> wdb \<Rightarrow> work_unit list" where
  "recovery_queryset now batch_size db = sort_key wu_pk (take batch_size (filter (is_expired now) (unit_rows db)))"

definition recover_expired_work :: "int \<Rightarrow> nat \<Rightarrow> wdb \<Rightarrow> exn + (nat \<times> wdb)" where
  "recover_expired_work now batch_size db =
     rfold (\<lambda>u (n, db). rmap (\<lambda>(u', db'). (Suc n, db')) (revoke_lease u db)) (recovery_queryset now batch_size db) (0, db)"

section \<open>Choosing worker classes\<close>

text \<open>
  \<open>extrapolate_worker_classes\<close>. A worker class is its name; a name with a leading dash stands
  for all classes but that one, an unknown name raises.
\<close>

definition select_classes :: "string list \<Rightarrow> string \<Rightarrow> py_error + string list" where
  "select_classes all prefixed =
     (case prefixed of
        CHR ''-'' # name \<Rightarrow> Inr (filter (\<lambda>c. c \<noteq> name) (dict_keys (fold (\<lambda>c. AList.update c c) all [])))
      | _ \<Rightarrow> if prefixed \<in> set all then Inr [prefixed] else Inl KeyError)"

definition extrapolate_worker_classes :: "string list \<Rightarrow> string list \<Rightarrow> py_error + string list" where
  "extrapolate_worker_classes names all =
     (if names = [] then Inr all
      else rmap (\<lambda>css. if concat css = [] then all else concat css) (rmap_list (select_classes all) names))"

end
