(* ===== verification/Workflow_Invariant.thy ===== *)
theory Workflow_Invariant
  imports Workflow_Counts
begin

text \<open>
  The requirement counts of the work queue. \<open>open_set db p\<close> is what \<open>p\<close> still waits for; the
  documented invariant of \<open>num_unsatisfied_requirements\<close> says that it is the size of that set,
  positive for \<open>PENDING\<close> work and zero for \<open>READY\<close>, \<open>LEASED\<close> and \<open>SUCCEEDED\<close> work. A step
  relation collects the operations, each under the states it is meant for; the invariants are
  shown for every state reachable by steps, so that only work whose requirements have all
  succeeded is ever leased.
\<close>

declare map_of_eq_Some_iff [simp del]

section \<open>Open requirements\<close>

definition is_open :: "wdb \<Rightarrow> nat \<Rightarrow> bool" where
  "is_open db t \<longleftrightarrow> (\<exists>v. map_of (db_units db) t = Some v \<and> wu_state v \<noteq> SUCCEEDED)"

definition open_set :: "wdb \<Rightarrow> nat \<Rightarrow> nat set" where
  "open_set db p = {t. (p, t) \<in> set (db_reqs db) \<and> is_open db t}"

definition unit_ok :: "wdb \<Rightarrow> work_unit \<Rightarrow> bool" where
  "unit_ok db u \<longleftrightarrow> wu_num_unsatisfied u = int (card (open_set db (wu_pk u)))
     \<and> (wu_state u = PENDING \<longrightarrow> 0 < wu_num_unsatisfied u)
     \<and> (wu_state u \<in> {READY, LEASED, SUCCEEDED} \<longrightarrow> wu_num_unsatisfied u = 0)"

definition reqs_ok :: "wdb \<Rightarrow> bool" where
  "reqs_ok db \<longleftrightarrow> (\<forall>pk u. map_of (db_units db) pk = Some u \<longrightarrow> unit_ok db u)"

lemma finite_open_set [simp]: "finite (open_set db p)"
  by (rule finite_subset [of _ "snd ` set (db_reqs db)"]) (force simp: open_set_def)+

lemma rows_mem:
  assumes "rows_ok db"
  shows "u \<in> set (unit_rows db) \<longleftrightarrow> map_of (db_units db) (wu_pk u) = Some u"
proof -
  have d: "is_dict (db_units db)" using assms by (simp add: rows_ok_def)
  have "u \<in> set (unit_rows db) \<longleftrightarrow> (\<exists>k. (k, u) \<in> set (db_units db))" by force
  also have "\<dots> \<longleftrightarrow> (\<exists>k. map_of (db_units db) k = Some u)" by (simp only: is_dict_mem_iff [OF d])
  also have "\<dots> \<longleftrightarrow> map_of (db_units db) (wu_pk u) = Some u" using assms unfolding rows_ok_def by metis
  finally show ?thesis .
qed

lemma rows_distinct:
  assumes "rows_ok db"
  shows "distinct (map wu_pk (unit_rows db))"
proof -
  have d: "is_dict (db_units db)" using assms by (simp add: rows_ok_def)
  have "wu_pk (snd x) = fst x" if "x \<in> set (db_units db)" for x
  proof -
    have "map_of (db_units db) (fst x) = Some (snd x)" using is_dict_mem_iff [OF d, of "fst x" "snd x"] that by simp
    then show ?thesis using assms unfolding rows_ok_def by blast
  qed
  then have "map wu_pk (unit_rows db) = map fst (db_units db)" by simp
  then show ?thesis using d by (simp only:)
qed

lemma unsatisfied_open:
  assumes "rows_ok db"
  shows "length (unsatisfied_requirements db p) = card (open_set db p)"
proof -
  let ?us = "unsatisfied_requirements db p"
  have "distinct (map wu_pk ?us)" using rows_distinct [OF assms] by (simp add: unsatisfied_requirements_def distinct_map_filter del: map_map)
  moreover have "set (map wu_pk ?us) = open_set db p"
  proof (rule set_eqI)
    fix t
    have "t \<in> set (map wu_pk ?us) \<longleftrightarrow> (\<exists>u. u \<in> set (unit_rows db) \<and> wu_pk u = t \<and> (p, t) \<in> set (db_reqs db) \<and> wu_state u \<noteq> SUCCEEDED)"
      by (auto simp: unsatisfied_requirements_def)
    also have "\<dots> \<longleftrightarrow> t \<in> open_set db p"
      using assms unfolding rows_mem [OF assms] open_set_def is_open_def rows_ok_def by auto
    finally show "t \<in> set (map wu_pk ?us) \<longleftrightarrow> t \<in> open_set db p" .
  qed
  ultimately show ?thesis by (metis distinct_card length_map)
qed

lemma requirers_mem:
  "rows_ok db \<Longrightarrow> r \<in> set (requirers db pk) \<longleftrightarrow> map_of (db_units db) (wu_pk r) = Some r \<and> (wu_pk r, pk) \<in> set (db_reqs db)"
  by (auto simp: requirers_def rows_mem simp del: set_map)

lemma requirers_distinct: "rows_ok db \<Longrightarrow> distinct (map wu_pk (requirers db pk))"
  unfolding requirers_def by (rule distinct_map_sort_filter [OF rows_distinct])

text \<open>A write that keeps whether a work unit has succeeded keeps every open set.\<close>

definition same_progress :: "wdb \<Rightarrow> wdb \<Rightarrow> bool" where
  "same_progress db db' \<longleftrightarrow> db_reqs db' = db_reqs db \<and> (\<forall>t. is_open db' t = is_open db t)"

lemma same_progress_open: "same_progress db db' \<Longrightarrow> open_set db' = open_set db"
  by (auto simp: same_progress_def open_set_def fun_eq_iff)

lemma same_progress_refl [simp]: "same_progress db db"
  by (simp add: same_progress_def)

lemma same_progress_trans: "same_progress a b \<Longrightarrow> same_progress b c \<Longrightarrow> same_progress a c"
  by (simp add: same_progress_def)

lemma same_progress_write:
  assumes "db_reqs db' = db_reqs db" "db_units db' = AList.update (wu_pk u) u (db_units db)"
    and "map_of (db_units db) (wu_pk u) = Some v" "wu_state u = SUCCEEDED \<longleftrightarrow> wu_state v = SUCCEEDED"
  shows "same_progress db db'"
  using assms by (auto simp: same_progress_def is_open_def)

lemma unit_ok_same: "same_progress db db' \<Longrightarrow> unit_ok db' u = unit_ok db u"
  by (simp add: unit_ok_def same_progress_open)

lemma unit_ok_open: "open_set db' (wu_pk u) = open_set db (wu_pk u) \<Longrightarrow> unit_ok db' u = unit_ok db u"
  by (simp add: unit_ok_def)

text \<open>Work that waits for open work is \<open>PENDING\<close> or \<open>INFEASIBLE\<close>.\<close>

lemma waiting_state:
  assumes "reqs_ok db" "map_of (db_units db) pk = Some u" "t \<in> open_set db (wu_pk u)"
  shows "wu_state u \<in> {PENDING, INFEASIBLE}" "0 < wu_num_unsatisfied u"
proof -
  have ok: "unit_ok db u" using assms(1,2) by (simp add: reqs_ok_def)
  have "0 < card (open_set db (wu_pk u))" using assms(3) by (auto simp: card_gt_0_iff)
  then show pos: "0 < wu_num_unsatisfied u" using ok by (simp add: unit_ok_def)
  show "wu_state u \<in> {PENDING, INFEASIBLE}" using ok pos by (cases "wu_state u") (auto simp: unit_ok_def)
qed

section \<open>Transitive requirers\<close>

definition requirer_edges :: "wdb \<Rightarrow> (nat \<times> nat) set" where
  "requirer_edges db = {(t, s). s \<in> direct_requirer_pks db t}"

text \<open>What a call of the search adds, from \<open>r\<close> to \<open>r'\<close>: work reachable from its start, closed under edges.\<close>

definition gathers :: "wdb \<Rightarrow> nat set \<Rightarrow> nat set \<Rightarrow> nat set \<Rightarrow> bool" where
  "gathers db starts r r' \<longleftrightarrow> r \<subseteq> r' \<and> r' \<subseteq> r \<union> (requirer_edges db)\<^sup>+ `` starts
     \<and> (\<forall>x \<in> starts \<union> (r' - r). direct_requirer_pks db x \<subseteq> r')"

abbreviation unit_pks :: "wdb \<Rightarrow> nat set" where
  "unit_pks db \<equiv> set (map wu_pk (unit_rows db))"

lemma direct_requirers_sub: "direct_requirer_pks db pk \<subseteq> unit_pks db"
  by (auto simp: direct_requirer_pks_def requirers_def)

lemma gather_loop:
  assumes step: "\<And>p r. p \<in> set ps \<Longrightarrow> r0 \<subseteq> r \<Longrightarrow> \<exists>r'. f p r = Some r' \<and> gathers db {p} r r'"
    and "set ps \<subseteq> (requirer_edges db)\<^sup>+ `` S" "r0 \<subseteq> r"
  shows "\<exists>r'. fold (\<lambda>p acc. case acc of None \<Rightarrow> None | Some r \<Rightarrow> f p r) ps (Some r) = Some r'
    \<and> r \<subseteq> r' \<and> r' \<subseteq> r \<union> (requirer_edges db)\<^sup>+ `` S \<and> (\<forall>x \<in> set ps \<union> (r' - r). direct_requirer_pks db x \<subseteq> r')"
  using assms
proof (induction ps arbitrary: r)
  case (Cons p ps)
  obtain r1 where r1: "f p r = Some r1" "gathers db {p} r r1" using Cons.prems(1) [of p r] Cons.prems(3) by auto
  have sub: "r \<subseteq> r1" using r1(2) by (simp add: gathers_def)
  obtain r2 where r2: "fold (\<lambda>p acc. case acc of None \<Rightarrow> None | Some r \<Rightarrow> f p r) ps (Some r1) = Some r2"
    "r1 \<subseteq> r2" "r2 \<subseteq> r1 \<union> (requirer_edges db)\<^sup>+ `` S" "\<forall>x \<in> set ps \<union> (r2 - r1). direct_requirer_pks db x \<subseteq> r2"
  proof -
    have ps: "set ps \<subseteq> (requirer_edges db)\<^sup>+ `` S" "r0 \<subseteq> r1" using Cons.prems(2,3) sub by auto
    have st: "\<exists>r'. f q r = Some r' \<and> gathers db {q} r r'" if "q \<in> set ps" "r0 \<subseteq> r" for q r
      using Cons.prems(1) [of q r] that by simp
    have "\<exists>r2. fold (\<lambda>p acc. case acc of None \<Rightarrow> None | Some r \<Rightarrow> f p r) ps (Some r1) = Some r2
      \<and> r1 \<subseteq> r2 \<and> r2 \<subseteq> r1 \<union> (requirer_edges db)\<^sup>+ `` S \<and> (\<forall>x \<in> set ps \<union> (r2 - r1). direct_requirer_pks db x \<subseteq> r2)"
      by (rule Cons.IH [OF _ ps]) (rule st)
    then show thesis by (elim exE conjE) (rule that)
  qed
  have "(requirer_edges db)\<^sup>+ `` {p} \<subseteq> (requirer_edges db)\<^sup>+ `` S"
    using Cons.prems(2) by (auto intro: trancl_trans)
  then have "r2 \<subseteq> r \<union> (requirer_edges db)\<^sup>+ `` S" using r1(2) r2(3) unfolding gathers_def by blast
  moreover have "\<forall>x \<in> set (p # ps) \<union> (r2 - r). direct_requirer_pks db x \<subseteq> r2"
  proof
    fix x assume "x \<in> set (p # ps) \<union> (r2 - r)"
    then consider "x \<in> {p} \<union> (r1 - r)" | "x \<in> set ps \<union> (r2 - r1)" by auto
    then show "direct_requirer_pks db x \<subseteq> r2" using r1(2) r2(2,4) unfolding gathers_def by cases blast+
  qed
  ultimately show ?case using r1(1) r2(1,2) sub by auto
qed simp

lemma gather_transitive_requirers_ok:
  "card (unit_pks db - ret) < n \<Longrightarrow>
   \<exists>r'. gather_transitive_requirers n db pk ret = Some r' \<and> gathers db {pk} ret r'"
proof (induction n arbitrary: pk ret)
  case (Suc n)
  let ?D = "direct_requirer_pks db pk"
  have fin: "finite (?D - ret)" by (rule finite_subset [OF _ finite_set]) (use direct_requirers_sub in blast)
  have D: "?D \<subseteq> (requirer_edges db)\<^sup>+ `` {pk}" by (auto simp: requirer_edges_def)
  have st: "\<exists>r'. gather_transitive_requirers n db p r = Some r' \<and> gathers db {p} r r'"
    if p: "p \<in> set (sorted_list_of_set (?D - ret))" and r: "ret \<union> ?D \<subseteq> r" for p r
  proof (rule Suc.IH)
    have "p \<in> unit_pks db" "p \<notin> ret" "p \<in> r" using p r fin direct_requirers_sub [of db pk] by (auto simp del: set_map)
    then have "unit_pks db - r \<subset> unit_pks db - ret" using r by blast
    then have "card (unit_pks db - r) < card (unit_pks db - ret)" by (intro psubset_card_mono) simp_all
    then show "card (unit_pks db - r) < n" using Suc.prems by simp
  qed
  have L: "set (sorted_list_of_set (?D - ret)) \<subseteq> (requirer_edges db)\<^sup>+ `` {pk}" using fin D by auto
  obtain r' where r': "gather_transitive_requirers (Suc n) db pk ret = Some r'" "ret \<union> ?D \<subseteq> r'"
    "r' \<subseteq> ret \<union> ?D \<union> (requirer_edges db)\<^sup>+ `` {pk}"
    "\<forall>x \<in> (?D - ret) \<union> (r' - (ret \<union> ?D)). direct_requirer_pks db x \<subseteq> r'"
  proof -
    have "\<exists>r'. fold (\<lambda>p acc. case acc of None \<Rightarrow> None | Some r \<Rightarrow> gather_transitive_requirers n db p r)
        (sorted_list_of_set (?D - ret)) (Some (ret \<union> ?D)) = Some r' \<and> ret \<union> ?D \<subseteq> r'
      \<and> r' \<subseteq> ret \<union> ?D \<union> (requirer_edges db)\<^sup>+ `` {pk}
      \<and> (\<forall>x \<in> set (sorted_list_of_set (?D - ret)) \<union> (r' - (ret \<union> ?D)). direct_requirer_pks db x \<subseteq> r')"
      by (rule gather_loop [OF _ L order_refl]) (rule st)
    then show thesis unfolding set_sorted_list_of_set [OF fin]
      by (elim exE conjE) (rule that, simp_all only: gather_transitive_requirers.simps Let_def)
  qed
  have "\<forall>x \<in> {pk} \<union> (r' - ret). direct_requirer_pks db x \<subseteq> r'" using r'(2,4) by blast
  then have "gathers db {pk} ret r'" using r'(2,3) D unfolding gathers_def by blast
  then show ?case using r'(1) by blast
qed simp

lemma transitive_requirers_closure:
  "gather_transitive_requirers (Suc (length (db_units db))) db pk {} = Some (transitive_requirers db pk)
   \<and> transitive_requirers db pk = (requirer_edges db)\<^sup>+ `` {pk}"
proof -
  have "card (unit_pks db - {}) < Suc (length (db_units db))"
    using card_length [of "map wu_pk (unit_rows db)"] by simp
  then obtain r where r: "gather_transitive_requirers (Suc (length (db_units db))) db pk {} = Some r" "gathers db {pk} {} r"
    using gather_transitive_requirers_ok by blast
  have "(pk, x) \<in> (requirer_edges db)\<^sup>+ \<Longrightarrow> x \<in> r" for x
  proof (induction rule: trancl_induct)
    case (base y)
    then show ?case using r(2) by (auto simp: gathers_def requirer_edges_def)
  next
    case (step y z)
    then show ?case using r(2) by (auto simp: gathers_def requirer_edges_def)
  qed
  then have "r = (requirer_edges db)\<^sup>+ `` {pk}" using r(2) by (auto simp: gathers_def)
  then show ?thesis using r(1) by (simp add: transitive_requirers_def)
qed

section \<open>Operations keep the invariant\<close>

text \<open>
  The invariant, but for the counts of some work units that an operation has yet to set right.
\<close>

definition wf_but :: "nat set \<Rightarrow> wdb \<Rightarrow> bool" where
  "wf_but P db \<longleftrightarrow> rows_ok db \<and> is_dict (db_counts db) \<and> counts_ok db
     \<and> (\<forall>pk u. pk \<notin> P \<longrightarrow> map_of (db_units db) pk = Some u \<longrightarrow> unit_ok db u)"

definition wf_db :: "wdb \<Rightarrow> bool" where
  "wf_db db \<longleftrightarrow> rows_ok db \<and> is_dict (db_counts db) \<and> counts_ok db \<and> reqs_ok db"

lemma wf_db_but: "wf_db db \<longleftrightarrow> wf_but {} db"
  by (simp add: wf_db_def wf_but_def reqs_ok_def)

lemma wf_but_mono: "wf_but P db \<Longrightarrow> P \<subseteq> Q \<Longrightarrow> wf_but Q db"
  by (auto simp: wf_but_def)

lemma wf_dbD:
  assumes "wf_db db"
  shows "rows_ok db" "is_dict (db_counts db)" "counts_ok db" "reqs_ok db" "wf_but P db"
  using assms wf_but_mono [of "{}" db P] by (simp_all add: wf_db_def wf_db_but [symmetric])

lemma wf_but_write:
  assumes "wf_but P db" "same_progress db db'" "db_units db' = AList.update (wu_pk u) u (db_units db)" "unit_ok db u"
    and "rows_ok db'" "is_dict (db_counts db')" "counts_ok db'"
  shows "wf_but (P - {wu_pk u}) db'"
  unfolding wf_but_def unit_ok_same [OF assms(2)]
proof (intro conjI allI impI assms(5-7))
  fix pk v assume "pk \<notin> P - {wu_pk u}" "map_of (db_units db') pk = Some v"
  then show "unit_ok db v" using assms(1,4) by (cases "pk = wu_pk u") (simp_all add: assms(3) wf_but_def)
qed

lemma counts_transition [simp]: "db_counts (snd (transition_to_state s u db)) = db_counts db"
  by (simp add: transition_to_state_def Let_def account_for_state_transition_def)

lemma transition_wf:
  assumes wf: "wf_but P db" and sync: "in_sync u db"
    and s: "wu_state u = SUCCEEDED \<longleftrightarrow> s = SUCCEEDED" "unit_ok db (u\<lparr>wu_state := s\<rparr>)"
  shows "wf_but (P - {wu_pk u}) (snd (transition_to_state s u db))" "same_progress db (snd (transition_to_state s u db))"
proof -
  obtain v where v: "map_of (db_units db) (wu_pk u) = Some v" "wu_state v = wu_state u" using sync by (auto simp: in_sync_def)
  have rows: "rows_ok db" "is_dict (db_counts db)" "counts_ok db" using wf by (simp_all add: wf_but_def)
  show p: "same_progress db (snd (transition_to_state s u db))"
    using same_progress_write [of "snd (transition_to_state s u db)" db "u\<lparr>wu_state := s\<rparr>" v] v s(1) by simp
  show "wf_but (P - {wu_pk u}) (snd (transition_to_state s u db))"
    using wf_but_write [OF wf p, of "u\<lparr>wu_state := s\<rparr>"] s(2) rows(2) v(1)
      rows_ok_transition [OF rows(1), of u s] counts_ok_transition [OF rows(1,3) sync, of s] by simp
qed

lemma save_wf:
  assumes wf: "wf_but P db" and sync: "in_sync u db" and ok: "unit_ok db u"
  shows "wf_but (P - {wu_pk u}) (save u db)" "same_progress db (save u db)"
proof -
  obtain v where v: "map_of (db_units db) (wu_pk u) = Some v" "wu_state v = wu_state u" using sync by (auto simp: in_sync_def)
  have rows: "rows_ok db" "is_dict (db_counts db)" "counts_ok db" using wf by (simp_all add: wf_but_def)
  show p: "same_progress db (save u db)" using same_progress_write [of "save u db" db u v] v by simp
  show "wf_but (P - {wu_pk u}) (save u db)"
    using wf_but_write [OF wf p, of u] ok rows(2) v(1) rows_ok_save [OF rows(1), of u] counts_ok_save [OF rows(1,3) sync] by simp
qed

text \<open>A transition followed by the caller's \<open>save\<close>.\<close>

lemma transition_save_wf:
  assumes "wf_but P db" "in_sync u db" "wu_state u = SUCCEEDED \<longleftrightarrow> s = SUCCEEDED" "unit_ok db (u\<lparr>wu_state := s\<rparr>)"
  shows "wf_but (P - {wu_pk u}) (save (u\<lparr>wu_state := s\<rparr>) (snd (transition_to_state s u db)))"
    "same_progress db (save (u\<lparr>wu_state := s\<rparr>) (snd (transition_to_state s u db)))"
proof -
  let ?d = "snd (transition_to_state s u db)"
  have t: "wf_but (P - {wu_pk u}) ?d" "same_progress db ?d" by (fact transition_wf [OF assms])+
  have "unit_ok ?d (u\<lparr>wu_state := s\<rparr>)" using unit_ok_same [OF t(2)] assms(4) by simp
  moreover have "in_sync (u\<lparr>wu_state := s\<rparr>) ?d" by (simp add: in_sync_def)
  ultimately show "wf_but (P - {wu_pk u}) (save (u\<lparr>wu_state := s\<rparr>) ?d)" "same_progress db (save (u\<lparr>wu_state := s\<rparr>) ?d)"
    using save_wf [OF t(1), of "u\<lparr>wu_state := s\<rparr>"] same_progress_trans [OF t(2)] by simp_all
qed

lemma row_unit_ok: "wf_db db \<Longrightarrow> map_of (db_units db) pk = Some u \<Longrightarrow> unit_ok db u \<and> wu_pk u = pk \<and> in_sync u db"
  by (auto simp: wf_db_def reqs_ok_def rows_ok_def in_sync_def)

lemma feasible_unit_ok: "unit_ok db u \<Longrightarrow> unit_ok db (u\<lparr>wu_state := feasible_state u\<rparr>)"
  by (auto simp: unit_ok_def feasible_state_def)

lemma row_transition_wf:
  assumes "wf_db db" "map_of (db_units db) pk = Some u" "wu_state u \<noteq> SUCCEEDED" "s \<noteq> SUCCEEDED" "unit_ok db (u\<lparr>wu_state := s\<rparr>)"
  shows "wf_db (snd (transition_to_state s u db))"
  using transition_wf(1) [of "{}" db u s] row_unit_ok [OF assms(1,2)] assms by (simp add: wf_db_but)

lemma revoke_lease_wf:
  assumes "wf_db db" "map_of (db_units db) pk = Some u" "revoke_lease u db = Inr (u', db')"
  shows "wf_db db'"
proof -
  have *: "wu_state u = LEASED" "db' = snd (transition_to_state (feasible_state u) u db)"
    using assms(3) by (auto simp: revoke_lease_def split: if_splits) (metis snd_conv)
  have "unit_ok db (u\<lparr>wu_state := feasible_state u\<rparr>)" using row_unit_ok [OF assms(1,2)] by (simp add: feasible_unit_ok)
  then show ?thesis unfolding *(2) by (intro row_transition_wf [OF assms(1,2)]) (auto simp: *(1) feasible_state_def)
qed

lemma mark_as_feasible_wf:
  assumes "wf_db db" "map_of (db_units db) pk = Some u" "mark_as_feasible u db = Inr (u', db')"
  shows "wf_db db'"
proof -
  have *: "wu_state u = INFEASIBLE" "db' = snd (transition_to_state (feasible_state u) u db)"
    using assms(3) by (auto simp: mark_as_feasible_def split: if_splits) (metis snd_conv)
  have "unit_ok db (u\<lparr>wu_state := feasible_state u\<rparr>)" using row_unit_ok [OF assms(1,2)] by (simp add: feasible_unit_ok)
  then show ?thesis unfolding *(2) by (intro row_transition_wf [OF assms(1,2)]) (auto simp: *(1) feasible_state_def)
qed

lemma take_lease_wf:
  assumes "wf_db db" "map_of (db_units db) pk = Some u" "take_lease until at node uuid u db = Inr (u', db')"
  shows "wf_db db'"
proof -
  let ?u = "u\<lparr>wu_leased_until := Some until, wu_lease_holder := uuid, wu_node := node, wu_last_attempt := at\<rparr>"
  have *: "wu_state u = READY" "db' = snd (transition_to_state LEASED ?u db)"
    using assms(3) by (auto simp: take_lease_def lease_taken_def split: if_splits) (metis snd_conv)
  have u: "unit_ok db u" "wu_pk u = pk" "in_sync u db" using row_unit_ok [OF assms(1,2)] by simp_all
  have "unit_ok db (?u\<lparr>wu_state := LEASED\<rparr>)" using u(1) *(1) by (auto simp: unit_ok_def)
  moreover have "in_sync ?u db" using u(3) by (simp add: in_sync_def)
  ultimately show ?thesis unfolding *(2) using transition_wf(1) [of "{}" db ?u LEASED] *(1) assms(1) by (simp add: wf_db_but)
qed

text \<open>Adding requirements changes the open set of their source only.\<close>

lemma open_set_add:
  assumes "db' = db\<lparr>db_reqs := db_reqs db @ map (Pair p) ts\<rparr>"
  shows "open_set db' q = (if q = p then open_set db p \<union> {t \<in> set ts. is_open db t} else open_set db q)"
  using assms by (auto simp: open_set_def is_open_def)

lemma add_requirements_wf:
  assumes wf: "wf_db db" and p: "p < db_next db" "\<forall>t \<in> set ts. t < db_next db"
  shows "wf_but {p} (db\<lparr>db_reqs := db_reqs db @ map (Pair p) ts\<rparr>)"
proof -
  let ?db = "db\<lparr>db_reqs := db_reqs db @ map (Pair p) ts\<rparr>"
  have "unit_ok ?db u" if "q \<noteq> p" "map_of (db_units ?db) q = Some u" for q u
  proof -
    have "unit_ok db u" "wu_pk u = q" using row_unit_ok [OF wf, of q u] that(2) by simp_all
    then show ?thesis using open_set_add [OF refl, of db p ts q] that(1) unit_ok_open [of ?db u db] by simp
  qed
  moreover have "rows_ok ?db" "is_dict (db_counts ?db)" "counts_ok ?db"
    using wf_dbD(1-3) [OF wf] p by (auto simp: rows_ok_def counts_ok_def recorded_total_def state_total_def)
  ultimately show ?thesis by (simp add: wf_but_def)
qed

lemma add_requirement_by_id_wf:
  assumes wf: "wf_db db" and u: "map_of (db_units db) pk = Some u" "wu_state u \<in> {PENDING, READY, LEASED}"
    and t: "map_of (db_units db) t = Some target" and r: "add_requirement_by_id pk t db = Inr (b, db')"
  shows "wf_db db'"
proof (cases "(pk, t) \<in> set (db_reqs db)")
  case True
  then have "db' = save u db" using r u row_unit_ok [OF wf u(1)] by (simp add: add_requirement_by_id_def add_requirement_def)
  then show ?thesis using row_unit_ok [OF wf u(1)] wf save_wf(1) [of "{}" db u] by (simp add: wf_db_but)
next
  case new: False
  have uok: "unit_ok db u" "wu_pk u = pk" "in_sync u db" using row_unit_ok [OF wf u(1)] by simp_all
  let ?db = "db\<lparr>db_reqs := db_reqs db @ [(pk, t)]\<rparr>"
  have open1: "open_set ?db pk = open_set db pk \<union> (if is_open db t then {t} else {})"
    using open_set_add [of ?db db pk "[t]" pk] by auto
  have "t \<notin> open_set db pk" using new by (simp add: open_set_def)
  then have card1: "card (open_set ?db pk) = card (open_set db pk) + (if is_open db t then 1 else 0)" by (simp add: open1)
  have tt: "is_open db t \<longleftrightarrow> wu_state target \<noteq> SUCCEEDED" using t by (simp add: is_open_def)
  have pre: "wf_but {pk} ?db"
    using add_requirements_wf [OF wf, of pk "[t]"] wf_dbD(1) [OF wf] u(1) t by (simp add: rows_ok_def)
  have sync: "in_sync u' ?db" if "wu_pk u' = pk" "wu_state u' = wu_state u" "wu_ctype u' = wu_ctype u" for u'
    using that uok(2,3) by (simp add: in_sync_def)
  let ?u1 = "u\<lparr>wu_num_unsatisfied := wu_num_unsatisfied u + 1\<rparr>"
  have num: "wu_num_unsatisfied u = int (card (open_set db pk))" using uok(1,2) by (simp add: unit_ok_def)
  consider "wu_state target = SUCCEEDED" | "wu_state target = INFEASIBLE"
    | "wu_state target \<notin> {SUCCEEDED, INFEASIBLE}" "wu_state u \<noteq> PENDING" | "wu_state target \<notin> {SUCCEEDED, INFEASIBLE}" "wu_state u = PENDING"
    by blast
  then show ?thesis
  proof cases
    case 1
    then have "db' = save u ?db" using r u new t uok(2) by (simp add: add_requirement_by_id_def add_requirement_def Let_def)
    moreover have "unit_ok ?db u" using unit_ok_open [of ?db u db] open1 uok(1,2) tt 1 by simp
    ultimately show ?thesis using save_wf(1) [OF pre, of u] sync [of u] uok(2) by (simp add: wf_db_but)
  next
    case 2
    then have "db' = save (?u1\<lparr>wu_state := INFEASIBLE\<rparr>) (snd (transition_to_state INFEASIBLE ?u1 ?db))"
      using r u new t uok(2) by (auto simp: add_requirement_by_id_def add_requirement_def Let_def transition_to_state_def)
    moreover have "unit_ok ?db (?u1\<lparr>wu_state := INFEASIBLE\<rparr>)" using uok(2) card1 tt 2 num by (simp add: unit_ok_def)
    ultimately show ?thesis using transition_save_wf(1) [OF pre, of ?u1 INFEASIBLE] sync [of ?u1] uok(2) u(2) by (auto simp: wf_db_but)
  next
    case 3
    then have "db' = save (?u1\<lparr>wu_state := PENDING\<rparr>) (snd (transition_to_state PENDING ?u1 ?db))"
      using r u new t uok(2) by (auto simp: add_requirement_by_id_def add_requirement_def Let_def transition_to_state_def)
    moreover have "unit_ok ?db (?u1\<lparr>wu_state := PENDING\<rparr>)" using uok(2) card1 tt 3 num by (simp add: unit_ok_def)
    ultimately show ?thesis using transition_save_wf(1) [OF pre, of ?u1 PENDING] sync [of ?u1] uok(2) u(2) by (auto simp: wf_db_but)
  next
    case 4
    then have "db' = save ?u1 ?db" using r u new t uok(2) by (auto simp: add_requirement_by_id_def add_requirement_def Let_def)
    moreover have "unit_ok ?db ?u1" using uok(2) card1 tt 4 num by (simp add: unit_ok_def)
    ultimately show ?thesis using save_wf(1) [OF pre, of ?u1] sync [of ?u1] uok(2) by (simp add: wf_db_but)
  qed
qed

section \<open>Success\<close>

text \<open>
  The loop over the requirers of a work unit that succeeded. Before it, the count of each
  requirer is one too high; each iteration sets one right and touches no other row.
\<close>

lemma satisfy_requirer_wf:
  assumes wf: "wf_but P db" and row: "map_of (db_units db) (wu_pk r) = Some r" and st: "wu_state r \<in> {PENDING, INFEASIBLE}"
    and num: "wu_num_unsatisfied r = int (card (open_set db (wu_pk r))) + 1"
  shows "\<exists>r' db'. satisfy_requirer b now r db = Inr db' \<and> wf_but (P - {wu_pk r}) db' \<and> same_progress db db'
    \<and> db_units db' = AList.update (wu_pk r) r' (db_units db)"
proof -
  have sync: "in_sync r' db" if "wu_pk r' = wu_pk r" "wu_state r' = wu_state r" "wu_ctype r' = wu_ctype r" for r'
    using that row by (simp add: in_sync_def)
  let ?k = "int (card (open_set db (wu_pk r)))"
  let ?r = "r\<lparr>wu_num_unsatisfied := ?k\<rparr>"
  have len: "int (length (unsatisfied_requirements db (wu_pk r))) = ?k" using wf by (simp add: unsatisfied_open wf_but_def)
  define s where "s = (if wu_state r = PENDING \<and> (case wu_leased_until r of None \<Rightarrow> False | Some t \<Rightarrow> now < t) then LEASED else READY)"
  show ?thesis
  proof (cases "?k = 0")
    case True
    have "satisfy_requirer b now r db = Inr (save (?r\<lparr>wu_state := s\<rparr>) (snd (transition_to_state s ?r db)))"
      using st num len True
      by (auto simp: satisfy_requirer_def requirement_satisfied_def is_leased_def s_def transition_to_state_def Let_def split: option.splits)
    moreover have "unit_ok db (?r\<lparr>wu_state := s\<rparr>)" using True by (auto simp: unit_ok_def s_def)
    ultimately show ?thesis
      using transition_save_wf [OF wf, of ?r s] sync [of ?r] st
      by (intro exI [of _ "?r\<lparr>wu_state := s\<rparr>"]) (auto simp: s_def)
  next
    case False
    have "satisfy_requirer b now r db = Inr (save ?r db)"
      using st num len False by (auto simp: satisfy_requirer_def requirement_satisfied_def is_leased_def Let_def)
    moreover have "unit_ok db ?r" using False st by (auto simp: unit_ok_def card_gt_0_iff)
    ultimately show ?thesis using save_wf [OF wf, of ?r] sync [of ?r] by (intro exI [of _ ?r]) simp
  qed
qed

lemma satisfy_requirers_wf:
  assumes "distinct (map wu_pk rs)" "wf_but (wu_pk ` set rs) db"
    and "\<forall>r \<in> set rs. map_of (db_units db) (wu_pk r) = Some r \<and> wu_state r \<in> {PENDING, INFEASIBLE}
      \<and> wu_num_unsatisfied r = int (card (open_set db (wu_pk r))) + 1"
  shows "\<exists>db'. rfold (satisfy_requirer b now) rs db = Inr db' \<and> wf_db db' \<and> same_progress db db'
    \<and> (\<forall>q. q \<notin> wu_pk ` set rs \<longrightarrow> map_of (db_units db') q = map_of (db_units db) q)"
  using assms
proof (induction rs arbitrary: db)
  case Nil
  then show ?case by (simp add: wf_db_but)
next
  case (Cons r rs)
  obtain r' d where d: "satisfy_requirer b now r db = Inr d" "wf_but (wu_pk ` set (r # rs) - {wu_pk r}) d"
    "same_progress db d" "db_units d = AList.update (wu_pk r) r' (db_units db)"
    using satisfy_requirer_wf [OF Cons.prems(2), of r b now] Cons.prems(3) by auto
  have "wu_pk ` set (r # rs) - {wu_pk r} = wu_pk ` set rs" using Cons.prems(1) by auto
  then have wf: "wf_but (wu_pk ` set rs) d" using d(2) by simp
  have rows: "\<forall>q \<in> set rs. map_of (db_units d) (wu_pk q) = Some q \<and> wu_state q \<in> {PENDING, INFEASIBLE}
      \<and> wu_num_unsatisfied q = int (card (open_set d (wu_pk q))) + 1"
    using Cons.prems(1,3) d(4) same_progress_open [OF d(3)] by (auto simp: image_iff)
  obtain db' where "rfold (satisfy_requirer b now) rs d = Inr db'" "wf_db db'" "same_progress d db'"
    "\<forall>q. q \<notin> wu_pk ` set rs \<longrightarrow> map_of (db_units db') q = map_of (db_units d) q"
    using Cons.IH [OF _ wf rows] Cons.prems(1) by auto
  then show ?case using d(1,4) same_progress_trans [OF d(3)] by auto
qed

lemma leased_no_open:
  assumes "wf_db db" "map_of (db_units db) pk = Some u" "wu_state u \<in> {READY, LEASED, SUCCEEDED}"
  shows "open_set db pk = {}" "wu_num_unsatisfied u = 0"
  using row_unit_ok [OF assms(1,2)] assms(3) by (auto simp: unit_ok_def)

lemma work_succeeded_wf:
  assumes wf: "wf_db db" and u: "map_of (db_units db) pk = Some u" "wu_state u = LEASED"
  shows "\<exists>db'. work_succeeded b now u db = Inr (u\<lparr>wu_succeeded_at := wu_last_attempt u, wu_state := SUCCEEDED\<rparr>, db')
    \<and> wf_db db' \<and> map_of (db_units db') pk = Some (u\<lparr>wu_succeeded_at := wu_last_attempt u, wu_state := SUCCEEDED\<rparr>)"
proof -
  let ?u1 = "u\<lparr>wu_succeeded_at := wu_last_attempt u, wu_state := SUCCEEDED\<rparr>"
  define db2 where "db2 = save ?u1 (snd (transition_to_state SUCCEEDED (u\<lparr>wu_succeeded_at := wu_last_attempt u\<rparr>) db))"
  have uok: "wu_pk u = pk" "in_sync u db" using row_unit_ok [OF wf u(1)] by simp_all
  have rows2: "rows_ok db2" "counts_ok db2" "is_dict (db_counts db2)"
    unfolding db2_def using wf_dbD(1-3) [OF wf] uok u(1)
    by (auto intro!: rows_ok_save counts_ok_save rows_ok_transition counts_ok_transition simp: in_sync_def)
  have m2: "map_of (db_units db2) q = (if q = pk then Some ?u1 else map_of (db_units db) q)" for q
    by (simp add: db2_def uok(1))
  have r2: "db_reqs db2 = db_reqs db" by (simp add: db2_def)
  have pk_open: "is_open db pk" using u by (simp add: is_open_def)
  have open2: "open_set db2 q = open_set db q - {pk}" for q by (auto simp: open_set_def is_open_def m2 r2)
  have none: "open_set db pk = {}" using leased_no_open(1) [OF wf u(1)] u(2) by simp
  have no_self: "(pk, pk) \<notin> set (db_reqs db)" using none pk_open by (auto simp: open_set_def)
  let ?rs = "requirers db2 pk"
  have req: "map_of (db_units db2) (wu_pk r) = Some r \<and> wu_state r \<in> {PENDING, INFEASIBLE}
      \<and> wu_num_unsatisfied r = int (card (open_set db2 (wu_pk r))) + 1" if "r \<in> set ?rs" for r
  proof -
    have r: "map_of (db_units db2) (wu_pk r) = Some r" "(wu_pk r, pk) \<in> set (db_reqs db)"
      using that requirers_mem [OF rows2(1)] r2 by auto
    then have row: "map_of (db_units db) (wu_pk r) = Some r" using no_self by (auto simp: m2 split: if_splits)
    have mem: "pk \<in> open_set db (wu_pk r)" using r(2) pk_open by (simp add: open_set_def)
    have "wu_state r \<in> {PENDING, INFEASIBLE}" by (rule waiting_state(1) [OF wf_dbD(4) [OF wf] row mem])
    moreover have "wu_num_unsatisfied r = int (card (open_set db2 (wu_pk r))) + 1"
      using row_unit_ok [OF wf row] mem card_Suc_Diff1 [OF finite_open_set mem] by (simp add: unit_ok_def open2)
    ultimately show ?thesis using r(1) by simp
  qed
  have "wf_but (wu_pk ` set ?rs) db2" unfolding wf_but_def
  proof (intro conjI allI impI rows2)
    fix q v assume q: "q \<notin> wu_pk ` set ?rs" "map_of (db_units db2) q = Some v"
    show "unit_ok db2 v"
    proof (cases "q = pk")
      case True
      then show ?thesis using q(2) leased_no_open [OF wf u(1)] u(2) none uok(1) by (auto simp: m2 unit_ok_def open2)
    next
      case False
      then have v: "map_of (db_units db) q = Some v" using q(2) by (simp add: m2)
      then have "(q, pk) \<notin> set (db_reqs db)" using q requirers_mem [OF rows2(1), of v pk] row_unit_ok [OF wf v] r2 by force
      then have "pk \<notin> open_set db q" by (simp add: open_set_def)
      then show ?thesis using row_unit_ok [OF wf v] unit_ok_open [of db2 v db] by (simp add: open2)
    qed
  qed
  then obtain db' where "rfold (satisfy_requirer b now) ?rs db2 = Inr db'" "wf_db db'"
    "\<forall>q. q \<notin> wu_pk ` set ?rs \<longrightarrow> map_of (db_units db') q = map_of (db_units db2) q"
    using satisfy_requirers_wf [OF requirers_distinct [OF rows2(1)], where b = b and now = now] req by blast
  moreover have "pk \<notin> wu_pk ` set ?rs" using requirers_mem [OF rows2(1)] r2 no_self by auto
  ultimately show ?thesis using u(2) uok(1)
    by (intro exI [of _ db']) (auto simp: work_succeeded_def transition_to_state_def Let_def db2_def m2)
qed

section \<open>Permanent errors\<close>

lemma transitive_requirer_waits:
  assumes wf: "wf_db db" and pk: "is_open db pk" and x: "(pk, x) \<in> (requirer_edges db)\<^sup>+"
  shows "\<exists>v. map_of (db_units db) x = Some v \<and> wu_state v \<in> {PENDING, INFEASIBLE}"
  using x
proof (induction rule: trancl_induct)
  case (base y)
  then obtain v where v: "map_of (db_units db) y = Some v" "(wu_pk v, pk) \<in> set (db_reqs db)"
    using requirers_mem [OF wf_dbD(1) [OF wf]] by (auto simp: requirer_edges_def direct_requirer_pks_def)
  have "pk \<in> open_set db (wu_pk v)" using v(2) pk by (simp add: open_set_def)
  then show ?case using waiting_state(1) [OF wf_dbD(4) [OF wf] v(1)] v(1) by blast
next
  case (step y z)
  then obtain v where v: "map_of (db_units db) z = Some v" "(wu_pk v, y) \<in> set (db_reqs db)"
    using requirers_mem [OF wf_dbD(1) [OF wf]] by (auto simp: requirer_edges_def direct_requirer_pks_def)
  have "is_open db y" using step.IH by (auto simp: is_open_def)
  then have "y \<in> open_set db (wu_pk v)" using v(2) by (simp add: open_set_def)
  then show ?case using waiting_state(1) [OF wf_dbD(4) [OF wf] v(1)] v(1) by blast
qed

text \<open>
  A loop that writes one row per iteration. The state of the loop may hold more than the
  database, which \<open>\<pi>\<close> reads off it.
\<close>

definition writes_row :: "('s \<Rightarrow> wdb) \<Rightarrow> work_unit \<Rightarrow> work_unit \<Rightarrow> 's \<Rightarrow> 's \<Rightarrow> bool" where
  "writes_row \<pi> r r' s s' \<longleftrightarrow> wf_db (\<pi> s') \<and> db_reqs (\<pi> s') = db_reqs (\<pi> s)
     \<and> map_of (db_units (\<pi> s')) = (map_of (db_units (\<pi> s)))(wu_pk r \<mapsto> r')"

lemma row_loop:
  assumes step: "\<And>r s. r \<in> set rs \<Longrightarrow> wf_db (\<pi> s) \<Longrightarrow> map_of (db_units (\<pi> s)) (wu_pk r) = Some r \<Longrightarrow>
      \<exists>s'. f r s = Inr s' \<and> writes_row \<pi> r (h r) s s'"
    and "wf_db (\<pi> s)" "distinct (map wu_pk rs)" "\<forall>r \<in> set rs. map_of (db_units (\<pi> s)) (wu_pk r) = Some r"
  shows "\<exists>s'. rfold f rs s = Inr s' \<and> wf_db (\<pi> s') \<and> db_reqs (\<pi> s') = db_reqs (\<pi> s)
    \<and> (\<forall>r \<in> set rs. map_of (db_units (\<pi> s')) (wu_pk r) = Some (h r))
    \<and> (\<forall>q. q \<notin> wu_pk ` set rs \<longrightarrow> map_of (db_units (\<pi> s')) q = map_of (db_units (\<pi> s)) q)"
  using assms
proof (induction rs arbitrary: s)
  case (Cons r rs)
  have "map_of (db_units (\<pi> s)) (wu_pk r) = Some r" using Cons.prems(4) by simp
  from Cons.prems(1) [OF list.set_intros(1) Cons.prems(2) this]
  obtain s1 where s1: "f r s = Inr s1" and w: "writes_row \<pi> r (h r) s s1" by (elim exE conjE) (rule that)
  have wf: "wf_db (\<pi> s1)" using w by (simp add: writes_row_def)
  have new: "wu_pk r \<notin> wu_pk ` set rs" using Cons.prems(3) by simp
  have rows: "\<forall>q \<in> set rs. map_of (db_units (\<pi> s1)) (wu_pk q) = Some q"
  proof
    fix q assume q: "q \<in> set rs"
    have "wu_pk q \<noteq> wu_pk r" using new q by (metis imageI)
    moreover have "map_of (db_units (\<pi> s)) (wu_pk q) = Some q" using Cons.prems(4) q by simp
    ultimately show "map_of (db_units (\<pi> s1)) (wu_pk q) = Some q" using w by (simp add: writes_row_def)
  qed
  have dist: "distinct (map wu_pk rs)" using Cons.prems(3) by simp
  have "\<exists>s'. rfold f rs s1 = Inr s' \<and> wf_db (\<pi> s') \<and> db_reqs (\<pi> s') = db_reqs (\<pi> s1)
    \<and> (\<forall>r \<in> set rs. map_of (db_units (\<pi> s')) (wu_pk r) = Some (h r))
    \<and> (\<forall>q. q \<notin> wu_pk ` set rs \<longrightarrow> map_of (db_units (\<pi> s')) q = map_of (db_units (\<pi> s1)) q)"
    by (rule Cons.IH [OF _ wf dist rows]) (rule Cons.prems(1), simp_all)
  then obtain s2 where s2: "rfold f rs s1 = Inr s2" "wf_db (\<pi> s2)" "db_reqs (\<pi> s2) = db_reqs (\<pi> s1)"
    "\<forall>r \<in> set rs. map_of (db_units (\<pi> s2)) (wu_pk r) = Some (h r)"
    "\<forall>q. q \<notin> wu_pk ` set rs \<longrightarrow> map_of (db_units (\<pi> s2)) q = map_of (db_units (\<pi> s1)) q"
    by (elim exE conjE) (rule that)
  have "map_of (db_units (\<pi> s2)) (wu_pk r) = Some (h r)" using s2(5) new w by (simp add: writes_row_def)
  then show ?case using s1 s2 w by (intro exI [of _ s2]) (simp add: writes_row_def)
qed simp

lemma transition_row: "map_of (db_units (snd (transition_to_state s u db))) = (map_of (db_units db))(wu_pk u \<mapsto> u\<lparr>wu_state := s\<rparr>)"
  by (simp add: fun_eq_iff)

lemma infeasible_requirers_wf:
  assumes "wf_db db" "distinct (map wu_pk rs)"
    and "\<forall>r \<in> set rs. map_of (db_units db) (wu_pk r) = Some r" "\<forall>r \<in> set rs. wu_state r \<noteq> SUCCEEDED"
  shows "\<exists>db'. rfold has_infeasible_requirement rs db = Inr db' \<and> wf_db db' \<and> db_reqs db' = db_reqs db
    \<and> (\<forall>r \<in> set rs. map_of (db_units db') (wu_pk r) = Some (r\<lparr>wu_state := INFEASIBLE\<rparr>))
    \<and> (\<forall>q. q \<notin> wu_pk ` set rs \<longrightarrow> map_of (db_units db') q = map_of (db_units db) q)"
proof (rule row_loop [where \<pi> = "\<lambda>db. db", OF _ assms(1-3)])
  fix r db assume r: "r \<in> set rs" "wf_db db" "map_of (db_units db) (wu_pk r) = Some r"
  have "unit_ok db (r\<lparr>wu_state := INFEASIBLE\<rparr>)" using row_unit_ok [OF r(2,3)] by (simp add: unit_ok_def)
  then have "wf_db (snd (transition_to_state INFEASIBLE r db))" using assms(4) r(1) by (intro row_transition_wf [OF r(2,3)]) auto
  then show "\<exists>s'. has_infeasible_requirement r db = Inr s' \<and> writes_row (\<lambda>db. db) r (r\<lparr>wu_state := INFEASIBLE\<rparr>) db s'"
    using transition_row [of INFEASIBLE r db] by (simp add: has_infeasible_requirement_def writes_row_def)
qed

lemma permanent_error_wf:
  assumes wf: "wf_db db" and u: "map_of (db_units db) pk = Some u" "wu_state u = LEASED"
  shows "\<exists>db'. permanent_error_occurred u db = Inr (u\<lparr>wu_state := INFEASIBLE\<rparr>, db') \<and> wf_db db'
    \<and> map_of (db_units db') pk = Some (u\<lparr>wu_state := INFEASIBLE\<rparr>)
    \<and> (\<forall>q \<in> transitive_requirers db pk. \<exists>v. map_of (db_units db') q = Some v \<and> wu_state v = INFEASIBLE)"
proof -
  have uok: "wu_pk u = pk" using row_unit_ok [OF wf u(1)] by simp
  have pk_open: "is_open db pk" using u by (simp add: is_open_def)
  define rs where "rs = sort_key wu_pk (filter (\<lambda>r. wu_pk r \<in> transitive_requirers db pk \<and> wu_state r \<noteq> INFEASIBLE) (unit_rows db))"
  have tr: "transitive_requirers db pk = (requirer_edges db)\<^sup>+ `` {pk}" using transitive_requirers_closure by blast
  have rs: "map_of (db_units db) (wu_pk r) = Some r \<and> wu_state r \<in> {PENDING, INFEASIBLE}" if "r \<in> set rs" for r
  proof -
    have row: "map_of (db_units db) (wu_pk r) = Some r" and "wu_pk r \<in> transitive_requirers db pk"
      using that rows_mem [OF wf_dbD(1) [OF wf]] by (auto simp: rs_def simp del: set_map)
    then show ?thesis using transitive_requirer_waits [OF wf pk_open, of "wu_pk r"] tr by auto
  qed
  have dist: "distinct (map wu_pk rs)"
    unfolding rs_def by (rule distinct_map_sort_filter [OF rows_distinct [OF wf_dbD(1) [OF wf]]])
  have notin: "pk \<notin> wu_pk ` set rs"
  proof
    assume "pk \<in> wu_pk ` set rs"
    then obtain r where "r \<in> set rs" "wu_pk r = pk" by blast
    then show False using rs [of r] u by simp
  qed
  have rs1: "\<forall>r \<in> set rs. map_of (db_units db) (wu_pk r) = Some r" using rs by blast
  have rs2: "\<forall>r \<in> set rs. wu_state r \<noteq> SUCCEEDED" using rs by fastforce
  obtain d where d: "rfold has_infeasible_requirement rs db = Inr d" "wf_db d"
    "\<forall>r \<in> set rs. map_of (db_units d) (wu_pk r) = Some (r\<lparr>wu_state := INFEASIBLE\<rparr>)"
    "\<forall>q. q \<notin> wu_pk ` set rs \<longrightarrow> map_of (db_units d) q = map_of (db_units db) q"
    using infeasible_requirers_wf [OF wf dist rs1 rs2] by (elim exE conjE) (rule that)
  have row: "map_of (db_units d) pk = Some u" using d(4) notin u(1) by simp
  have "unit_ok d (u\<lparr>wu_state := INFEASIBLE\<rparr>)" using row_unit_ok [OF d(2) row] by (simp add: unit_ok_def)
  then have "wf_db (snd (transition_to_state INFEASIBLE u d))" using u(2) by (intro row_transition_wf [OF d(2) row]) simp_all
  moreover have "\<exists>v. map_of (db_units (snd (transition_to_state INFEASIBLE u d))) q = Some v \<and> wu_state v = INFEASIBLE"
    if q: "q \<in> transitive_requirers db pk" for q
  proof (cases "q \<in> wu_pk ` set rs")
    case True
    then show ?thesis using d(3) uok notin by (auto simp: transition_row)
  next
    case False
    obtain v where v: "map_of (db_units db) q = Some v" using transitive_requirer_waits [OF wf pk_open, of q] q tr by auto
    then have "v \<in> set (unit_rows db)" "wu_pk v = q" using rows_mem [OF wf_dbD(1) [OF wf]] row_unit_ok [OF wf v] by simp_all
    then have "wu_state v = INFEASIBLE" using False q by (auto simp: rs_def simp del: set_map)
    then show ?thesis using False d(4) v uok by (simp add: transition_row)
  qed
  ultimately show ?thesis using d(1) u(2) uok
    by (intro exI [of _ "snd (transition_to_state INFEASIBLE u d)"])
      (simp add: permanent_error_occurred_def rs_def [symmetric] prod_eq_iff Let_def)
qed

section \<open>Creation\<close>

text \<open>\<open>k\<close> units of a content type are in the table and not yet in the delta table.\<close>

definition wf_ahead :: "nat \<Rightarrow> nat \<Rightarrow> wdb \<Rightarrow> bool" where
  "wf_ahead k ct db \<longleftrightarrow> rows_ok db \<and> is_dict (db_counts db) \<and> reqs_ok db
     \<and> (\<forall>c s. recorded_total db c s + (if c = ct \<and> s = READY then int k else 0) = state_total db c s)"

lemma wf_ahead_0: "wf_ahead 0 ct db \<longleftrightarrow> wf_db db"
  by (auto simp: wf_ahead_def wf_db_def counts_ok_def)

lemma wf_ahead_delta: "wf_ahead k ct db \<Longrightarrow> wf_db (create_delta ct None (Some READY) (int k) db)"
proof -
  assume wf: "wf_ahead k ct db"
  then have "recorded_total db c s + (if c = ct \<and> s = READY then int k else 0) = state_total db c s" for c s
    by (simp add: wf_ahead_def)
  from this [symmetric] have "counts_ok (create_delta ct None (Some READY) (int k) db)"
    by (simp add: counts_ok_def delta_effect_def)
  moreover have "unit_ok (create_delta ct None (Some READY) (int k) db) u = unit_ok db u" for u
    by (rule unit_ok_open) (simp add: open_set_def is_open_def)
  ultimately show ?thesis using wf by (simp add: wf_ahead_def wf_db_def reqs_ok_def)
qed

lemma insert_work_unit_wf:
  assumes wf: "wf_ahead k ct db" and i: "insert_work_unit ct creator now descr (pks, db) = (pks', db')"
  shows "wf_ahead (Suc k) ct db'" "pks' = pks @ [db_next db]" "db_next db' = Suc (db_next db)" "db_reqs db' = db_reqs db"
    "db_units db' = AList.update (db_next db) (new_work_unit (db_next db) ct descr creator now) (db_units db)"
proof -
  let ?p = "db_next db" and ?u = "new_work_unit (db_next db) ct descr creator now"
  have db': "db' = save ?u (db\<lparr>db_next := Suc ?p\<rparr>)" and pks: "pks' = pks @ [?p]" using i by (simp_all add: insert_work_unit_def)
  have u: "wu_pk ?u = ?p" "wu_state ?u = READY" "wu_num_unsatisfied ?u = 0" "wu_ctype ?u = ct" by (simp_all add: new_work_unit_def)
  have rows: "rows_ok db" using wf by (simp add: wf_ahead_def)
  then have fresh: "map_of (db_units db) ?p = None" by (cases "map_of (db_units db) ?p") (auto simp: rows_ok_def)
  have noreq: "(q, ?p) \<notin> set (db_reqs db)" "(?p, q) \<notin> set (db_reqs db)" for q using rows by (auto simp: rows_ok_def)
  show pks' : "pks' = pks @ [?p]" and nx: "db_next db' = Suc ?p" and rq: "db_reqs db' = db_reqs db"
    and un: "db_units db' = AList.update ?p ?u (db_units db)" by (simp_all add: db' u pks)
  have open1: "open_set db' q = open_set db q" for q
    using noreq by (auto simp: open_set_def is_open_def un rq)
  have rows': "rows_ok db'" using rows u unfolding rows_ok_def by (auto simp: un nx rq less_Suc_eq)
  have units: "unit_ok db' v" if "map_of (db_units db') q = Some v" for q v
  proof (cases "q = ?p")
    case True
    then have "v = ?u" using that by (simp add: un)
    moreover have "open_set db ?p = {}" using noreq(2) by (simp add: open_set_def)
    ultimately show ?thesis using u by (simp add: unit_ok_def open1)
  next
    case False
    then have "unit_ok db v" using that wf by (simp add: un wf_ahead_def reqs_ok_def)
    then show ?thesis using unit_ok_open [OF open1, of v] by simp
  qed
  have rec: "recorded_total db' c s = recorded_total db c s" for c s by (simp add: db' recorded_total_def)
  have tot: "state_total db' c s = state_total db c s + (if c = ct \<and> s = READY then 1 else 0)" for c s
    using length_filter_update_new [OF fresh, of "\<lambda>u. wu_ctype u = c \<and> wu_state u = s" ?u] u unfolding state_total_def un by auto
  have "recorded_total db' c s + (if c = ct \<and> s = READY then int (Suc k) else 0) = state_total db' c s" for c s
  proof -
    have "recorded_total db c s + (if c = ct \<and> s = READY then int k else 0) = state_total db c s"
      using wf by (simp add: wf_ahead_def)
    then show ?thesis using rec [of c s] tot [of c s] by auto
  qed
  moreover have "is_dict (db_counts db')" using wf by (simp add: wf_ahead_def db')
  ultimately show "wf_ahead (Suc k) ct db'" using rows' units unfolding wf_ahead_def reqs_ok_def by blast
qed

lemma insert_work_units_wf:
  assumes "wf_ahead k ct db" "fold (insert_work_unit ct creator now) descrs (pks, db) = (pks', db')"
  shows "wf_ahead (k + length descrs) ct db' \<and> pks' = pks @ [db_next db ..< db_next db + length descrs]
    \<and> db_next db' = db_next db + length descrs \<and> db_reqs db' = db_reqs db
    \<and> (\<forall>q < db_next db. map_of (db_units db') q = map_of (db_units db) q)
    \<and> (\<forall>q \<in> {db_next db ..< db_next db + length descrs}. is_open db' q)"
  using assms
proof (induction descrs arbitrary: k pks db)
  case (Cons d ds)
  obtain p1 d1 where i: "insert_work_unit ct creator now d (pks, db) = (p1, d1)" by fastforce
  note w = insert_work_unit_wf [OF Cons.prems(1) i]
  have rest: "fold (insert_work_unit ct creator now) ds (p1, d1) = (pks', db')" using Cons.prems(2) i by simp
  have IH: "wf_ahead (Suc k + length ds) ct db'" "pks' = p1 @ [db_next d1 ..< db_next d1 + length ds]"
    "db_next db' = db_next d1 + length ds" "db_reqs db' = db_reqs d1"
    "\<forall>q < db_next d1. map_of (db_units db') q = map_of (db_units d1) q"
    "\<forall>q \<in> {db_next d1 ..< db_next d1 + length ds}. is_open db' q"
    using Cons.IH [OF w(1) rest] by simp_all
  have "is_open db' (db_next db)" using IH(5) w(3,5) by (simp add: is_open_def new_work_unit_def)
  then have "\<forall>q \<in> {db_next db ..< db_next db + length (d # ds)}. is_open db' q"
    using IH(6) w(3) by (auto simp: le_less Suc_le_eq)
  moreover have "\<forall>q < db_next db. map_of (db_units db') q = map_of (db_units db) q"
    using IH(5) w(3,5) by simp
  ultimately show ?case using IH(1-4) w(2-4) by (simp add: upt_rec)
qed simp

lemma create_work_unit_wf: "wf_db db \<Longrightarrow> wf_db (snd (create_work_unit ct creator now descr db))"
  using insert_work_unit_wf(1) [of 0 ct db creator now descr "[]"] wf_ahead_delta [of 1 ct]
  by (auto simp: create_work_unit_def Let_def wf_ahead_0 account_for_state_transition_def split: prod.splits)

lemma create_requirements_wf:
  assumes wf: "wf_db db" and u: "map_of (db_units db) pk = Some u" "wu_state u \<in> {PENDING, READY}"
    and r: "create_requirements ct creator now descrs u db = Inr (u', db')"
  shows "wf_db db'"
proof (cases "descrs = []")
  case True
  then show ?thesis using r wf by (simp add: create_requirements_def)
next
  case False
  have uok: "unit_ok db u" "wu_pk u = pk" "pk < db_next db" using row_unit_ok [OF wf u(1)] wf_dbD(1) [OF wf] u(1) by (auto simp: rows_ok_def)
  obtain pks d where f: "fold (insert_work_unit ct creator now) descrs ([], db) = (pks, d)" by fastforce
  have i: "wf_ahead (length descrs) ct d" "pks = [db_next db ..< db_next db + length descrs]" "db_next d = db_next db + length descrs"
    "db_reqs d = db_reqs db" "map_of (db_units d) pk = Some u" "\<forall>q \<in> set pks. is_open d q"
    using insert_work_units_wf [of 0 ct db creator now descrs "[]" pks d] wf f u(1) uok(3) by (simp_all add: wf_ahead_0)
  define d1 where "d1 = create_delta ct None (Some READY) (int (length descrs)) d"
  have d1: "wf_db d1" "map_of (db_units d1) pk = Some u" "db_reqs d1 = db_reqs db" "db_next d1 = db_next db + length descrs"
    "\<forall>q \<in> set pks. is_open d1 q"
    using wf_ahead_delta [OF i(1)] i by (simp_all add: d1_def is_open_def)
  define d2 where "d2 = d1\<lparr>db_reqs := db_reqs d1 @ map (Pair pk) pks\<rparr>"
  have d2: "wf_but {pk} d2" unfolding d2_def
    using d1(4) uok(3) i(2) by (intro add_requirements_wf [OF d1(1)]) auto
  have disj: "open_set d1 pk \<inter> set pks = {}" using wf_dbD(1) [OF wf] d1(3) i(2) by (auto simp: open_set_def rows_ok_def)
  have "card (open_set d2 pk) = card (open_set d1 pk) + length pks"
  proof -
    have "{t \<in> set pks. is_open d1 t} = set pks" using d1(5) by blast
    then have "open_set d2 pk = open_set d1 pk \<union> set pks" using open_set_add [OF d2_def, of pk] by simp
    then show ?thesis using disj i(2) by (simp add: card_Un_disjoint)
  qed
  moreover have num: "wu_num_unsatisfied u = int (card (open_set d1 pk))" using row_unit_ok [OF d1(1,2)] uok(2) by (simp add: unit_ok_def)
  ultimately have card2: "int (card (open_set d2 pk)) = wu_num_unsatisfied u + int (length pks)" "0 < length pks"
    using False i(2) by simp_all
  let ?u1 = "u\<lparr>wu_num_unsatisfied := wu_num_unsatisfied u + int (length pks)\<rparr>"
  have sync: "in_sync ?u1 d2" using d1(2) uok(2) by (simp add: in_sync_def d2_def)
  have "0 < wu_num_unsatisfied u + int (length pks)" using num card2(2) by linarith
  then have ok: "unit_ok d2 (?u1\<lparr>wu_state := PENDING\<rparr>)" using card2(1) uok(2) by (simp add: unit_ok_def)
  show ?thesis
  proof (cases "wu_state u = READY")
    case True
    then have "db' = save (?u1\<lparr>wu_state := PENDING\<rparr>) (snd (transition_to_state PENDING ?u1 d2))"
      using r False f by (auto simp: create_requirements_def bulk_create_def Let_def uok(2) d2_def d1_def transition_to_state_def)
    then show ?thesis using transition_save_wf(1) [OF d2 sync, of PENDING] True ok uok(2) by (simp add: wf_db_but)
  next
    case notready: False
    then have "db' = save ?u1 d2" using r False f by (auto simp: create_requirements_def bulk_create_def Let_def uok(2) d2_def d1_def)
    moreover have "unit_ok d2 ?u1" using ok u(2) notready by (simp add: unit_ok_def)
    ultimately show ?thesis using save_wf(1) [OF d2 sync] uok(2) by (simp add: wf_db_but)
  qed
qed

section \<open>Bulk operations and counts\<close>

lemma state_total_update:
  assumes "\<And>u. P u \<Longrightarrow> wu_ctype u = ct \<and> wu_state u = from" "from \<noteq> to"
  shows "int (length (filter (\<lambda>u. wu_ctype u = c \<and> wu_state u = s) (map (\<lambda>u. if P u then u\<lparr>wu_state := to\<rparr> else u) us)))
    = int (length (filter (\<lambda>u. wu_ctype u = c \<and> wu_state u = s) us))
      + (if c = ct \<and> s = to then int (length (filter P us)) else 0)
      - (if c = ct \<and> s = from then int (length (filter P us)) else 0)"
proof (induction us)
  case (Cons u us)
  show ?case
  proof (cases "P u")
    case True
    then show ?thesis using Cons assms(1) [OF True] assms(2) by auto
  next
    case False
    have head: "filter Q (map (\<lambda>u. if P u then u\<lparr>wu_state := to\<rparr> else u) (u # us))
        = (if Q u then [u] else []) @ filter Q (map (\<lambda>u. if P u then u\<lparr>wu_state := to\<rparr> else u) us)"
      "filter Q (u # us) = (if Q u then [u] else []) @ filter Q us" "filter P (u # us) = filter P us" for Q
      using False by simp_all
    show ?thesis unfolding head length_append of_nat_add Cons using False by simp
  qed
qed simp

lemma mark_all_as_feasible_wf:
  assumes wf: "wf_db db"
  shows "wf_db (mark_all_as_feasible ct db)"
proof -
  let ?P = "\<lambda>u :: work_unit. wu_ctype u = ct \<and> wu_state u = INFEASIBLE \<and> wu_num_unsatisfied u = 0"
  define f :: "work_unit \<Rightarrow> work_unit" where "f = (\<lambda>u. if ?P u then u\<lparr>wu_state := READY\<rparr> else u)"
  define d where "d = db\<lparr>db_units := map (\<lambda>(pk, u). (pk, f u)) (db_units db)\<rparr>"
  define n where "n = int (length (filter ?P (unit_rows db)))"
  define d' where "d' = create_delta ct (Some INFEASIBLE) (Some READY) n d"
  have res: "mark_all_as_feasible ct db = d'"
    by (simp add: mark_all_as_feasible_def update_states_def Let_def d_def d'_def f_def n_def)
  have f: "wu_pk (f u) = wu_pk u" "wu_state (f u) = SUCCEEDED \<longleftrightarrow> wu_state u = SUCCEEDED" for u by (simp_all add: f_def)
  have m: "map_of (db_units d) q = map_option f (map_of (db_units db) q)" for q by (simp add: d_def map_of_map)
  have dd: "db_units d' = db_units d" "db_reqs d' = db_reqs db" "db_next d' = db_next db" "db_counts d' = db_counts db"
    by (simp_all add: d'_def d_def)
  have "is_open d' t = is_open db t" for t by (auto simp: is_open_def dd m f(2))
  then have same: "same_progress db d'" by (simp add: same_progress_def dd)
  have tot: "state_total d c s = state_total db c s + (if c = ct \<and> s = READY then n else 0) - (if c = ct \<and> s = INFEASIBLE then n else 0)" for c s
    using state_total_update [of ?P ct INFEASIBLE READY c s "unit_rows db"]
    unfolding state_total_def d_def n_def f_def [symmetric] by (simp add: comp_def case_prod_beta')
  have rec: "recorded_total d c s = recorded_total db c s" for c s by (simp add: recorded_total_def d_def)
  have "recorded_total db c s = state_total db c s" for c s using wf_dbD(3) [OF wf] by (simp add: counts_ok_def)
  then have "counts_ok d'" unfolding d'_def counts_ok_def by (simp add: rec tot delta_effect_def)
  moreover have "rows_ok d'"
  proof -
    have "map fst (db_units d) = map fst (db_units db)" by (simp add: d_def comp_def case_prod_beta')
    then show ?thesis using wf_dbD(1) [OF wf] unfolding rows_ok_def dd m by (auto simp: f(1))
  qed
  moreover have "unit_ok d' v" if v: "map_of (db_units d') q = Some v" for q v
  proof -
    obtain u where u: "map_of (db_units db) q = Some u" "v = f u" using v by (auto simp: dd m)
    then have "unit_ok db u" using row_unit_ok [OF wf] by blast
    then have "unit_ok db (f u)" by (auto simp: unit_ok_def f_def)
    then show ?thesis using unit_ok_same [OF same] u(2) by simp
  qed
  ultimately show ?thesis using wf_dbD(2) [OF wf] unfolding res wf_db_def reqs_ok_def dd(4) by blast
qed

lemma apply_pending_deltas_wf:
  assumes wf: "wf_db db"
  shows "wf_db (snd (apply_pending_deltas shard n db))"
proof -
  let ?d = "snd (apply_pending_deltas shard n db)"
  have d: "db_units ?d = db_units db" "db_reqs ?d = db_reqs db" "db_next ?d = db_next db"
    by (simp_all add: apply_pending_deltas_def apply_deltas_def Let_def)
  have "counts_ok ?d" using wf_dbD(3) [OF wf] recorded_total_apply [OF wf_dbD(2) [OF wf]] by (simp add: counts_ok_def state_total_def d)
  moreover have "is_dict (db_counts ?d)"
    using count_of_apply_all [OF wf_dbD(2) [OF wf]] by (simp add: apply_pending_deltas_def apply_deltas_def Let_def)
  moreover have "rows_ok ?d" using wf_dbD(1) [OF wf] unfolding rows_ok_def d .
  moreover have "same_progress db ?d" by (simp add: same_progress_def d is_open_def)
  then have "reqs_ok ?d" using wf_dbD(4) [OF wf] by (simp add: reqs_ok_def d unit_ok_same)
  ultimately show ?thesis by (simp add: wf_db_def)
qed

lemma count_of_rows:
  "is_dict m \<Longrightarrow>
   is_dict (fold (\<lambda>u m. AList.update (0, wu_ctype u, wu_state u)
      ((case map_of m (0, wu_ctype u, wu_state u) of None \<Rightarrow> 0 | Some i \<Rightarrow> i) + 1) m) us m)
   \<and> count_of c s (fold (\<lambda>u m. AList.update (0, wu_ctype u, wu_state u)
      ((case map_of m (0, wu_ctype u, wu_state u) of None \<Rightarrow> 0 | Some i \<Rightarrow> i) + 1) m) us m)
     = count_of c s m + int (length (filter (\<lambda>u. wu_ctype u = c \<and> wu_state u = s) us))"
proof (induction us arbitrary: m)
  case (Cons u us)
  show ?case using Cons.IH [OF is_dict_update [OF Cons.prems]] count_of_update [OF Cons.prems] by simp
qed simp

lemma recompute_wf:
  assumes wf: "wf_db db" and r: "recompute db = Inr db'"
  shows "wf_db db'"
proof -
  have d: "db_units db' = db_units db" "db_reqs db' = db_reqs db" "db_next db' = db_next db" "db_deltas db' = []"
    using r by (auto simp: recompute_def split: if_splits)
  have c: "is_dict (db_counts db')" "count_of c s (db_counts db') = int (length (filter (\<lambda>u. wu_ctype u = c \<and> wu_state u = s) (unit_rows db)))" for c s
    using r count_of_rows [of "[]" "unit_rows db" c s] by (auto simp: recompute_def count_of_def simp del: map_map split: if_splits)
  have "counts_ok db'" using c(2) by (simp add: counts_ok_def recorded_total_def state_total_def d)
  moreover have "rows_ok db'" using wf_dbD(1) [OF wf] unfolding rows_ok_def d .
  moreover have "same_progress db db'" by (simp add: same_progress_def d is_open_def)
  then have "reqs_ok db'" using wf_dbD(4) [OF wf] by (simp add: reqs_ok_def d unit_ok_same)
  ultimately show ?thesis using c(1) by (simp add: wf_db_def)
qed

end
