(* ===== verification/Workflow_Theorems.thy ===== *)
theory Workflow_Theorems
  imports Workflow_Invariant Workflow_Executor
begin

text \<open>
  What the work queue guarantees. \<open>queue_step\<close> is one committed transaction on the queue, each
  operation under the states it is documented for; the invariants hold in every state it
  reaches from an empty database. Re-running succeeded work is not a step: the last section
  shows how it breaks the counts.
\<close>

section \<open>Steps of the queue\<close>

definition empty_db :: wdb where
  "empty_db = \<lparr>db_units = [], db_reqs = [], db_deltas = [], db_counts = [], db_errors = [], db_next = 1\<rparr>"

inductive queue_step :: "wdb \<Rightarrow> wdb \<Rightarrow> bool" where
  create: "queue_step db (snd (create_work_unit ct creator now descr db))"
| require: "map_of (db_units db) pk = Some u \<Longrightarrow> wu_state u \<in> {PENDING, READY, LEASED} \<Longrightarrow>
    map_of (db_units db) t = Some target \<Longrightarrow> add_requirement_by_id pk t db = Inr (b, db') \<Longrightarrow> queue_step db db'"
| create_required: "map_of (db_units db) pk = Some u \<Longrightarrow> wu_state u \<in> {PENDING, READY} \<Longrightarrow>
    create_requirements ct creator now descrs u db = Inr (u', db') \<Longrightarrow> queue_step db db'"
| lease: "map_of (db_units db) pk = Some u \<Longrightarrow> take_lease until at node uuid u db = Inr (u', db') \<Longrightarrow> queue_step db db'"
| revoke: "map_of (db_units db) pk = Some u \<Longrightarrow> revoke_lease u db = Inr (u', db') \<Longrightarrow> queue_step db db'"
| succeed: "map_of (db_units db) pk = Some u \<Longrightarrow> work_succeeded b now u db = Inr (u', db') \<Longrightarrow> queue_step db db'"
| fail: "map_of (db_units db) pk = Some u \<Longrightarrow> permanent_error_occurred u db = Inr (u', db') \<Longrightarrow> queue_step db db'"
| feasible: "map_of (db_units db) pk = Some u \<Longrightarrow> mark_as_feasible u db = Inr (u', db') \<Longrightarrow> queue_step db db'"
| all_feasible: "queue_step db (mark_all_as_feasible ct db)"
| count: "queue_step db (snd (apply_pending_deltas shard n db))"
| recount: "recompute db = Inr db' \<Longrightarrow> queue_step db db'"

inductive_cases queue_stepE: "queue_step db db'"








section \<open>Counts\<close>

text \<open>
  A run that the witnesses below use: two units, the first requires the second, which is then
  leased and succeeds.
\<close>

definition on_unit :: "(work_unit \<Rightarrow> wdb \<Rightarrow> exn + (work_unit \<times> wdb)) \<Rightarrow> nat \<Rightarrow> wdb \<Rightarrow> exn + wdb" where
  "on_unit f pk db = (case map_of (db_units db) pk of None \<Rightarrow> Inl (OtherException ''DoesNotExist'') | Some u \<Rightarrow> rmap snd (f u db))"

definition lease_run :: "nat \<Rightarrow> wdb \<Rightarrow> exn + wdb" where
  "lease_run pk = on_unit (take_lease 100 10 ''node'' ''uuid'') pk"

definition two_units :: wdb where
  "two_units = snd (create_work_unit 7 None 2 ''second'' (snd (create_work_unit 7 None 1 ''first'' empty_db)))"

definition waiting_db :: wdb where
  "waiting_db = snd (projr (add_requirement_by_id 1 2 two_units))"

definition leased_db :: wdb where
  "leased_db = projr (lease_run 2 waiting_db)"
















text \<open>
  C20. Gathering the units that transitively require a unit returns on every database, cyclic
  requirements included, with recursion at most as deep as the number of units, and the result
  is the transitive closure of the requirement relation.
\<close>

theorem transitive_requirers_terminates:
  "gather_transitive_requirers (Suc (length (db_units db))) db pk {} = Some ((requirer_edges db)\<^sup>+ `` {pk})"
  using transitive_requirers_closure [of db pk] by simp

section \<open>Executing work\<close>

lemma log_exception_wf [simp]: "wf_db (log_exception u category e trace db) \<longleftrightarrow> wf_db db"
  by (simp add: log_exception_def create_log_def wf_db_def rows_ok_def counts_ok_def reqs_ok_def unit_ok_def open_set_def
      is_open_def recorded_total_def state_total_def)

lemma log_exception_rows [simp]: "db_units (log_exception u category e trace db) = db_units db"
  "db_reqs (log_exception u category e trace db) = db_reqs db"
  by (simp_all add: log_exception_def create_log_def)







text \<open>A worker whose callbacks leave the database alone, as those of the base class do.\<close>

definition passive_worker :: "worker \<Rightarrow> bool" where
  "passive_worker w \<longleftrightarrow> (\<forall>u db. w_on_success w u db = Inr db \<and> w_on_failure w u db = Inr db
     \<and> (\<exists>lease. w_on_reschedule w u db = Inr (lease, db)))"


lemma saved_refresh: "refresh_from_db u (save u db) = Inr u"
  by (simp add: refresh_from_db_def)





lemma reschedule_func_ok:
  assumes "passive_worker w"
  shows "\<exists>lease. reschedule_func w u (save u db) = (u\<lparr>wu_leased_until := lease\<rparr>, Inr (save u db))"
proof -
  obtain lease where "w_on_reschedule w u (save u db) = Inr (lease, save u db)" using assms by (auto simp: passive_worker_def)
  then show ?thesis by (intro exI [of _ lease]) (simp add: reschedule_func_def saved_refresh)
qed



definition leased_unit :: work_unit where
  "leased_unit = (new_work_unit 2 7 ''second'' None 2)\<lparr>wu_state := LEASED, wu_leased_until := Some 100,
     wu_lease_holder := ''uuid'', wu_node := ''node'', wu_last_attempt := 10\<rparr>"





section \<open>Leases\<close>

text \<open>
  C15. A lease fences its predecessors: once a unit is leased under a new identifier, executing
  an earlier instance of it changes nothing, whether its worker succeeded, asked to be
  rescheduled or raised.
\<close>

theorem stale_lease_fenced:
  assumes "take_lease until at node uuid u db = Inr (u', db')" "wu_pk v = wu_pk u" "wu_lease_holder v \<noteq> uuid"
    and "outcome \<noteq> ReturnedOther" "outcome \<noteq> Raised FatalError"
  shows "execute w now v outcome db' = db'"
proof -
  have "map_of (db_units db') (wu_pk u) = Some u'" "wu_lease_holder u' = uuid"
    using assms(1) by (auto simp: take_lease_def lease_taken_def transition_to_state_def account_for_state_transition_def
        create_delta_def rmap_def Let_def split: sum.splits)
  then have "refetch (wu_pk v) (wu_lease_holder v) db' = None" using assms(2,3) by (simp add: refetch_def)
  then have "complete w now (wu_pk v) (wu_lease_holder v) func db' = Inr db'" for func by (simp add: complete_def)
  then show ?thesis using assms(4,5) by (auto simp: execute_def handle_outcome_def split: work_outcome.splits exn.splits bool.splits)
qed

theorem stale_lease_fenced_witness:
  "execute base_worker 300 (leased_unit\<lparr>wu_lease_holder := ''old''\<rparr>) (Returned True) leased_db = leased_db"
proof -
  have "take_lease 100 10 ''node'' ''uuid'' (new_work_unit 2 7 ''second'' None 2) waiting_db = Inr (leased_unit, leased_db)" by code_simp
  then show ?thesis by (rule stale_lease_fenced) code_simp+
qed






section \<open>Fetching\<close>










section \<open>Departures from the documented behaviour\<close>

lemma lower_char_not_U: "lower_char c \<noteq> CHR ''U''"
proof
  assume "lower_char c = CHR ''U''"
  then have "(of_char (lower_char c) :: nat) = 85" by simp
  then show False by (auto simp: lower_char_def split: if_splits)
qed

text \<open>
  The error of missing credentials is never transient: its message is lowercased before
  the search for a text that has a capital letter.
\<close>

theorem no_credentials_never_transient: "is_transient_error (NoCredentialsError m) = False"
proof -
  have "CHR ''U'' \<notin> set (str_lower m)" using lower_char_not_U by fastforce
  then have "\<not> contains ''Unable to locate credentials'' (str_lower m)" using contains_set by fastforce
  then show ?thesis by (simp add: is_transient_error_def)
qed

definition require_run :: "nat \<Rightarrow> nat \<Rightarrow> wdb \<Rightarrow> exn + wdb" where
  "require_run pk t db = rmap snd (add_requirement_by_id pk t db)"

definition succeed_run :: "nat \<Rightarrow> wdb \<Rightarrow> exn + wdb" where
  "succeed_run pk = on_unit (work_succeeded True 20) pk"

definition lost_update_run :: "exn + wdb" where
  "lost_update_run = rfold (\<lambda>step db. step db)
     [require_run 2 1, lease_run 1, succeed_run 1, lease_run 2, succeed_run 2,
      on_unit rerun 1, require_run 3 1, require_run 3 2, lease_run 1, succeed_run 1]
     (snd (create_work_unit 7 None 3 ''third'' two_units))"

text \<open>
  C39. Re-running succeeded work loses an update: unit 3 requires units 1 and 2, unit 2
  requires unit 1. When unit 1 succeeds again, unit 2 is set to run again, which counts it as
  an open requirement of unit 3; the loop then writes back the copy of unit 3 it fetched
  before, and unit 3 is ready although unit 2 has not succeeded.
\<close>

theorem rerun_loses_requirement:
  "\<exists>db. lost_update_run = Inr db \<and> (3, 2) \<in> set (db_reqs db)
    \<and> map_option wu_state (map_of (db_units db) 3) = Some READY \<and> map_option wu_state (map_of (db_units db) 2) = Some READY"
proof -
  have "\<not> isl lost_update_run" "(3, 2) \<in> set (db_reqs (projr lost_update_run))"
    "map_option wu_state (map_of (db_units (projr lost_update_run)) 3) = Some READY"
    "map_option wu_state (map_of (db_units (projr lost_update_run)) 2) = Some READY" by code_simp+
  then show ?thesis using sum.collapse(2) [of lost_update_run] by metis
qed

text \<open>
  A limit above the number of frames makes \<open>stacktrace_frames\<close> drop frames: with two
  frames and a limit of three it returns one.
\<close>

theorem stacktrace_limit_drops_frames:
  "stacktrace_frames (Some 3) \<lparr>l_category = PERMANENT, l_work_unit = 1, l_message = [], l_stacktrace = ''a'' @ [CHR 0x09] @ ''b''\<rparr> = [''b'']"
  by code_simp

text \<open>
  Excluding two worker classes excludes neither: the selections are concatenated, so each
  exclusion brings back what the other removed, and the rest is registered twice.
\<close>

theorem two_exclusions_exclude_nothing:
  "extrapolate_worker_classes [''-A'', ''-B''] [''A'', ''B'', ''C''] = Inr [''B'', ''C'', ''A'', ''C'']"
  by code_simp

end
